(* ===== verification/Prelude.thy ===== *)
theory Prelude
  imports Main "HOL-Library.Word" "HOL-Library.Monad_Syntax"
begin

unbundle bit_operations_syntax

text \<open>
  Shared vocabulary of the development: the machine integers of \<^verbatim>\<open>types.h\<close>, the collections
  of simplification rules the component theories extend, and the generic facts on words,
  offsets and loops they share.  Nothing here is about a particular source file.
\<close>

section \<open>Machine integers\<close>

type_synonym u8 = "8 word"
type_synonym u16 = "16 word"
type_synonym u32 = "32 word"
type_synonym u64 = "64 word"

text \<open>An \<^verbatim>\<open>int\<close> is kept as its 32 bits; \<open>sint\<close> reads it where the source compares it signed.\<close>

type_synonym c_int = "32 word"

named_theorems mem_simps \<open>loads over stores\<close>
named_theorems frame_simps \<open>what an operation leaves unchanged\<close>
named_theorems inv_intros \<open>operations that keep a well-formedness invariant\<close>

section \<open>Counting loops over words\<close>

text \<open>
  The loops \<^verbatim>\<open>for (i = 0; i < n; i++)\<close> of the source run on 32-bit counters.  The distance
  \<open>n - i\<close> is the measure of every one of them.
\<close>

lemma word_loop_measure [simp]:
  fixes i n :: "'a::len word"
  assumes "i < n"
  shows "unat (n - (i + 1)) < unat (n - i)"
proof -
  from assms have "n - i \<noteq> 0" by auto
  then have "unat (n - i - 1) < unat (n - i)" by (rule measure_unat)
  then show ?thesis by (simp add: algebra_simps)
qed

lemma unat_add_one_less:
  fixes i n :: "'a::len word"
  assumes "i < n"
  shows "unat (i + 1) = unat i + 1"
proof -
  from assms have "unat i < unat n" by (simp add: word_less_nat_alt)
  moreover have "unat n < 2 ^ LENGTH('a)" by simp
  ultimately have "unat i + 1 < 2 ^ LENGTH('a)" by linarith
  then show ?thesis by (simp add: unat_word_ariths)
qed

lemma div_mod_unique: "t < n \<Longrightarrow> p = n * d + t \<longleftrightarrow> p div n = d \<and> p mod n = (t :: nat)"
  using mult_div_mod_eq [of n p] by (auto simp del: mult_div_mod_eq)

section \<open>Offsets\<close>

text \<open>
  \<open>off a b\<close> is how many bytes \<open>b\<close> lies above \<open>a\<close> in the 32-bit address space, wrapping.
  A region of \<open>n\<close> bytes at \<open>a\<close> is the set of the \<open>b\<close> with \<open>off a b < n\<close>.
\<close>

definition off :: "u32 \<Rightarrow> u32 \<Rightarrow> nat" where
  "off a b = unat (b - a)"

definition region :: "u32 \<Rightarrow> nat \<Rightarrow> u32 set" where
  "region a n = {b. off a b < n}"

lemma off_self [simp]: "off a a = 0"
  by (simp add: off_def)

lemma off_less: "off a b < 2 ^ 32"
  using unsigned_less [of "b - a", where ?'a = nat] by (simp add: off_def)

lemma off_add_nat [simp]: "k < 2 ^ 32 \<Longrightarrow> off a (a + of_nat k) = k"
  by (simp add: off_def unat_of_nat take_bit_nat_eq_self)

lemma off_add: "off a (a + k) = unat k"
  by (simp add: off_def)

lemma off_inverse: "a + of_nat (off a b) = b"
  by (simp add: off_def)

lemma off_eq_iff: "off a b = off a c \<longleftrightarrow> b = c"
  by (metis off_inverse)

lemma mem_region [simp]: "b \<in> region a n \<longleftrightarrow> off a b < n"
  by (simp add: region_def)

lemma region_0 [simp]: "region a 0 = {}"
  by (simp add: region_def)

lemma region_mono: "m \<le> n \<Longrightarrow> region a m \<subseteq> region a n"
  by auto

lemma off_shift:
  assumes "off a b < n" "k + n \<le> 2 ^ 32"
  shows "off (a - of_nat k) b = k + off a b"
proof -
  have "b - (a - of_nat k) = of_nat (k + off a b)"
    by (simp add: off_def algebra_simps)
  moreover have "k + off a b < 2 ^ 32" using assms by simp
  ultimately have "unat (b - (a - of_nat k)) = k + off a b"
    by (simp only: unat_of_nat) simp
  then show ?thesis by (simp only: off_def)
qed

lemma unat_of_nat32 [simp]: "k < 2 ^ 32 \<Longrightarrow> unat (of_nat k :: u32) = k"
  by (simp add: unat_of_nat take_bit_nat_eq_self)

lemma off_rebase:
  assumes "j < 2 ^ 32"
  shows "off (a + of_nat j) b = (if j \<le> off a b then off a b - j else 2 ^ 32 - j + off a b)"
proof -
  define x where "x = b - a"
  have "off (a + of_nat j) b = unat (x - of_nat j)"
    by (simp add: off_def x_def algebra_simps)
  moreover have "off a b = unat x" by (simp add: off_def x_def)
  ultimately show ?thesis
    using assms by (simp add: unat_sub_if') arith
qed

lemma region_sub:
  assumes "k + n \<le> N" "N \<le> 2 ^ 32"
  shows "region (a + of_nat k) n \<subseteq> region a N"
proof
  fix b assume "b \<in> region (a + of_nat k) n"
  then have "off (a + of_nat k) b < n" by simp
  with assms have "off (a + of_nat k - of_nat k) b = k + off (a + of_nat k) b"
    by (intro off_shift) auto
  with assms \<open>off (a + of_nat k) b < n\<close> show "b \<in> region a N" by simp
qed

lemma off_unat: "off a b = (if unat a \<le> unat b then unat b - unat a else unat b + 2 ^ 32 - unat a)"
  by (auto simp: off_def unat_sub_if' word_le_nat_alt)

text \<open>Two regions that do not wrap, one below the other, share no byte.\<close>

lemma off_apart:
  assumes "unat a + n \<le> unat b" "unat b + k \<le> 2 ^ 32"
  shows "off b c < k \<Longrightarrow> n \<le> off a c" "off a c < n \<Longrightarrow> k \<le> off b c"
  using assms unsigned_less [of c, where ?'a = nat]
  by (auto simp: off_unat split: if_splits simp del: unsigned_less)

section \<open>Bits\<close>

lemma bit_1_shl [simp]: "bit (push_bit n 1 :: u32) k \<longleftrightarrow> k = n \<and> n < 32"
  by (auto simp: bit_simps)

lemma unat_minus_1 [simp]: "unat (- 1 :: u32) = 4294967295"
  by (simp add: unsigned_minus_1_eq_mask mask_eq_exp_minus_1)

lemma unat_ucast_u8 [simp]: "unat (ucast (w :: u8) :: u32) = unat w"
proof -
  have "unat w < 2 ^ 8" using unsigned_less [of w, where ?'a = nat] by simp
  then show ?thesis by (simp add: unsigned_ucast_eq take_bit_nat_eq_self)
qed

lemma unat_ucast_u16 [simp]: "unat (ucast (w :: u16) :: u32) = unat w"
proof -
  have "unat w < 2 ^ 16" using unsigned_less [of w, where ?'a = nat] by simp
  then show ?thesis by (simp add: unsigned_ucast_eq take_bit_nat_eq_self)
qed

lemma ucast_u8_inject [simp]: "(ucast (a :: u8) :: u32) = ucast b \<longleftrightarrow> a = b"
  by (metis unat_ucast_u8 word_unat_eq_iff)

lemma unat_and_mask: "unat (w AND mask n) = unat w mod 2 ^ n"
proof -
  have "unat (w AND mask n) = take_bit n (unat w)"
    by (simp only: unsigned_take_bit_eq flip: take_bit_eq_mask)
  then show ?thesis by (simp only: take_bit_eq_mod)
qed

lemma unat_drop_bit: "unat (drop_bit n (w :: 'a::len word)) = unat w div 2 ^ n"
proof -
  have "unat (drop_bit n w) = drop_bit n (unat w)" by (rule unat_drop_bit_eq)
  then show ?thesis by (simp only: drop_bit_eq_div)
qed

lemma unat_and_not_mask: "unat (w AND NOT (mask n) :: 'a::len word) = unat w div 2 ^ n * 2 ^ n"
proof -
  have "w AND NOT (mask n) = push_bit n (drop_bit n w)"
    by (rule bit_word_eqI) (auto simp: bit_simps)
  then have "unat (w AND NOT (mask n)) = take_bit LENGTH('a) (push_bit n (drop_bit n (unat w)))"
    by (simp only: unsigned_push_bit_eq unat_drop_bit_eq)
  also have "\<dots> = take_bit LENGTH('a) (unat w div 2 ^ n * 2 ^ n)"
    by (simp only: push_bit_eq_mult drop_bit_eq_div)
  also have "\<dots> = unat w div 2 ^ n * 2 ^ n"
  proof (rule take_bit_nat_eq_self)
    have "unat w div 2 ^ n * 2 ^ n \<le> unat w" by simp
    also have "unat w < 2 ^ LENGTH('a)" by simp
    finally show "unat w div 2 ^ n * 2 ^ n < 2 ^ LENGTH('a)" .
  qed
  finally show ?thesis .
qed

end
