(* ===== verification/Memory.thy ===== *)
theory Memory
  imports Prelude
begin

text \<open>
  The kernel's flat memory.  A pointer is a 32-bit word and memory is a total map from
  addresses to bytes: the kernel runs with one linear address space and every load and store
  of the source goes to it.  Multi-byte cells are little-endian.  The locale \<open>cells\<close> is
  the contract of a fixed-width cell; the array facts of every component are proved once in
  it and interpreted for 8-, 16- and 32-bit cells.  The section on addresses models
  \<^verbatim>\<open>P2V\<close> and \<^verbatim>\<open>V2P\<close> of \<^verbatim>\<open>types.h\<close>.
\<close>

type_synonym mem = "u32 \<Rightarrow> u8"

text \<open>
  The part of the machine that every component shares; components extend the record.
  \<open>indet\<close> stands for the value a caller sees when a non-\<^verbatim>\<open>void\<close> function ends without a
  \<^verbatim>\<open>return\<close>: no operation assigns it and no theorem fixes it.
\<close>

record machine =
  mem :: mem
  indet :: u32

section \<open>Cells of a fixed width\<close>

locale cells =
  fixes ld :: "mem \<Rightarrow> u32 \<Rightarrow> 'v"
    and st :: "mem \<Rightarrow> u32 \<Rightarrow> 'v \<Rightarrow> mem"
    and width :: nat
  assumes width_pos: "0 < width"
    and width_small: "width \<le> 2 ^ 32"
    and ld_st: "ld (st m a v) a = v"
    and st_frame: "width \<le> off a b \<Longrightarrow> st m a v b = m b"
    and ld_cong: "(\<And>b. off a b < width \<Longrightarrow> m b = m' b) \<Longrightarrow> ld m a = ld m' a"
begin

lemma ld_st_sep:
  assumes "width \<le> off a b" "width \<le> off b a"
  shows "ld (st m a v) b = ld m b"
proof (rule ld_cong)
  fix c assume c: "off b c < width"
  have "width \<le> off a c"
  proof (rule ccontr)
    assume "\<not> width \<le> off a c"
    then have ac: "off a c < width" by simp
    show False
    proof (cases "off a c \<le> off b c")
      case True
      have "a - b = of_nat (off b c - off a c)"
        using True by (simp add: off_def of_nat_diff algebra_simps)
      then have "off b a = off b c - off a c"
        using c off_less [of b c] by (simp add: off_def unat_of_nat take_bit_nat_eq_self)
      with c assms show False by simp
    next
      case False
      have "b - a = of_nat (off a c - off b c)"
        using False by (simp add: off_def of_nat_diff algebra_simps)
      then have "off a b = off a c - off b c"
        using ac off_less [of a c] by (simp add: off_def unat_of_nat take_bit_nat_eq_self)
      with ac assms show False by simp
    qed
  qed
  then show "st m a v c = m c" by (rule st_frame)
qed

text \<open>The \<open>i\<close>-th cell of an array at \<open>b\<close>: \<^verbatim>\<open>b[i]\<close> in the source.\<close>

definition idx :: "u32 \<Rightarrow> nat \<Rightarrow> u32" where
  "idx b i = b + of_nat (width * i)"

lemma off_idx: "width * i < 2 ^ 32 \<Longrightarrow> off b (idx b i) = width * i"
  unfolding idx_def by (rule off_add_nat)

lemma idx_apart:
  assumes "i < n" "j < n" "i \<noteq> j" "width * n \<le> 2 ^ 32"
  shows "width \<le> off (idx b i) (idx b j)"
proof (cases "i < j")
  case True
  have "idx b j = idx b i + of_nat (width * (j - i))"
    using True by (simp add: idx_def of_nat_diff algebra_simps)
  moreover have "width * (j - i) < 2 ^ 32"
  proof -
    have "width * (j - i) < width * n"
      using assms width_pos by simp
    then show ?thesis using assms(4) by (rule less_le_trans)
  qed
  ultimately have "off (idx b i) (idx b j) = width * (j - i)"
    by (simp only: off_add_nat)
  with True show ?thesis by (simp add: Suc_le_eq)
next
  case False
  with assms have ji: "j < i" by simp
  let ?d = "width * (i - j)"
  have le: "?d + width \<le> 2 ^ 32"
  proof -
    have "i - j + 1 \<le> n" using assms ji by simp
    then have "width * (i - j + 1) \<le> width * n" by (rule mult_le_mono2)
    with assms show ?thesis by (simp add: algebra_simps)
  qed
  have pos: "0 < ?d" using ji width_pos by simp
  have "idx b j = idx b i - of_nat ?d"
    using ji by (simp add: idx_def of_nat_diff algebra_simps)
  also have "\<dots> = idx b i + of_nat (2 ^ 32 - ?d)"
    using le by (simp add: of_nat_diff)
  finally have eq: "idx b j = idx b i + of_nat (2 ^ 32 - ?d)" .
  have "2 ^ 32 - ?d < 2 ^ 32" using pos by simp
  then have "off (idx b i) (idx b j) = 2 ^ 32 - ?d"
    unfolding eq by (rule off_add_nat)
  with le show ?thesis by simp
qed

lemma ld_st_idx:
  assumes "i < n" "j < n" "width * n \<le> 2 ^ 32"
  shows "ld (st m (idx b i) v) (idx b j) = (if i = j then v else ld m (idx b j))"
  using assms idx_apart [of i n j b] idx_apart [of j n i b]
  by (auto simp: ld_st ld_st_sep)

text \<open>An array reads the same in two memories that agree on its bytes.\<close>

lemma idx_region:
  assumes "i < n" "width * n \<le> 2 ^ 32" "off (idx b i) c < width"
  shows "off b c < width * n"
proof -
  have "width * i + width \<le> width * n"
    using assms by (metis Suc_leI add.commute mult_Suc_right mult_le_mono2)
  moreover from this have "region (b + of_nat (width * i)) width \<subseteq> region b (width * n)"
    using assms by (intro region_sub) auto
  ultimately show ?thesis using assms by (auto simp: idx_def)
qed

lemma arr_cong:
  assumes "\<And>c. off b c < width * n \<Longrightarrow> m c = m' c" "i < n" "width * n \<le> 2 ^ 32"
  shows "ld m (idx b i) = ld m' (idx b i)"
  using assms by (intro ld_cong) (auto dest: idx_region)

lemma st_idx_frame:
  assumes "i < n" "width * n \<le> 2 ^ 32" "width * n \<le> off b c"
  shows "st m (idx b i) v c = m c"
  using assms idx_region [of i n b c] by (intro st_frame) (meson leD leI)

end

section \<open>Loads and stores of the source\<close>

definition load8 :: "mem \<Rightarrow> u32 \<Rightarrow> u8" where
  "load8 m a = m a"

definition store8 :: "mem \<Rightarrow> u32 \<Rightarrow> u8 \<Rightarrow> mem" where
  "store8 m a v = m(a := v)"

definition load16 :: "mem \<Rightarrow> u32 \<Rightarrow> u16" where
  "load16 m a = ucast (m a) OR push_bit 8 (ucast (m (a + 1)))"

definition store16 :: "mem \<Rightarrow> u32 \<Rightarrow> u16 \<Rightarrow> mem" where
  "store16 m a v = m(a := ucast v, a + 1 := ucast (drop_bit 8 v))"

definition load32 :: "mem \<Rightarrow> u32 \<Rightarrow> u32" where
  "load32 m a = ucast (m a) OR push_bit 8 (ucast (m (a + 1)))
     OR push_bit 16 (ucast (m (a + 2))) OR push_bit 24 (ucast (m (a + 3)))"

definition store32 :: "mem \<Rightarrow> u32 \<Rightarrow> u32 \<Rightarrow> mem" where
  "store32 m a v = m(a := ucast v, a + 1 := ucast (drop_bit 8 v),
     a + 2 := ucast (drop_bit 16 v), a + 3 := ucast (drop_bit 24 v))"

lemma off_neq: "n \<le> off a b \<Longrightarrow> k < n \<Longrightarrow> n \<le> 2 ^ 32 \<Longrightarrow> b \<noteq> a + of_nat k"
  by auto

lemma load32_store32_same [simp]: "load32 (store32 m a v) a = v"
proof (rule bit_word_eqI)
  fix n assume "n < LENGTH(32)"
  then consider "n < 8" | "8 \<le> n" "n < 16" | "16 \<le> n" "n < 24" | "24 \<le> n" "n < 32"
    by fastforce
  then show "bit (load32 (store32 m a v) a) n = bit v n"
    by cases (auto simp: load32_def store32_def bit_simps)
qed

lemma load16_store16_same [simp]: "load16 (store16 m a v) a = v"
  by (rule bit_word_eqI) (auto simp: load16_def store16_def bit_simps)

interpretation c8: cells load8 store8 1
  by unfold_locales (auto simp: load8_def store8_def)

interpretation c16: cells load16 store16 2
proof
  show "store16 m a v b = m b" if "2 \<le> off a b" for m a v b
    using off_neq [OF that, of 0] off_neq [OF that, of 1] by (simp add: store16_def)
  show "load16 m a = load16 m' a" if "\<And>b. off a b < 2 \<Longrightarrow> m b = m' b" for a m m'
    using that [of a] that [of "a + 1"] by (simp add: load16_def off_add)
qed simp_all

interpretation c32: cells load32 store32 4
proof
  show "store32 m a v b = m b" if "4 \<le> off a b" for m a v b
    using off_neq [OF that, of 0] off_neq [OF that, of 1] off_neq [OF that, of 2]
      off_neq [OF that, of 3] by (simp add: store32_def)
  show "load32 m a = load32 m' a" if "\<And>b. off a b < 4 \<Longrightarrow> m b = m' b" for a m m'
    using that [of a] that [of "a + 1"] that [of "a + 2"] that [of "a + 3"]
    by (simp add: load32_def off_add)
qed simp_all

lemmas [mem_simps] = c8.ld_st c16.ld_st c32.ld_st c8.ld_st_idx c16.ld_st_idx c32.ld_st_idx
  c8.ld_st_sep c16.ld_st_sep c32.ld_st_sep

section \<open>Physical and kernel addresses\<close>

text \<open>The kernel is linked at \<^verbatim>\<open>KERNEL_VIRT\<close>; the two macros move an address between the halves.\<close>

definition KERNEL_VIRT :: u32 where
  "KERNEL_VIRT = 0xC0000000"

definition P2V :: "u32 \<Rightarrow> u32" where
  "P2V x = (if x \<le> KERNEL_VIRT then x + KERNEL_VIRT else x)"

definition V2P :: "u32 \<Rightarrow> u32" where
  "V2P x = (if KERNEL_VIRT \<le> x then x - KERNEL_VIRT else x)"

lemma P2V_V2P:
  assumes "KERNEL_VIRT \<le> x"
  shows "P2V (V2P x) = x"
  using assms unfolding P2V_def V2P_def KERNEL_VIRT_def by unat_arith auto

lemma V2P_P2V:
  assumes "x < 0x40000000"
  shows "V2P (P2V x) = x"
  using assms unfolding P2V_def V2P_def KERNEL_VIRT_def by unat_arith auto

end
