(* ===== verification/Kstring.thy ===== *)
theory Kstring
  imports Memory "HOL-Library.Signed_Division" "HOL-Library.Sublist"
begin

text \<open>
  The string library of the kernel, \<^verbatim>\<open>kernel/lib/string.c\<close>.  Every function takes the memory
  it runs on; one that writes returns the new memory.  Loops bounded by a count are total
  functions on their 32-bit (for \<^verbatim>\<open>strncpy\<close> 16-bit) counter.  Loops that run to a NUL byte are
  \<open>option\<close>-valued: \<open>None\<close> means that the loop never ends, and the lemmas show that it ends on
  every C string.  A \<^verbatim>\<open>char\<close> is signed, as on the i686 target, where it is widened to \<^verbatim>\<open>int\<close>.
\<close>

section \<open>Operations\<close>

partial_function (option) strlen_loop :: "mem \<Rightarrow> u32 \<Rightarrow> u32 \<Rightarrow> u32 option" where
  "strlen_loop m s i = (if m s \<noteq> 0 then strlen_loop m (s + 1) (i + 1) else Some i)"

definition strlen :: "mem \<Rightarrow> u32 \<Rightarrow> u32 option" where
  "strlen m s = strlen_loop m s 0"

text \<open>\<open>d\<close> is \<^verbatim>\<open>destination + length\<close>; the loop returns the memory and the final \<^verbatim>\<open>i\<close>.\<close>

function strncat_loop :: "mem \<Rightarrow> u32 \<Rightarrow> u32 \<Rightarrow> u32 \<Rightarrow> u32 \<Rightarrow> mem \<times> u32" where
  "strncat_loop m d source n i =
     (if i < n \<and> m (source + i) \<noteq> 0
      then strncat_loop (m(d + i := m (source + i))) d source n (i + 1)
      else (m, i))"
  by pat_completeness auto
termination
  by (relation "measure (\<lambda>(m, d, source, n, i). unat (n - i))") auto

definition strncat :: "mem \<Rightarrow> u32 \<Rightarrow> u32 \<Rightarrow> u32 \<Rightarrow> (mem \<times> u32) option" where
  "strncat m destination source n = do {
     len \<leftarrow> strlen m destination;
     let (m, i) = strncat_loop m (destination + len) source n 0;
     Some (m(destination + len + i := 0), destination)
   }"

definition strcat :: "mem \<Rightarrow> u32 \<Rightarrow> u32 \<Rightarrow> (mem \<times> u32) option" where
  "strcat m destination source = do {
     n \<leftarrow> strlen m source;
     strncat m destination source n
   }"

function strncpy_copy :: "mem \<Rightarrow> u32 \<Rightarrow> u32 \<Rightarrow> u16 \<Rightarrow> u16 \<Rightarrow> mem \<times> u16" where
  "strncpy_copy m dest src n i =
     (if i < n \<and> m (src + ucast i) \<noteq> 0
      then strncpy_copy (m(dest + ucast i := m (src + ucast i))) dest src n (i + 1)
      else (m, i))"
  by pat_completeness auto
termination
  by (relation "measure (\<lambda>(m, dest, src, n, i). unat (n - i))") auto

function strncpy_pad :: "mem \<Rightarrow> u32 \<Rightarrow> u16 \<Rightarrow> u16 \<Rightarrow> mem" where
  "strncpy_pad m dest n i =
     (if i < n then strncpy_pad (m(dest + ucast i := 0)) dest n (i + 1) else m)"
  by pat_completeness auto
termination
  by (relation "measure (\<lambda>(m, dest, n, i). unat (n - i))") auto

definition strncpy :: "mem \<Rightarrow> u32 \<Rightarrow> u32 \<Rightarrow> u16 \<Rightarrow> mem \<times> u32" where
  "strncpy m dest src n =
     (let (m, i) = strncpy_copy m dest src n 0 in (strncpy_pad m dest n i, dest))"

text \<open>The length is converted to the \<^verbatim>\<open>uint16_t\<close> parameter of \<^verbatim>\<open>strncpy\<close>.\<close>

definition strcpy :: "mem \<Rightarrow> u32 \<Rightarrow> u32 \<Rightarrow> (mem \<times> u32) option" where
  "strcpy m dest src = do {
     n \<leftarrow> strlen m src;
     Some (strncpy m dest src (ucast n))
   }"

function strncmp_loop :: "mem \<Rightarrow> u32 \<Rightarrow> u32 \<Rightarrow> u32 \<Rightarrow> u32 \<Rightarrow> c_int" where
  "strncmp_loop m s1 s2 n i =
     (if i < n
      then if m (s1 + i) \<noteq> m (s2 + i) then ucast (m (s1 + i)) - ucast (m (s2 + i))
           else strncmp_loop m s1 s2 n (i + 1)
      else 0)"
  by pat_completeness auto
termination
  by (relation "measure (\<lambda>(m, s1, s2, n, i). unat (n - i))") auto

definition strncmp :: "mem \<Rightarrow> u32 \<Rightarrow> u32 \<Rightarrow> u32 \<Rightarrow> c_int" where
  "strncmp m s1 s2 n = strncmp_loop m s1 s2 n 0"

definition strcmp :: "mem \<Rightarrow> u32 \<Rightarrow> u32 \<Rightarrow> c_int option" where
  "strcmp m s1 s2 = do {
     n \<leftarrow> strlen m s1;
     Some (strncmp m s1 s2 n)
   }"

text \<open>\<^verbatim>\<open>*s == c\<close> compares the sign-extended character with the \<^verbatim>\<open>int\<close>; \<open>0\<close> is \<^verbatim>\<open>NULL\<close>.\<close>

partial_function (option) strchr :: "mem \<Rightarrow> u32 \<Rightarrow> c_int \<Rightarrow> u32 option" where
  "strchr m s c =
     (if m s \<noteq> 0 then if scast (m s) = c then Some s else strchr m (s + 1) c
      else Some 0)"

text \<open>\<^verbatim>\<open>length\<close> and \<^verbatim>\<open>i\<close> are \<^verbatim>\<open>int\<close>s and \<^verbatim>\<open>length / 2\<close> rounds towards zero.\<close>

function strrev_loop :: "mem \<Rightarrow> u32 \<Rightarrow> int \<Rightarrow> int \<Rightarrow> mem" where
  "strrev_loop m s len i =
     (if i \<le> len sdiv 2
      then let temp = m (s + word_of_int i);
               m1 = m(s + word_of_int i := m (s + word_of_int (len - i)));
               m2 = m1(s + word_of_int (len - i) := temp)
           in strrev_loop m2 s len (i + 1)
      else m)"
  by pat_completeness auto
termination
  by (relation "measure (\<lambda>(m, s, len, i). nat (len sdiv 2 + 1 - i))") auto

definition strrev :: "mem \<Rightarrow> u32 \<Rightarrow> (mem \<times> u32) option" where
  "strrev m s = do {
     n \<leftarrow> strlen m s;
     Some (strrev_loop m s (sint (n - 1)) 0, s)
   }"

function memcpy_loop :: "mem \<Rightarrow> u32 \<Rightarrow> u32 \<Rightarrow> u32 \<Rightarrow> u32 \<Rightarrow> mem" where
  "memcpy_loop m dest src n i =
     (if i < n then memcpy_loop (m(dest + i := m (src + i))) dest src n (i + 1) else m)"
  by pat_completeness auto
termination
  by (relation "measure (\<lambda>(m, dest, src, n, i). unat (n - i))") auto

definition memcpy :: "mem \<Rightarrow> u32 \<Rightarrow> u32 \<Rightarrow> u32 \<Rightarrow> mem \<times> u32" where
  "memcpy m s1 s2 n = (memcpy_loop m s1 s2 n 0, s1)"

function memset_loop :: "mem \<Rightarrow> u32 \<Rightarrow> c_int \<Rightarrow> u32 \<Rightarrow> u32 \<Rightarrow> mem" where
  "memset_loop m dest c n i =
     (if i < n then memset_loop (m(dest + i := ucast c)) dest c n (i + 1) else m)"
  by pat_completeness auto
termination
  by (relation "measure (\<lambda>(m, dest, c, n, i). unat (n - i))") auto

definition memset :: "mem \<Rightarrow> u32 \<Rightarrow> c_int \<Rightarrow> u32 \<Rightarrow> mem \<times> u32" where
  "memset m s c n = (memset_loop m s c n 0, s)"

text \<open>\<^verbatim>\<open>*dest++ = c\<close> on \<^verbatim>\<open>uint16_t\<close>; the function has no \<^verbatim>\<open>return\<close>.\<close>

function memsetw_loop :: "mem \<Rightarrow> u32 \<Rightarrow> c_int \<Rightarrow> u32 \<Rightarrow> u32 \<Rightarrow> mem" where
  "memsetw_loop m dest c n i =
     (if i < n then memsetw_loop (store16 m dest (ucast c)) (dest + 2) c n (i + 1) else m)"
  by pat_completeness auto
termination
  by (relation "measure (\<lambda>(m, dest, c, n, i). unat (n - i))") auto

definition memsetw :: "mem \<Rightarrow> u32 \<Rightarrow> c_int \<Rightarrow> u32 \<Rightarrow> mem" where
  "memsetw m s c n = memsetw_loop m s c n 0"

text \<open>\<^verbatim>\<open>b\<close> is incremented before the test, so the pointer returned is one past the match.\<close>

function memchr :: "mem \<Rightarrow> u32 \<Rightarrow> c_int \<Rightarrow> u32 \<Rightarrow> u32" where
  "memchr m b c n =
     (if n \<noteq> 0 then if ucast (m b) = c then b + 1 else memchr m (b + 1) c (n - 1)
      else 0)"
  by pat_completeness auto
termination
  by (relation "measure (\<lambda>(m, b, c, n). unat n)") (auto intro: measure_unat)

definition memrchr :: "mem \<Rightarrow> u32 \<Rightarrow> c_int \<Rightarrow> u32 \<Rightarrow> (mem \<times> u32) option" where
  "memrchr m s c n = do {
     (m, r) \<leftarrow> strrev m s;
     strrev m (memchr m r c n)
   }"

text \<open>\<^verbatim>\<open>n--\<close> is evaluated only when the two bytes are equal.\<close>

function memcmp :: "mem \<Rightarrow> u32 \<Rightarrow> u32 \<Rightarrow> u32 \<Rightarrow> c_int" where
  "memcmp m s1 s2 n =
     (if m s1 = m s2 \<and> n \<noteq> 0 then memcmp m (s1 + 1) (s2 + 1) (n - 1)
      else ucast (m s1) - ucast (m s2))"
  by pat_completeness auto
termination
  by (relation "measure (\<lambda>(m, s1, s2, n). unat n)") (auto intro: measure_unat)

partial_function (option) strpbrk_in :: "mem \<Rightarrow> u32 \<Rightarrow> u32 \<Rightarrow> u32 \<Rightarrow> bool option" where
  "strpbrk_in m s delim q = do {
     n \<leftarrow> strlen m delim;
     if q < n then if m s = m (delim + q) then Some True else strpbrk_in m s delim (q + 1)
     else Some False
   }"

partial_function (option) strpbrk :: "mem \<Rightarrow> u32 \<Rightarrow> u32 \<Rightarrow> u32 option" where
  "strpbrk m s delim =
     (if m s \<noteq> 0
      then do {
        hit \<leftarrow> strpbrk_in m (s + 1) delim 0;
        if hit then Some (s + 1) else strpbrk m (s + 1) delim
      }
      else Some 0)"

partial_function (option) strstr :: "mem \<Rightarrow> u32 \<Rightarrow> u32 \<Rightarrow> u32 option" where
  "strstr m s1 s2 =
     (if m s1 \<noteq> 0
      then do {
        n \<leftarrow> strlen m s2;
        if strncmp m (s1 + 1) s2 n = 0 then Some (s1 + 1) else strstr m (s1 + 1) s2
      }
      else Some 0)"

partial_function (option) strspn_loop :: "mem \<Rightarrow> u32 \<Rightarrow> u32 \<Rightarrow> u32 \<Rightarrow> u32 option" where
  "strspn_loop m s1 s2 i = do {
     n \<leftarrow> strlen m s1;
     if i < n
     then do {
       p \<leftarrow> strchr m s2 (scast (m (s1 + i)));
       if p = 0 then Some i else strspn_loop m s1 s2 (i + 1)
     }
     else strlen m s1
   }"

definition strspn :: "mem \<Rightarrow> u32 \<Rightarrow> u32 \<Rightarrow> u32 option" where
  "strspn m s1 s2 = strspn_loop m s1 s2 0"

text \<open>\<open>ptr\<close> is the function's \<^verbatim>\<open>static char* ptr\<close>; the result is (memory, new \<^verbatim>\<open>ptr\<close>, value).\<close>

definition strtok :: "mem \<Rightarrow> u32 \<Rightarrow> u32 \<Rightarrow> u32 \<Rightarrow> (mem \<times> u32 \<times> u32) option" where
  "strtok m ptr s delim =
     (let ptr = (if s \<noteq> 0 then s else ptr) in
      if ptr = 0 \<and> s = 0 then Some (m, ptr, 0)
      else do {
        k \<leftarrow> strspn m ptr delim;
        let ptr = ptr + k;
        t \<leftarrow> strpbrk m ptr delim;
        if t \<noteq> 0 then Some (m(t := 0), t + 1, ptr) else Some (m, 0, ptr)
      })"

section \<open>C strings\<close>

text \<open>\<open>cstr m s xs\<close>: the bytes \<open>xs\<close>, none of them NUL, stand at \<open>s\<close> and a NUL ends them.\<close>

fun cstr :: "mem \<Rightarrow> u32 \<Rightarrow> u8 list \<Rightarrow> bool" where
  "cstr m s [] \<longleftrightarrow> m s = 0"
| "cstr m s (x # xs) \<longleftrightarrow> m s = x \<and> x \<noteq> 0 \<and> cstr m (s + 1) xs"

declare strncat_loop.simps [simp del] strncpy_copy.simps [simp del] strncpy_pad.simps [simp del]
  strncmp_loop.simps [simp del] strrev_loop.simps [simp del] memcpy_loop.simps [simp del]
  memset_loop.simps [simp del] memsetw_loop.simps [simp del] memchr.simps [simp del]
  memcmp.simps [simp del]

lemma cstr_nth: "cstr m s xs \<Longrightarrow> i < length xs \<Longrightarrow> m (s + of_nat i) = xs ! i \<and> xs ! i \<noteq> 0"
proof (induction xs arbitrary: s i)
  case (Cons x xs)
  then show ?case
    using Cons.IH [of "s + 1" "i - 1"] by (cases i) (auto simp: algebra_simps)
qed simp

lemma cstr_end: "cstr m s xs \<Longrightarrow> m (s + of_nat (length xs)) = 0"
  by (induction xs arbitrary: s) (force simp: algebra_simps)+

lemma cstr_length: "cstr m s xs \<Longrightarrow> length xs < 2 ^ 32"
proof (rule ccontr)
  assume c: "cstr m s xs" and "\<not> length xs < 2 ^ 32"
  then have le: "2 ^ 32 \<le> length xs" by simp
  let ?r = "length xs - 2 ^ 32"
  have "(of_nat (length xs) :: u32) = of_nat ?r"
    using le by (simp add: of_nat_diff)
  moreover have "m (s + of_nat ?r) \<noteq> 0"
    using cstr_nth [OF c, of ?r] le by simp
  ultimately show False using cstr_end [OF c] by simp
qed

lemma cstrI:
  assumes "\<And>i. i < length xs \<Longrightarrow> m (s + of_nat i) = xs ! i" "0 \<notin> set xs"
    and "m (s + of_nat (length xs)) = 0"
  shows "cstr m s xs"
  using assms
proof (induction xs arbitrary: s)
  case (Cons x xs)
  have "cstr m (s + 1) xs"
  proof (rule Cons.IH)
    fix i assume "i < length xs"
    then show "m (s + 1 + of_nat i) = xs ! i"
      using Cons.prems(1) [of "Suc i"] by (simp add: algebra_simps)
  qed (use Cons.prems in \<open>auto simp: algebra_simps\<close>)
  with Cons.prems(1) [of 0] Cons.prems(2) show ?case by auto
qed simp

lemma cstr_nonzero: "cstr m s xs \<Longrightarrow> 0 \<notin> set xs"
  by (induction xs arbitrary: s) auto

lemma cstr_at: "cstr m s xs \<Longrightarrow> i \<le> length xs \<Longrightarrow> cstr m (s + of_nat i) (drop i xs)"
proof (induction xs arbitrary: s i)
  case (Cons x xs)
  then show ?case
    using Cons.IH [of "s + 1" "i - 1"] by (cases i) (auto simp: algebra_simps)
qed simp

lemma strlen_loop_cstr: "cstr m s xs \<Longrightarrow> strlen_loop m s i = Some (i + of_nat (length xs))"
  by (induction xs arbitrary: s i) (subst strlen_loop.simps; simp add: algebra_simps)+

lemma strlen_cstr: "cstr m s xs \<Longrightarrow> strlen m s = Some (of_nat (length xs))"
  by (simp add: strlen_def strlen_loop_cstr)

lemma unat_cstr_len: "cstr m s xs \<Longrightarrow> unat (of_nat (length xs) :: u32) = length xs"
  using cstr_length [of m s xs] by (simp add: unat_of_nat take_bit_nat_eq_self)

section \<open>Block operations\<close>

text \<open>What each block operation leaves at every address of memory.\<close>

lemma memset_loop_at:
  "memset_loop m d c n i b =
     (if unat i \<le> off d b \<and> off d b < unat n then ucast c else m b)"
proof (induction m d c n i rule: memset_loop.induct)
  case (1 m d c n i)
  show ?case
  proof (cases "i < n")
    case True
    have "(b = d + i) \<longleftrightarrow> off d b = unat i"
      by (metis off_add off_eq_iff)
    moreover have "memset_loop m d c n i b = memset_loop (m(d + i := ucast c)) d c n (i + 1) b"
      using True by (subst memset_loop.simps) simp
    ultimately show ?thesis
      using True by (simp only: "1" [OF True] unat_add_one_less [OF True] fun_upd_apply)
        (auto simp: word_less_nat_alt)
  next
    case False
    then show ?thesis
      by (auto simp: memset_loop.simps [of m d c n i] word_less_nat_alt)
  qed
qed

lemma memset_at: "fst (memset m d c n) b = (if off d b < unat n then ucast c else m b)"
  by (simp add: memset_def memset_loop_at)

lemma memcpy_loop_at:
  assumes "\<And>k. k < unat n \<Longrightarrow> unat n \<le> off d (s + of_nat k)"
  shows "memcpy_loop m d s n i b =
     (if unat i \<le> off d b \<and> off d b < unat n then m (s + (b - d)) else m b)"
  using assms
proof (induction m d s n i rule: memcpy_loop.induct)
  case (1 m d s n i)
  show ?case
  proof (cases "i < n")
    case True
    have di: "(b = d + i) \<longleftrightarrow> off d b = unat i"
      by (metis off_add off_eq_iff)
    have src: "s + (b - d) \<noteq> d + i" if "off d b < unat n"
    proof
      assume "s + (b - d) = d + i"
      then have "off d (s + of_nat (off d b)) = unat i"
        by (simp add: off_def)
      with "1.prems" [OF that] True show False by (simp add: word_less_nat_alt)
    qed
    have "memcpy_loop m d s n i b = memcpy_loop (m(d + i := m (s + i))) d s n (i + 1) b"
      using True by (subst memcpy_loop.simps) simp
    with di src show ?thesis
      using True
      by (simp only: "1.IH" [OF True "1.prems"] unat_add_one_less [OF True] fun_upd_apply)
        (auto simp: word_less_nat_alt)
  next
    case False
    then show ?thesis
      by (auto simp: memcpy_loop.simps [of m d s n i] word_less_nat_alt)
  qed
qed

lemma disjoint_off:
  assumes "region d N \<inter> region s n = {}" "k < n" "n \<le> 2 ^ 32"
  shows "N \<le> off d (s + of_nat k)"
  using assms by (auto simp: disjoint_iff not_less)

lemma memcpy_at:
  assumes "region s1 (unat n) \<inter> region s2 (unat n) = {}"
  shows "fst (memcpy m s1 s2 n) b = (if off s1 b < unat n then m (s2 + (b - s1)) else m b)"
proof -
  have "unat n \<le> 2 ^ 32"
    using unsigned_less [of n, where ?'a = nat] by (simp add: less_imp_le del: unsigned_less)
  then have "unat n \<le> off s1 (s2 + of_nat k)" if "k < unat n" for k
    using that assms by (intro disjoint_off)
  then show ?thesis by (simp add: memcpy_def memcpy_loop_at)
qed

section \<open>Concatenation and copying\<close>

lemma strncat_loop_memcpy:
  assumes "\<And>k. k < unat n \<Longrightarrow> m (s + of_nat k) \<noteq> 0"
    and "\<And>k. k < unat n \<Longrightarrow> unat n \<le> off d (s + of_nat k)" and "i \<le> n"
  shows "strncat_loop m d s n i = (memcpy_loop m d s n i, n)"
  using assms
proof (induction m d s n i rule: strncat_loop.induct)
  case (1 m d s n i)
  show ?case
  proof (cases "i < n")
    case True
    then have lt: "unat i < unat n" by (simp add: word_less_nat_alt)
    have nz: "m (s + i) \<noteq> 0" using "1.prems"(1) [OF lt] by simp
    have "strncat_loop (m(d + i := m (s + i))) d s n (i + 1)
            = (memcpy_loop (m(d + i := m (s + i))) d s n (i + 1), n)"
    proof (rule "1.IH")
      show "(m(d + i := m (s + i))) (s + of_nat k) \<noteq> 0" if "k < unat n" for k
        using "1.prems"(1,2) [OF that] nz by simp
      show "i + 1 \<le> n" using True by (simp add: inc_le)
      show "unat n \<le> off d (s + of_nat k)" if "k < unat n" for k
        using that by (rule "1.prems"(2))
      show "i < n \<and> m (s + i) \<noteq> 0" using True nz by simp
    qed
    with True nz show ?thesis
      by (simp add: strncat_loop.simps [of m d s n i] memcpy_loop.simps [of m d s n i])
  next
    case False
    with "1.prems" show ?thesis
      by (auto simp: strncat_loop.simps [of m d s n n] memcpy_loop.simps [of m d s n n])
  qed
qed

lemma strncpy_copy_memcpy:
  assumes "\<And>k. k < unat n \<Longrightarrow> m (s + of_nat k) \<noteq> 0"
    and "\<And>k. k < unat n \<Longrightarrow> unat n \<le> off d (s + of_nat k)" and "i \<le> n"
  shows "strncpy_copy m d s n i = (memcpy_loop m d s (ucast n) (ucast i), n)"
  using assms
proof (induction m d s n i rule: strncpy_copy.induct)
  case (1 m d s n i)
  have less: "(ucast i :: u32) < ucast n \<longleftrightarrow> i < n"
    by (simp add: word_less_nat_alt)
  show ?case
  proof (cases "i < n")
    case True
    then have lt: "unat i < unat n" by (simp add: word_less_nat_alt)
    have uc: "(of_nat (unat i) :: u32) = ucast i" by simp
    have inc: "(ucast (i + 1) :: u32) = ucast i + 1"
    proof -
      have "unat i + 1 < 2 ^ 16"
        using lt unsigned_less [of n, where ?'a = nat] by (simp del: unsigned_less)
      then show ?thesis
        using unat_add_one_less [OF True]
        by (simp add: word_unat_eq_iff unat_word_ariths)
    qed
    have nz: "m (s + ucast i) \<noteq> 0" using "1.prems"(1) [OF lt] by simp
    have "strncpy_copy (m(d + ucast i := m (s + ucast i))) d s n (i + 1)
            = (memcpy_loop (m(d + ucast i := m (s + ucast i))) d s (ucast n) (ucast (i + 1)), n)"
    proof (rule "1.IH")
      show "(m(d + ucast i := m (s + ucast i))) (s + of_nat k) \<noteq> 0" if "k < unat n" for k
        using "1.prems"(1) [OF that] nz by simp
      show "i + 1 \<le> n" using True by (simp add: inc_le)
      show "unat n \<le> off d (s + of_nat k)" if "k < unat n" for k
        using that by (rule "1.prems"(2))
      show "i < n \<and> m (s + ucast i) \<noteq> 0" using True nz by simp
    qed
    with True nz show ?thesis
      by (simp add: strncpy_copy.simps [of m d s n i] less inc
          memcpy_loop.simps [of m d s "ucast n" "ucast i"])
  next
    case False
    with "1.prems" show ?thesis
      by (auto simp: strncpy_copy.simps [of m d s n n] less
          memcpy_loop.simps [of m d s "ucast n" "ucast n"])
  qed
qed

lemma strncpy_pad_done: "strncpy_pad m d n n = m"
  by (subst strncpy_pad.simps) simp

lemma strcpy_is_memcpy:
  assumes c: "cstr m src xs" and small: "length xs < 2 ^ 16"
    and dis: "region dest (length xs) \<inter> region src (length xs) = {}"
  shows "strcpy m dest src = Some (memcpy m dest src (of_nat (length xs)))"
proof -
  let ?n = "of_nat (length xs) :: u32"
  let ?h = "ucast ?n :: u16"
  have h: "unat ?h = length xs"
    using small by (simp add: unsigned_ucast_eq unat_of_nat take_bit_nat_eq_self)
  then have wide: "ucast ?h = ?n"
    using small by (simp only: word_unat_eq_iff unat_ucast_u16) simp
  have "strncpy_copy m dest src ?h 0 = (memcpy_loop m dest src (ucast ?h) (ucast (0 :: u16)), ?h)"
  proof (rule strncpy_copy_memcpy)
    fix k assume "k < unat ?h"
    with h have k: "k < length xs" by simp
    show "m (src + of_nat k) \<noteq> 0" using cstr_nth [OF c k] by simp
    show "unat ?h \<le> off dest (src + of_nat k)"
      unfolding h using disjoint_off [OF dis k] small by simp
  qed simp
  with wide show ?thesis
    by (simp add: strcpy_def strlen_cstr [OF c] strncpy_def strncpy_pad_done memcpy_def)
qed

lemma strcat_append:
  assumes d: "cstr m d xs" and s: "cstr m s ys"
    and dis: "region d (length xs + length ys + 1) \<inter> region s (length ys + 1) = {}"
    and fits: "length xs + length ys < 2 ^ 32"
  shows "\<exists>m'. strcat m d s = Some (m', d) \<and> cstr m' d (xs @ ys) \<and>
           (\<forall>b. length xs + length ys + 1 \<le> off d b \<longrightarrow> m' b = m b)"
proof -
  let ?n = "of_nat (length ys) :: u32" and ?D = "d + of_nat (length xs)"
  let ?m1 = "memcpy_loop m ?D s ?n 0" and ?e = "?D + of_nat (length ys)"
  define m2 where "m2 = ?m1(?e := 0)"
  have n: "unat ?n = length ys" by (rule unat_cstr_len [OF s])
  have far: "length xs + length ys + 1 \<le> off d (s + of_nat k)" if "k < length ys" for k
    using disjoint_off [OF dis, of k] that fits by simp
  have reb: "off ?D b = (if length xs \<le> off d b then off d b - length xs
      else 2 ^ 32 - length xs + off d b)" for b
    using fits by (intro off_rebase) simp
  have apart: "unat ?n \<le> off ?D (s + of_nat k)" if "k < unat ?n" for k
    using far [of k] that n reb by simp
  have "strncat_loop m ?D s ?n 0 = (?m1, ?n)"
  proof (rule strncat_loop_memcpy)
    show "m (s + of_nat k) \<noteq> 0" if "k < unat ?n" for k
      using cstr_nth [OF s, of k] that n by simp
  qed (use apart in simp_all)
  then have res: "strcat m d s = Some (m2, d)"
    by (simp add: strcat_def strncat_def strlen_cstr [OF s] strlen_cstr [OF d] m2_def)
  have m1: "?m1 b = (if off ?D b < length ys then m (s + (b - ?D)) else m b)" for b
    using memcpy_loop_at [of ?n ?D s m 0 b] apart n by simp
  have at: "m2 (d + of_nat k) = (if k < length xs then m (d + of_nat k)
      else if k < length xs + length ys then m (s + of_nat (k - length xs)) else 0)"
    if "k \<le> length xs + length ys" for k
  proof -
    let ?b = "d + of_nat k"
    have k: "off d ?b = k" and e: "off d ?e = length xs + length ys"
      using that fits by (simp_all add: add.assoc flip: of_nat_add)
    then have be: "?b = ?e \<longleftrightarrow> k = length xs + length ys"
      by (metis off_eq_iff)
    have src: "s + (?b - ?D) = s + of_nat (k - length xs)" if "length xs \<le> k"
      using that by (simp add: of_nat_diff)
    have D: "off ?D ?b < length ys \<longleftrightarrow> length xs \<le> k \<and> k < length xs + length ys"
      using reb [of ?b] k fits by auto
    show ?thesis
      unfolding m2_def fun_upd_apply be m1 D using that src by auto
  qed
  have "cstr m2 d (xs @ ys)"
  proof (rule cstrI)
    show "m2 (d + of_nat i) = (xs @ ys) ! i" if "i < length (xs @ ys)" for i
      using at [of i] that cstr_nth [OF d, of i] cstr_nth [OF s, of "i - length xs"]
      by (auto simp: nth_append)
    show "0 \<notin> set (xs @ ys)" using cstr_nonzero [OF d] cstr_nonzero [OF s] by simp
    show "m2 (d + of_nat (length (xs @ ys))) = 0" using at [of "length (xs @ ys)"] by simp
  qed
  moreover have "m2 b = m b" if "length xs + length ys + 1 \<le> off d b" for b
  proof -
    have "off d ?e = length xs + length ys"
      using fits by (simp add: add.assoc flip: of_nat_add)
    with that have "b \<noteq> ?e" by auto
    moreover have "length ys \<le> off ?D b" using reb [of b] that by simp
    ultimately show ?thesis unfolding m2_def using m1 [of b] by simp
  qed
  ultimately show ?thesis using res by blast
qed

section \<open>Comparison\<close>

lemma strncmp_loop_0:
  "strncmp_loop m a b n i = 0 \<longleftrightarrow>
     (\<forall>k. unat i \<le> k \<and> k < unat n \<longrightarrow> m (a + of_nat k) = m (b + of_nat k))"
proof (induction m a b n i rule: strncmp_loop.induct)
  case (1 m a b n i)
  show ?case
  proof (cases "i < n")
    case True
    then have split: "(\<forall>k. unat i \<le> k \<and> k < unat n \<longrightarrow> m (a + of_nat k) = m (b + of_nat k)) \<longleftrightarrow>
        m (a + i) = m (b + i) \<and>
        (\<forall>k. unat (i + 1) \<le> k \<and> k < unat n \<longrightarrow> m (a + of_nat k) = m (b + of_nat k))"
      using unat_add_one_less [OF True]
      by (auto simp: word_less_nat_alt Suc_le_eq) (metis le_neq_implies_less of_nat_unat ucast_id)
    show ?thesis
    proof (cases "m (a + i) = m (b + i)")
      case eq: True
      with "1" True split show ?thesis by (simp add: strncmp_loop.simps [of m a b n i])
    next
      case False
      with True split show ?thesis by (simp add: strncmp_loop.simps [of m a b n i])
    qed
  next
    case False
    then show ?thesis by (auto simp: strncmp_loop.simps [of m a b n i] word_less_nat_alt)
  qed
qed

lemma strncmp_0:
  "strncmp m a b n = 0 \<longleftrightarrow> (\<forall>k < unat n. m (a + of_nat k) = m (b + of_nat k))"
  by (simp add: strncmp_def strncmp_loop_0)

lemma strncmp_prefix:
  assumes "cstr m a xs" "cstr m b ys"
  shows "strncmp m a b (of_nat (length xs)) = 0 \<longleftrightarrow> prefix xs ys"
proof -
  have n: "unat (of_nat (length xs) :: u32) = length xs" by (rule unat_cstr_len [OF assms(1)])
  have "(\<forall>k < length xs. m (a + of_nat k) = m (b + of_nat k)) \<longleftrightarrow> prefix xs ys"
  proof
    assume L: "\<forall>k < length xs. m (a + of_nat k) = m (b + of_nat k)"
    have "length xs \<le> length ys"
    proof (rule ccontr)
      assume "\<not> length xs \<le> length ys"
      then have "m (a + of_nat (length ys)) = 0" using L cstr_end [OF assms(2)] by simp
      then show False
        using cstr_nth [OF assms(1), of "length ys"] \<open>\<not> length xs \<le> length ys\<close> by simp
    qed
    moreover have "xs ! k = ys ! k" if "k < length xs" for k
      using that L calculation cstr_nth [OF assms(1), of k] cstr_nth [OF assms(2), of k] by simp
    ultimately have "xs = take (length xs) ys" by (intro nth_equalityI) auto
    then show "prefix xs ys" by (metis take_is_prefix)
  next
    assume "prefix xs ys"
    then obtain zs where ys: "ys = xs @ zs" by (auto simp: prefix_def)
    show "\<forall>k < length xs. m (a + of_nat k) = m (b + of_nat k)"
    proof (intro allI impI)
      fix k assume "k < length xs"
      then show "m (a + of_nat k) = m (b + of_nat k)"
        using cstr_nth [OF assms(1), of k] cstr_nth [OF assms(2), of k] ys
        by (simp add: nth_append)
    qed
  qed
  then show ?thesis by (simp add: strncmp_0 n)
qed

lemma strcmp_is_prefix_test:
  assumes "cstr m a xs" "cstr m b ys"
  shows "\<exists>r. strcmp m a b = Some r \<and> (r = 0 \<longleftrightarrow> prefix xs ys)"
  using strncmp_prefix [OF assms] by (simp add: strcmp_def strlen_cstr [OF assms(1)])

lemma all_le_shift:
  fixes P :: "nat \<Rightarrow> bool"
  shows "(\<forall>k \<le> Suc n. P k) \<longleftrightarrow> P 0 \<and> (\<forall>k \<le> n. P (Suc k))"
  by (metis le_SucE less_eq_nat.simps(1) not0_implies_Suc Suc_le_mono le0)

lemma memcmp_0:
  "memcmp m a b n = 0 \<longleftrightarrow> (\<forall>k \<le> unat n. m (a + of_nat k) = m (b + of_nat k))"
proof (induction m a b n rule: memcmp.induct)
  case (1 m a b n)
  show ?case
  proof (cases "m a = m b \<and> n \<noteq> 0")
    case True
    then have n: "unat n = Suc (unat (n - 1))"
      by (simp add: unat_minus_one) (metis Suc_pred unat_gt_0)
    show ?thesis
      using "1" [OF True] True
      unfolding n all_le_shift memcmp.simps [of m a b n]
      by (simp add: algebra_simps)
  next
    case False
    then show ?thesis
      by (auto simp: memcmp.simps [of m a b n])
  qed
qed

section \<open>Reversal\<close>

lemma eq_add_int:
  assumes "0 \<le> i" "i < 2 ^ 32"
  shows "b = s + word_of_int i \<longleftrightarrow> int (off s b) = i"
proof -
  obtain k where i: "i = int k" using assms(1) nonneg_int_cases by blast
  with assms have "k < 2 ^ 32" by simp
  then have "off s (s + of_nat k) = k" by simp
  then show ?thesis unfolding i by (simp only: of_int_of_nat_eq of_nat_eq_iff) (metis off_eq_iff)
qed

lemma strrev_loop_at:
  assumes "0 \<le> i" "0 \<le> L" "L < 2 ^ 31"
  shows "strrev_loop m s L i b =
     (if i \<le> int (off s b) \<and> int (off s b) \<le> L - i then m (s + word_of_int (L - int (off s b)))
      else m b)"
  using assms
proof (induction m s L i rule: strrev_loop.induct)
  case (1 m s L i)
  let ?k = "int (off s b)"
  have half: "L sdiv 2 = L div 2"
    using "1.prems"(2) by (auto simp: signed_divide_int_def sgn_if)
  show ?case
  proof (cases "i \<le> L sdiv 2")
    case True
    then have i: "0 \<le> i" "i \<le> L div 2" using half "1.prems" by auto
    define m2 where "m2 = m(s + word_of_int i := m (s + word_of_int (L - i)),
       s + word_of_int (L - i) := m (s + word_of_int i))"
    have unf: "strrev_loop m s L i = strrev_loop m2 s L (i + 1)"
      using True by (subst strrev_loop.simps) (simp add: m2_def Let_def)
    have IH: "strrev_loop m2 s L (i + 1) b =
      (if i + 1 \<le> ?k \<and> ?k \<le> L - (i + 1) then m2 (s + word_of_int (L - ?k)) else m2 b)"
      unfolding m2_def
      by (rule "1.IH" [OF _ refl refl refl]) (use True "1.prems" in auto)
    define f where "f j = m (s + word_of_int j)" for j :: int
    have at: "m2 c = (if int (off s c) = L - i then f i
        else if int (off s c) = i then f (L - i) else m c)" for c
      using eq_add_int [of "L - i" c s] eq_add_int [of i c s] i "1.prems"
      by (simp add: m2_def f_def)
    have mid: "m2 (s + word_of_int (L - ?k)) = f (L - ?k)"
      if "i + 1 \<le> ?k" "?k \<le> L - (i + 1)"
      using that i "1.prems" at [of "s + word_of_int (L - ?k)"]
        eq_add_int [of "L - ?k" "s + word_of_int (L - ?k)" s] by (simp add: f_def)
    show ?thesis
      unfolding unf IH f_def [symmetric] using mid at [of b] i by auto
  next
    case False
    then have "strrev_loop m s L i b = m b" by (subst strrev_loop.simps) simp
    moreover have "\<not> (i \<le> ?k \<and> ?k \<le> L - i)" using False half by auto
    ultimately show ?thesis by auto
  qed
qed

lemma strrev_cstr:
  assumes c: "cstr m s xs" and ne: "xs \<noteq> []" and small: "length xs \<le> 2 ^ 31"
  shows "\<exists>m'. strrev m s = Some (m', s) \<and> cstr m' s (rev xs) \<and>
           (\<forall>b. length xs \<le> off s b \<longrightarrow> m' b = m b)"
proof -
  let ?L = "int (length xs) - 1"
  let ?m = "strrev_loop m s ?L 0"
  have "sint (of_nat (length xs) - 1 :: u32) = ?L"
  proof -
    have "(of_nat (length xs) - 1 :: u32) = word_of_int ?L" by simp
    moreover have "0 \<le> ?L" "?L < 2 ^ 31" using ne small by (auto simp: Suc_le_eq)
    ultimately show ?thesis
      by (simp only: signed_of_int) (simp add: signed_take_bit_int_eq_self)
  qed
  then have res: "strrev m s = Some (?m, s)"
    by (simp add: strrev_def strlen_cstr [OF c])
  have L: "0 \<le> ?L" "?L < 2 ^ 31" using ne small by (auto simp: Suc_le_eq)
  have at: "?m b = (if off s b < length xs then m (s + word_of_int (?L - int (off s b))) else m b)"
    for b
    using strrev_loop_at [of 0 ?L m s b] L by auto
  have "cstr ?m s (rev xs)"
  proof (rule cstrI)
    fix i assume "i < length (rev xs)"
    then have i: "i < length xs" by simp
    then have "off s (s + of_nat i) = i" using cstr_length [OF c] by (intro off_add_nat) simp
    moreover have "?L - int i = int (length xs - 1 - i)" using i by simp
    ultimately have "?m (s + of_nat i) = m (s + of_nat (length xs - 1 - i))"
      using at [of "s + of_nat i"] i by (simp only: of_int_of_nat_eq) simp
    also have "\<dots> = rev xs ! i"
      using cstr_nth [OF c, of "length xs - 1 - i"] i by (simp add: rev_nth)
    finally show "?m (s + of_nat i) = rev xs ! i" .
  next
    show "0 \<notin> set (rev xs)" using cstr_nonzero [OF c] by simp
    have "off s (s + of_nat (length xs)) = length xs"
      using cstr_length [OF c] by (intro off_add_nat)
    then show "?m (s + of_nat (length (rev xs))) = 0"
      using at [of "s + of_nat (length xs)"] cstr_end [OF c] by simp
  qed
  moreover have "\<forall>b. length xs \<le> off s b \<longrightarrow> ?m b = m b" using at by simp
  ultimately show ?thesis using res by blast
qed

section \<open>Searching and tokens\<close>

lemma ucast_scast_u8: "(ucast (scast (a :: u8) :: u32) :: u8) = a"
  by (rule bit_word_eqI) (auto simp: bit_simps)

lemma scast_u8_inject [simp]: "(scast (a :: u8) :: u32) = scast b \<longleftrightarrow> a = b"
  by (metis ucast_scast_u8)

text \<open>
  \<open>nowrap s n\<close>: the \<open>n + 1\<close> bytes at \<open>s\<close> do not reach the end of the address space, so no
  address in them is \<^verbatim>\<open>NULL\<close>.
\<close>

definition nowrap :: "u32 \<Rightarrow> nat \<Rightarrow> bool" where
  "nowrap s n \<longleftrightarrow> s \<noteq> 0 \<and> unat s + n < 2 ^ 32"

lemma nowrap_nonnull: "nowrap s n \<Longrightarrow> k \<le> n \<Longrightarrow> s + of_nat k \<noteq> 0"
proof -
  assume n: "nowrap s n" "k \<le> n"
  then have "unat (s + of_nat k) = unat s + k"
    by (simp add: nowrap_def unat_word_ariths)
  with n show ?thesis by (auto simp: nowrap_def unat_eq_0)
qed

lemma nowrap_shift: "nowrap s n \<Longrightarrow> k \<le> n \<Longrightarrow> nowrap (s + of_nat k) (n - k)"
  using nowrap_nonnull [of s n k] by (simp add: nowrap_def unat_word_ariths)

lemma strchr_cstr:
  assumes "cstr m s xs" "nowrap s (length xs)"
  shows "\<exists>p. strchr m s (scast c) = Some p \<and> (p = 0 \<longleftrightarrow> c \<notin> set xs)"
  using assms
proof (induction xs arbitrary: s)
  case Nil
  then show ?case by (subst strchr.simps) simp
next
  case (Cons x xs)
  have "nowrap (s + 1) (length xs)" using nowrap_shift [of s _ 1] Cons.prems(2) by fastforce
  with Cons obtain p where p: "strchr m (s + 1) (scast c) = Some p" "p = 0 \<longleftrightarrow> c \<notin> set xs"
    by auto
  have "s \<noteq> 0" using Cons.prems(2) by (simp add: nowrap_def)
  show ?case
  proof (cases "x = c")
    case True
    with Cons.prems \<open>s \<noteq> 0\<close> show ?thesis by (subst strchr.simps) auto
  next
    case False
    with Cons.prems p show ?thesis by (subst strchr.simps) auto
  qed
qed

lemma strspn_loop_cstr:
  assumes x: "cstr m s xs" and d: "cstr m t ds" "nowrap t (length ds)"
    and i: "i \<le> length xs"
  shows "strspn_loop m s t (of_nat i)
     = Some (of_nat (i + length (takeWhile (\<lambda>c. c \<in> set ds) (drop i xs))))"
  using i
proof (induction "length xs - i" arbitrary: i)
  case 0
  then have "i = length xs" by simp
  then show ?case
    by (subst strspn_loop.simps) (simp add: strlen_cstr [OF x])
next
  case (Suc k)
  then have i: "i < length xs" by simp
  then have lt: "(of_nat i :: u32) < of_nat (length xs)"
    using cstr_length [OF x] by (simp add: word_less_nat_alt)
  have c: "m (s + of_nat i) = xs ! i" using cstr_nth [OF x i] by simp
  obtain p where p: "strchr m t (scast (xs ! i)) = Some p" "p = 0 \<longleftrightarrow> xs ! i \<notin> set ds"
    using strchr_cstr [OF d] by blast
  have dr: "drop i xs = xs ! i # drop (Suc i) xs" using i by (rule Cons_nth_drop_Suc [symmetric])
  have IH: "strspn_loop m s t (1 + of_nat i) = Some (of_nat (Suc i +
      length (takeWhile (\<lambda>c. c \<in> set ds) (drop (Suc i) xs))))"
    using Suc.hyps(1) [of "Suc i"] Suc.hyps(2) i by simp
  show ?case
    by (subst strspn_loop.simps)
      (use lt c p IH in \<open>auto simp: strlen_cstr [OF x] dr add.commute\<close>)
qed

lemma strspn_cstr:
  assumes "cstr m s xs" "cstr m t ds" "nowrap t (length ds)"
  shows "strspn m s t = Some (of_nat (length (takeWhile (\<lambda>c. c \<in> set ds) xs)))"
  using strspn_loop_cstr [OF assms, of 0] by (simp add: strspn_def)

lemma strpbrk_in_cstr:
  assumes d: "cstr m t ds" and q: "q \<le> length ds"
  shows "strpbrk_in m s t (of_nat q) = Some (m s \<in> set (drop q ds))"
  using q
proof (induction "length ds - q" arbitrary: q)
  case 0
  then show ?case by (subst strpbrk_in.simps) (simp add: strlen_cstr [OF d])
next
  case (Suc k)
  then have q: "q < length ds" by simp
  then have lt: "(of_nat q :: u32) < of_nat (length ds)"
    using cstr_length [OF d] by (simp add: word_less_nat_alt)
  have IH: "strpbrk_in m s t (1 + of_nat q) = Some (m s \<in> set (drop (Suc q) ds))"
    using Suc.hyps(1) [of "Suc q"] Suc.hyps(2) q by simp
  have "drop q ds = ds ! q # drop (Suc q) ds" using q by (rule Cons_nth_drop_Suc [symmetric])
  then show ?case
    by (subst strpbrk_in.simps)
      (use lt IH cstr_nth [OF d q] in \<open>auto simp: strlen_cstr [OF d] add.commute\<close>)
qed

lemma strpbrk_cstr:
  assumes "cstr m s (x # xs)" "cstr m t ds"
  shows "strpbrk m s t = Some (if (\<exists>c \<in> set xs. c \<in> set ds)
     then s + 1 + of_nat (length (takeWhile (\<lambda>c. c \<notin> set ds) xs)) else 0)"
  using assms
proof (induction xs arbitrary: s x)
  case Nil
  have "0 \<notin> set ds" using cstr_nonzero [OF Nil.prems(2)] .
  with Nil have "strpbrk_in m (s + 1) t 0 = Some False"
    using strpbrk_in_cstr [OF Nil.prems(2), of 0 "s + 1"] by simp
  moreover have "strpbrk m (s + 1) t = Some 0"
    using Nil by (subst strpbrk.simps) simp
  ultimately show ?case using Nil by (subst strpbrk.simps) simp
next
  case (Cons y ys)
  have hit: "strpbrk_in m (s + 1) t 0 = Some (y \<in> set ds)"
    using strpbrk_in_cstr [OF Cons.prems(2), of 0 "s + 1"] Cons.prems(1) by simp
  have IH: "strpbrk m (s + 1) t = Some (if (\<exists>c \<in> set ys. c \<in> set ds)
     then s + 1 + 1 + of_nat (length (takeWhile (\<lambda>c. c \<notin> set ds) ys)) else 0)"
    using Cons.IH [of "s + 1" y] Cons.prems by simp
  show ?case
    by (subst strpbrk.simps) (use hit IH Cons.prems(1) in \<open>auto simp: add_ac\<close>)
qed

text \<open>One call of \<^verbatim>\<open>strtok\<close> on the string \<open>xs\<close> at \<open>p\<close>, given afresh or remembered from the last call.\<close>

lemma strtok_token:
  fixes m xs ds
  defines "isd c \<equiv> c \<in> set ds"
  defines "pre \<equiv> length (takeWhile isd xs)" and "rest \<equiv> dropWhile isd xs"
  defines "tok \<equiv> takeWhile (\<lambda>c. \<not> isd c) rest"
  assumes x: "cstr m p xs" "nowrap p (length xs)" and d: "cstr m t ds" "nowrap t (length ds)"
    and s: "s = p \<or> s = 0 \<and> ptr = p"
  shows "strtok m ptr s t =
     (if tok = rest then Some (m, 0, p + of_nat pre)
      else Some (m(p + of_nat (pre + length tok) := 0), p + of_nat (pre + length tok + 1),
             p + of_nat pre))"
proof -
  have "p \<noteq> 0" using x(2) by (simp add: nowrap_def)
  then have cur: "(if s \<noteq> 0 then s else ptr) = p" "\<not> (p = 0 \<and> s = 0)" using s by auto
  have isd: "isd = (\<lambda>c. c \<in> set ds)" by (simp add: isd_def fun_eq_iff)
  have xs: "xs = takeWhile isd xs @ rest" by (simp add: rest_def)
  have pre: "pre \<le> length xs" by (simp add: pre_def length_takeWhile_le)
  have dr: "drop pre xs = rest"
    unfolding pre_def rest_def by (rule dropWhile_eq_drop [symmetric])
  have at: "cstr m (p + of_nat pre) rest"
    using cstr_at [OF x(1) pre] dr by simp
  have spn: "strspn m p t = Some (of_nat pre)"
    using strspn_cstr [OF x(1) d] by (simp add: pre_def isd)
  show ?thesis
  proof (cases rest)
    case Nil
    then have "strpbrk m (p + of_nat pre) t = Some 0"
      using at by (subst strpbrk.simps) simp
    with cur spn Nil \<open>p \<noteq> 0\<close> show ?thesis by (simp add: strtok_def Let_def tok_def)
  next
    case (Cons y ys)
    have y: "\<not> isd y" using Cons unfolding rest_def by (metis dropWhile_eq_Cons_conv)
    have tok: "tok = y # takeWhile (\<lambda>c. \<not> isd c) ys" using y Cons by (simp add: tok_def)
    have all: "tok = rest \<longleftrightarrow> \<not> (\<exists>c \<in> set ys. c \<in> set ds)"
      unfolding tok Cons by (auto simp: isd_def takeWhile_eq_all_conv)
    have pb: "strpbrk m (p + of_nat pre) t =
        Some (if tok = rest then 0 else p + of_nat (pre + length tok))"
      using strpbrk_cstr [OF at [unfolded Cons] d(1)] all tok by (simp add: isd_def add_ac)
    have "pre + length tok \<le> length xs"
      using arg_cong [OF xs, of length] length_takeWhile_le [of "\<lambda>c. \<not> isd c" rest]
      by (simp add: pre_def tok_def)
    then have "p + of_nat (pre + length tok) \<noteq> 0" by (rule nowrap_nonnull [OF x(2)])
    then show ?thesis
      using cur spn pb \<open>p \<noteq> 0\<close> by (simp add: strtok_def Let_def add_ac)
  qed
qed

lemma cstr_cut:
  assumes "cstr m p xs" "i < length xs"
  shows "cstr (m(p + of_nat i := 0)) p (take i xs)"
    and "cstr (m(p + of_nat i := 0)) (p + of_nat (i + 1)) (drop (i + 1) xs)"
proof -
  note len = cstr_length [OF assms(1)]
  have neq: "p + of_nat k \<noteq> p + of_nat i" if "k \<le> length xs" "k \<noteq> i" for k
    using that assms(2) len by (metis le_trans less_imp_le_nat not_le off_add_nat)
  show "cstr (m(p + of_nat i := 0)) p (take i xs)"
  proof (rule cstrI)
    show "(m(p + of_nat i := 0)) (p + of_nat k) = take i xs ! k" if "k < length (take i xs)" for k
      using that neq [of k] cstr_nth [OF assms(1), of k] by simp
    show "0 \<notin> set (take i xs)" using cstr_nonzero [OF assms(1)] by (meson in_set_takeD)
  qed (use assms in simp)
  show "cstr (m(p + of_nat i := 0)) (p + of_nat (i + 1)) (drop (i + 1) xs)"
  proof (rule cstrI)
    fix k assume k: "k < length (drop (i + 1) xs)"
    have eq: "p + of_nat (i + 1) + of_nat k = p + of_nat (i + 1 + k)" by simp
    show "(m(p + of_nat i := 0)) (p + of_nat (i + 1) + of_nat k) = drop (i + 1) xs ! k"
      unfolding eq using k neq [of "i + 1 + k"] cstr_nth [OF assms(1), of "i + 1 + k"]
      by (simp del: of_nat_add of_nat_Suc)
  next
    show "0 \<notin> set (drop (i + 1) xs)" using cstr_nonzero [OF assms(1)] by (meson in_set_dropD)
    have "p + of_nat (i + 1) + of_nat (length (drop (i + 1) xs)) = p + of_nat (length xs)"
      using assms(2) by (simp add: of_nat_diff)
    then show "(m(p + of_nat i := 0)) (p + of_nat (i + 1) + of_nat (length (drop (i + 1) xs))) = 0"
      using neq [of "length xs"] cstr_end [OF assms(1)] assms(2) by simp
  qed
qed

section \<open>Properties\<close>

text \<open>Two strings in one memory, \<^verbatim>\<open>"ab"\<close> at 100 and \<^verbatim>\<open>"cd"\<close> at 200, for the concrete instances.\<close>

definition str0 :: mem where
  "str0 = (\<lambda>_. 0)(100 := 97, 101 := 98, 200 := 99, 201 := 100)"

text \<open>
  C15. \<^verbatim>\<open>strcat\<close> returns its destination, which then holds the concatenation of the two
  strings, terminated; no byte outside the result changes.
\<close>

theorem strcat_correct:
  assumes "cstr m d xs" "cstr m s ys" "length xs + length ys < 2 ^ 32"
    and "region d (length xs + length ys + 1) \<inter> region s (length ys + 1) = {}"
  shows "\<exists>m'. strcat m d s = Some (m', d) \<and> cstr m' d (xs @ ys) \<and>
    (\<forall>b. length xs + length ys + 1 \<le> off d b \<longrightarrow> m' b = m b)"
  using assms by (intro strcat_append)

theorem strcat_correct_witness:
  "\<exists>m'. strcat str0 100 200 = Some (m', 100) \<and> cstr m' 100 [97, 98, 99, 100]"
proof -
  have "region 100 5 \<inter> region 200 3 = {}"
    using off_apart(2) [of 100 5 200 3] by (auto simp: disjoint_iff not_less)
  then show ?thesis
    using strcat_correct [of str0 100 "[97, 98]" 200 "[99, 100]"]
    by (auto simp: str0_def simp flip: numeral_2_eq_2)
qed

text \<open>
  C16. \<^verbatim>\<open>strcmp\<close> always returns on terminated strings, and returns 0 exactly when the first
  string is a prefix of the second: it compares only as many bytes as the first one has.
\<close>

theorem strcmp_correct:
  assumes "cstr m a xs" "cstr m b ys"
  shows "\<exists>r. strcmp m a b = Some r \<and> (r = 0 \<longleftrightarrow> prefix xs ys)"
  using assms by (rule strcmp_is_prefix_test)

theorem strcmp_correct_witness:
  "strcmp (str0(202 := 101)) 200 200 = Some 0 \<and> (\<exists>r. strcmp str0 100 200 = Some r \<and> r \<noteq> 0)"
  using strcmp_correct [of "str0(202 := 101)" 200 "[99, 100, 101]" 200 "[99, 100, 101]"]
    strcmp_correct [of str0 100 "[97, 98]" 200 "[99, 100]"] by (auto simp: str0_def)

text \<open>
  \<^verbatim>\<open>strrev\<close> of a non-empty string reverses it in place and touches no other byte.
\<close>

lemma strrev_correct:
  assumes "cstr m s xs" "xs \<noteq> []" "length xs \<le> 2 ^ 31"
  shows "\<exists>m'. strrev m s = Some (m', s) \<and> cstr m' s (rev xs) \<and>
    (\<forall>b. length xs \<le> off s b \<longrightarrow> m' b = m b)"
  using assms by (rule strrev_cstr)

text \<open>
  C17. \<^verbatim>\<open>strcpy\<close> of a string shorter than 64 KB is exactly a \<^verbatim>\<open>memcpy\<close> of its bytes without the
  terminator: nothing after them is written.
\<close>

theorem strcpy_correct:
  assumes "cstr m src xs" "length xs < 2 ^ 16" "region dest (length xs) \<inter> region src (length xs) = {}"
  shows "strcpy m dest src = Some (memcpy m dest src (of_nat (length xs)))"
  using assms by (rule strcpy_is_memcpy)

theorem strcpy_correct_witness: "strcpy str0 100 200 = Some (memcpy str0 100 200 2)"
proof -
  have "region 100 2 \<inter> region 200 2 = {}"
    using off_apart(2) [of 100 2 200 2] by (auto simp: disjoint_iff not_less)
  then show ?thesis
    using strcpy_correct [of str0 200 "[99, 100]" 100]
    by (simp add: str0_def flip: numeral_2_eq_2)
qed

text \<open>
  C12. \<^verbatim>\<open>strtok\<close>, called with a string or with \<^verbatim>\<open>NULL\<close> to go on, skips the leading delimiters and
  returns the token after them: at its end it writes a terminator and remembers the byte after
  it, or 0 when the token runs to the end of the string.
\<close>

theorem strtok_correct:
  assumes "cstr m p xs" "nowrap p (length xs)" "cstr m t ds" "nowrap t (length ds)"
    and "s = p \<or> s = 0 \<and> ptr = p"
    and "rest = dropWhile (\<lambda>c. c \<in> set ds) xs" "pre = length xs - length rest"
    and "tok = takeWhile (\<lambda>c. c \<notin> set ds) rest"
  shows "strtok m ptr s t =
     (if tok = rest then Some (m, 0, p + of_nat pre)
      else Some (m(p + of_nat (pre + length tok) := 0), p + of_nat (pre + length tok + 1),
             p + of_nat pre))"
proof -
  have "length xs = length (takeWhile (\<lambda>c. c \<in> set ds) xs) + length rest"
    unfolding assms(6) by (metis length_append takeWhile_dropWhile_id)
  then have pre: "pre = length (takeWhile (\<lambda>c. c \<in> set ds) xs)" using assms(7) by simp
  show ?thesis unfolding pre assms(8,6) by (rule strtok_token [OF assms(1-5)])
qed

theorem strtok_correct_witness:
  "strtok (str0(202 := 101)) 0 200 100 = Some (str0(202 := 101), 0, 200) \<and>
   strtok str0 200 0 201 = Some (str0(201 := 0), 202, 200)"
proof -
  have "strtok (str0(202 := 101)) 0 200 100 = Some (str0(202 := 101), 0, 200)"
    using strtok_correct [of "str0(202 := 101)" 200 "[99, 100, 101]" 100 "[97, 98]" 200 0 "[99, 100, 101]" 0
        "[99, 100, 101]"] by (simp add: str0_def nowrap_def)
  moreover have "strtok str0 200 0 201 = Some (str0(201 := 0), 202, 200)"
    using strtok_correct [of str0 200 "[99, 100]" 201 "[100]" 0 200 "[99, 100]" 0 "[99]"]
    by (simp add: str0_def nowrap_def)
  ultimately show ?thesis ..
qed

end
