(* ===== verification/Mm.thy ===== *)
theory Mm
  imports Kstring
begin

text \<open>
  The physical memory manager, \<^verbatim>\<open>kernel/mem/mm.c\<close>: the one-way early heap \<^verbatim>\<open>mm_alloc\<close>, the 1024-bit
  bitmaps with their set, unset and first-free operations, and the page allocator over a
  directory bitmap (4 MB per bit) and a table bitmap (4 KB per bit).  The locale \<open>bitmap\<close> is
  what the page allocator relies on.  The abstraction \<open>used_pages\<close> is the set of page numbers
  the two bitmaps call taken.
\<close>

section \<open>State and operations\<close>

record mm_state = machine +
  MM_CURRENT_PD :: u32
  MM_CURRENT_PT :: u32
  MM_HEAP :: u32

definition ERR_NO_MEM :: u32 where
  "ERR_NO_MEM = - 1"

definition MM_HEAP_MAX :: u32 where
  "MM_HEAP_MAX = 0xC0300000"

text \<open>\<^verbatim>\<open>MM_HEAP\<close> is a \<^verbatim>\<open>uint32_t*\<close>: adding \<open>n\<close> to it moves it by \<open>4 * n\<close> bytes.\<close>

definition mm_alloc :: "u32 \<Rightarrow> 'a mm_state_scheme \<Rightarrow> u32 \<times> 'a mm_state_scheme" where
  "mm_alloc n s =
     (if MM_HEAP s = 0 then (0, s)
      else if MM_HEAP s + 4 * n < MM_HEAP_MAX
      then let addr = MM_HEAP s in
        if 0x1000 \<le> n then (addr, s\<lparr>MM_HEAP := MM_HEAP s + 4 * (n AND NOT 0xFFF)\<rparr>)
        else (addr, s\<lparr>MM_HEAP := MM_HEAP s + 4 * 0x1000\<rparr>)
      else (0, s))"

definition mm_bitmap_set_bit :: "mem \<Rightarrow> u32 \<Rightarrow> u32 \<Rightarrow> mem" where
  "mm_bitmap_set_bit m b k =
     (let a = b + 4 * (k div 32)
      in store32 m a (load32 m a OR push_bit (unat (k mod 32)) 1))"

definition mm_bitmap_unset_bit :: "mem \<Rightarrow> u32 \<Rightarrow> u32 \<Rightarrow> mem" where
  "mm_bitmap_unset_bit m b k =
     (let a = b + 4 * (k div 32)
      in store32 m a (load32 m a AND NOT (push_bit (unat (k mod 32)) 1)))"

function mm_first_free_bit :: "u32 \<Rightarrow> nat \<Rightarrow> nat option" where
  "mm_first_free_bit free_bits i =
     (if i < 32
      then if free_bits AND push_bit i 1 \<noteq> 0 then Some i
           else mm_first_free_bit free_bits (i + 1)
      else None)"
  by pat_completeness auto
termination
  by (relation "measure (\<lambda>(free_bits, i). 32 - i)") auto

function mm_first_free_loop :: "mem \<Rightarrow> u32 \<Rightarrow> nat \<Rightarrow> u32" where
  "mm_first_free_loop m b q =
     (if q < 32
      then let free_bits = load32 m (b + 4 * of_nat q) XOR NOT 0 in
        (case mm_first_free_bit free_bits 0 of
           Some i \<Rightarrow> of_nat (i + q * 32)
         | None \<Rightarrow> mm_first_free_loop m b (q + 1))
      else ERR_NO_MEM)"
  by pat_completeness auto
termination
  by (relation "measure (\<lambda>(m, b, q). 32 - q)") auto

definition mm_first_free :: "mem \<Rightarrow> u32 \<Rightarrow> u32" where
  "mm_first_free m b = mm_first_free_loop m b 0"

definition mm_bitmap_init :: "'a mm_state_scheme \<Rightarrow> u32 \<times> 'a mm_state_scheme" where
  "mm_bitmap_init s =
     (let bitmap_size = 4 * 32;
          (b, s) = mm_alloc bitmap_size s
      in (b, s\<lparr>mem := fst (memset (mem s) b 0 bitmap_size)\<rparr>))"

definition mm_page_free ::
  "u32 \<Rightarrow> u32 \<Rightarrow> u32 \<Rightarrow> 'a mm_state_scheme \<Rightarrow> u32 \<times> 'a mm_state_scheme" where
  "mm_page_free PD PT address s =
     (let aligned = address AND NOT 0x3FF;
          pt_index = drop_bit 12 aligned AND 0x3FF
      in (address, s\<lparr>mem := mm_bitmap_unset_bit (mem s) PT pt_index\<rparr>))"

text \<open>
  The branch that swaps the table bitmap calls the function again but has no \<^verbatim>\<open>return\<close>: the
  caller sees an indeterminate value there.
\<close>

partial_function (option) mm_page_alloc ::
  "u32 \<Rightarrow> u32 \<Rightarrow> 'a mm_state_scheme \<Rightarrow> (u32 \<times> 'a mm_state_scheme) option" where
  "mm_page_alloc PD PT s =
     (let ff_PD = mm_first_free (mem s) PD; ff_PT = mm_first_free (mem s) PT in
      if ff_PD \<noteq> ERR_NO_MEM \<and> ff_PT \<noteq> ERR_NO_MEM
      then let address = ff_PD * 0x1000 * 0x400 + ff_PT * 0x1000
           in Some (address, s\<lparr>mem := mm_bitmap_set_bit (mem s) PT ff_PT\<rparr>)
      else if ff_PD \<noteq> ERR_NO_MEM \<and> ff_PT = ERR_NO_MEM
      then let (PT, s) = mm_bitmap_init s;
               s = s\<lparr>MM_CURRENT_PT := PT\<rparr>;
               s = s\<lparr>mem := mm_bitmap_set_bit (mem s) PD ff_PD\<rparr>
           in do { (_, s) \<leftarrow> mm_page_alloc PD PT s; Some (indet s, s) }
      else Some (ERR_NO_MEM, s))"

definition k_page_alloc :: "'a mm_state_scheme \<Rightarrow> (u32 \<times> 'a mm_state_scheme) option" where
  "k_page_alloc s = mm_page_alloc (MM_CURRENT_PD s) (MM_CURRENT_PT s) s"

definition k_page_free :: "u32 \<Rightarrow> 'a mm_state_scheme \<Rightarrow> u32 \<times> 'a mm_state_scheme" where
  "k_page_free addr s = mm_page_free (MM_CURRENT_PD s) (MM_CURRENT_PT s) addr s"

definition k_mm_init :: "u32 \<Rightarrow> 'a mm_state_scheme \<Rightarrow> (u32 \<times> 'a mm_state_scheme) option" where
  "k_mm_init heap s =
     (let heap = (heap + 0x1000) AND NOT 0xFFF;
          s = s\<lparr>MM_HEAP := heap\<rparr>;
          (b, s) = mm_bitmap_init s; s = s\<lparr>MM_CURRENT_PD := b\<rparr>;
          (b, s) = mm_bitmap_init s; s = s\<lparr>MM_CURRENT_PT := b\<rparr>;
          s = s\<lparr>mem := mm_bitmap_set_bit (mem s) (MM_CURRENT_PD s) 0\<rparr>
      in mm_page_alloc (MM_CURRENT_PD s) (MM_CURRENT_PT s) s)"

declare mm_first_free_bit.simps [simp del] mm_first_free_loop.simps [simp del]

section \<open>Bitmaps\<close>

text \<open>The bits of a bitmap that are set, by their number.\<close>

definition bm :: "mem \<Rightarrow> u32 \<Rightarrow> nat set" where
  "bm m b = {i. i < 1024 \<and> bit (load32 m (b + of_nat (4 * (i div 32)))) (i mod 32)}"

text \<open>
  The contract of a bitmap of \<open>cap\<close> bits in memory: what set and unset do to the set of bits,
  that they touch no byte outside the bitmap, and what the first-free scan returns.
\<close>

locale bitmap =
  fixes bits :: "mem \<Rightarrow> u32 \<Rightarrow> nat set"
    and setb unsetb :: "mem \<Rightarrow> u32 \<Rightarrow> u32 \<Rightarrow> mem"
    and first_free :: "mem \<Rightarrow> u32 \<Rightarrow> u32"
    and cap :: nat
  assumes bits_cap: "bits m b \<subseteq> {..<cap}"
    and cap_small: "cap < 2 ^ 32"
    and set_bits: "unat k < cap \<Longrightarrow> bits (setb m b k) b = insert (unat k) (bits m b)"
    and unset_bits: "unat k < cap \<Longrightarrow> bits (unsetb m b k) b = bits m b - {unat k}"
    and set_frame: "unat k < cap \<Longrightarrow> cap div 8 \<le> off b c \<Longrightarrow> setb m b k c = m c"
    and unset_frame: "unat k < cap \<Longrightarrow> cap div 8 \<le> off b c \<Longrightarrow> unsetb m b k c = m c"
    and bits_cong: "(\<And>c. off b c < cap div 8 \<Longrightarrow> m c = m' c) \<Longrightarrow> bits m b = bits m' b"
    and first_free_full: "bits m b = {..<cap} \<Longrightarrow> first_free m b = - 1"
    and first_free_least: "bits m b \<noteq> {..<cap} \<Longrightarrow>
      unat (first_free m b) < cap \<and> unat (first_free m b) \<notin> bits m b \<and>
      (\<forall>i < unat (first_free m b). i \<in> bits m b)"
begin

lemma first_free_none_iff: "first_free m b = - 1 \<longleftrightarrow> bits m b = {..<cap}"
proof
  assume "first_free m b = - 1"
  then show "bits m b = {..<cap}" using first_free_least [of m b] cap_small by force
qed (rule first_free_full)

lemma alloc_bit:
  assumes "first_free m b \<noteq> - 1"
  shows "unat (first_free m b) \<notin> bits m b"
    and "bits (setb m b (first_free m b)) b = insert (unat (first_free m b)) (bits m b)"
  using assms first_free_least [of m b] first_free_full [of m b] set_bits [of "first_free m b" m b]
  by blast+

lemma bits_outside:
  assumes "\<And>c. off b c < cap div 8 \<Longrightarrow> cap div 8 \<le> off a c" "unat k < cap"
  shows "bits (setb m a k) b = bits m b" "bits (unsetb m a k) b = bits m b"
  using assms by (auto intro!: bits_cong set_frame unset_frame)

text \<open>Taking the first free bit \<open>n\<close> times hands out each bit at most once.\<close>

fun take_bits :: "nat \<Rightarrow> mem \<Rightarrow> u32 \<Rightarrow> u32 list" where
  "take_bits 0 m b = []"
| "take_bits (Suc n) m b =
     (let k = first_free m b in if k = - 1 then [] else k # take_bits n (setb m b k) b)"

lemma take_bits_fresh: "k \<in> set (take_bits n m b) \<Longrightarrow> unat k \<notin> bits m b"
proof (induction n arbitrary: m)
  case (Suc n)
  then show ?case
    using alloc_bit [of m b] by (auto simp: Let_def split: if_splits)
qed simp

lemma take_bits_distinct: "distinct (take_bits n m b)"
proof (induction n arbitrary: m)
  case (Suc n)
  have "first_free m b \<notin> set (take_bits n (setb m b (first_free m b)) b)"
    if "first_free m b \<noteq> - 1"
    using take_bits_fresh [of "first_free m b" n "setb m b (first_free m b)" b] alloc_bit(2) [OF that]
    by auto
  with Suc show ?case by (simp add: Let_def)
qed simp

end

lemma mm_first_free_bit_spec:
  "case mm_first_free_bit f i of
     Some j \<Rightarrow> i \<le> j \<and> j < 32 \<and> bit f j \<and> (\<forall>k \<in> {i..<j}. \<not> bit f k)
   | None \<Rightarrow> \<forall>k \<in> {i..<32}. \<not> bit f k"
proof (induction f i rule: mm_first_free_bit.induct)
  case (1 f i)
  have ge: "i \<le> k \<longleftrightarrow> k = i \<or> i + 1 \<le> k" for k by auto
  show ?case
  proof (cases "i < 32 \<and> \<not> bit f i")
    case True
    then have "mm_first_free_bit f i = mm_first_free_bit f (i + 1)"
      by (subst mm_first_free_bit.simps) (simp add: and_exp_eq_0_iff_not_bit)
    moreover have "case mm_first_free_bit f (i + 1) of
        Some j \<Rightarrow> i + 1 \<le> j \<and> j < 32 \<and> bit f j \<and> (\<forall>k \<in> {i + 1..<j}. \<not> bit f k)
      | None \<Rightarrow> \<forall>k \<in> {i + 1..<32}. \<not> bit f k"
      using 1 True by (simp add: and_exp_eq_0_iff_not_bit)
    ultimately show ?thesis using True by (auto split: option.splits simp: ge)
  next
    case False
    then show ?thesis by (subst mm_first_free_bit.simps) (auto simp: and_exp_eq_0_iff_not_bit)
  qed
qed

lemma bm_word:
  "q < 32 \<Longrightarrow> i < 32 \<Longrightarrow> i + q * 32 \<in> bm m b \<longleftrightarrow> bit (load32 m (b + 4 * of_nat q)) i"
  by (simp add: bm_def)

lemma mm_first_free_loop_spec:
  assumes "\<forall>i < q * 32. i \<in> bm m b" "q \<le> 32"
  shows "if bm m b = {..<1024} then mm_first_free_loop m b q = - 1
    else unat (mm_first_free_loop m b q) < 1024 \<and> unat (mm_first_free_loop m b q) \<notin> bm m b \<and>
      (\<forall>i < unat (mm_first_free_loop m b q). i \<in> bm m b)"
  using assms
proof (induction m b q rule: mm_first_free_loop.induct)
  case (1 m b q)
  define f where "f = load32 m (b + 4 * of_nat q) XOR NOT 0"
  have f: "q < 32 \<Longrightarrow> i < 32 \<Longrightarrow> bit f i \<longleftrightarrow> i + q * 32 \<notin> bm m b" for i
    by (simp add: f_def bm_word bit_simps)
  note unfold = mm_first_free_loop.simps [of m b q, folded f_def, unfolded Let_def]
  consider (over) "q = 32" | (found) j where "q < 32" "mm_first_free_bit f 0 = Some j"
    | (none) "q < 32" "mm_first_free_bit f 0 = None"
    using "1.prems" by fastforce
  then show ?case
  proof cases
    case over
    then have "bm m b = {..<1024}" using "1.prems" by (auto simp: bm_def)
    then show ?thesis using over unfold by (simp add: ERR_NO_MEM_def)
  next
    case found
    then have j: "j < 32" "bit f j" "\<forall>k < j. \<not> bit f k"
      using mm_first_free_bit_spec [of 0 f] by auto
    have val: "mm_first_free_loop m b q = of_nat (j + q * 32)"
      using found by (simp add: unfold)
    have u: "unat (of_nat (j + q * 32) :: u32) = j + q * 32"
      using j found by (subst unat_of_nat32) auto
    have notin: "j + q * 32 \<notin> bm m b" using f j found by simp
    have "i \<in> bm m b" if "i < j + q * 32" for i
    proof (cases "i < q * 32")
      case False
      then obtain k where "i = k + q * 32" using that by (metis add.commute le_Suc_ex not_le)
      then show ?thesis using f j found that by auto
    qed (use "1.prems" in auto)
    then show ?thesis using notin j found by (auto simp only: val u) auto
  next
    case none
    have all: "i \<in> bm m b" if "i < (q + 1) * 32" for i
    proof (cases "i < q * 32")
      case False
      then have "i = (i - q * 32) + q * 32" "i - q * 32 < 32" using that by auto
      then obtain k where "i = k + q * 32" "k < 32" by blast
      then show ?thesis using f none mm_first_free_bit_spec [of 0 f] by auto
    qed (use "1.prems" in auto)
    have eq: "mm_first_free_loop m b q = mm_first_free_loop m b (q + 1)"
      using none by (simp add: unfold)
    show ?thesis
      unfolding eq by (rule "1.IH" [OF none(1) f_def none(2)]) (use all none in auto)
  qed
qed

text \<open>Where a bit is: word \<open>i div 32\<close> of the bitmap, an index of the array of 32-bit cells.\<close>

lemma bit_addr: "b + 4 * (k div 32) = c32.idx b (unat k div 32)"
proof -
  have "k div 32 = of_nat (unat k div 32)"
    by (simp add: word_arith_nat_div)
  then show ?thesis by (simp add: c32.idx_def)
qed

lemma bm_idx: "bm m b = {i. i < 1024 \<and> bit (load32 m (c32.idx b (i div 32))) (i mod 32)}"
  by (simp add: bm_def c32.idx_def)

lemma div_mod_eq_iff: "i = j \<longleftrightarrow> i div n = j div n \<and> i mod n = j mod (n::nat)"
  by (metis div_mod_decomp)

lemma bm_store:
  assumes "unat k < 1024"
  shows "bm (store32 m (c32.idx b (unat k div 32)) v) b =
    {i. i < 1024 \<and> bit (if i div 32 = unat k div 32 then v else load32 m (c32.idx b (i div 32))) (i mod 32)}"
  unfolding bm_idx using assms
  by (auto simp: c32.ld_st_idx [where n = 32] split: if_splits)

lemma bm_set:
  assumes "unat k < 1024"
  shows "bm (mm_bitmap_set_bit m b k) b = insert (unat k) (bm m b)"
proof -
  have lt: "i div 32 = unat k div 32 \<Longrightarrow> i < 1024" for i
    using assms less_mult_imp_div_less [of "unat k" 32 32] div_less_iff_less_mult [of 32 i 32] by simp
  have "i \<in> bm (mm_bitmap_set_bit m b k) b \<longleftrightarrow> i = unat k \<or> i \<in> bm m b" for i
    unfolding div_mod_eq_iff [of i "unat k" 32] using assms
    by (simp add: mm_bitmap_set_bit_def Let_def bit_addr bm_store unat_mod)
      (auto simp: bm_idx bit_simps intro: lt)
  then show ?thesis by auto
qed

lemma bm_unset:
  assumes "unat k < 1024"
  shows "bm (mm_bitmap_unset_bit m b k) b = bm m b - {unat k}"
proof -
  have "i \<in> bm (mm_bitmap_unset_bit m b k) b \<longleftrightarrow> i \<noteq> unat k \<and> i \<in> bm m b" for i
    unfolding div_mod_eq_iff [of i "unat k" 32] using assms
    by (simp add: mm_bitmap_unset_bit_def Let_def bit_addr bm_store unat_mod)
      (auto simp: bm_idx bit_simps)
  then show ?thesis by auto
qed

lemma bm_cong: "(\<And>c. off b c < 128 \<Longrightarrow> m c = m' c) \<Longrightarrow> bm m b = bm m' b"
  unfolding bm_idx using c32.arr_cong [where n = 32 and m = m and m' = m' and b = b] by auto

lemma bm_frame:
  assumes "unat k < 1024" "128 \<le> off b c"
  shows "mm_bitmap_set_bit m b k c = m c" "mm_bitmap_unset_bit m b k c = m c"
  using assms
  by (auto simp: mm_bitmap_set_bit_def mm_bitmap_unset_bit_def Let_def bit_addr
      intro!: c32.st_idx_frame [where n = 32])

interpretation bp: bitmap bm mm_bitmap_set_bit mm_bitmap_unset_bit mm_first_free 1024
proof unfold_locales
  fix m b
  note loop = mm_first_free_loop_spec [of 0 m b, folded mm_first_free_def]
  show "bm m b = {..<1024} \<Longrightarrow> mm_first_free m b = - 1" using loop by simp
  show "bm m b \<noteq> {..<1024} \<Longrightarrow> unat (mm_first_free m b) < 1024 \<and>
      unat (mm_first_free m b) \<notin> bm m b \<and> (\<forall>i < unat (mm_first_free m b). i \<in> bm m b)"
    using loop by simp
  show "bm m b \<subseteq> {..<1024}" by (auto simp: bm_def)
next
  fix m m' :: mem and b
  assume "\<And>c. off b c < 1024 div 8 \<Longrightarrow> m c = m' c"
  then show "bm m b = bm m' b" by (intro bm_cong) simp
qed (simp_all only: bm_set bm_unset, simp_all add: bm_frame)

section \<open>The early heap\<close>

lemma unat_word_add: "unat (a + b :: u32) = (unat a + unat b) mod 2 ^ 32"
  by (simp add: unat_word_ariths)

text \<open>
  \<open>mm_inv\<close>: the two bitmaps are 128 bytes each, disjoint and below the heap pointer, which has
  not left its range by more than one step.  A table bitmap at address 0 is what a failed
  \<^verbatim>\<open>mm_bitmap_init\<close> leaves.
\<close>

definition mm_inv :: "'a mm_state_scheme \<Rightarrow> bool" where
  "mm_inv s \<longleftrightarrow>
     128 \<le> unat (MM_CURRENT_PD s) \<and>
     unat (MM_CURRENT_PD s) + 128 \<le> unat (MM_HEAP s) \<and>
     unat (MM_CURRENT_PT s) + 128 \<le> unat (MM_HEAP s) \<and>
     (unat (MM_CURRENT_PD s) + 128 \<le> unat (MM_CURRENT_PT s) \<or>
      unat (MM_CURRENT_PT s) + 128 \<le> unat (MM_CURRENT_PD s)) \<and>
     unat (MM_HEAP s) < 0xC0304000"

lemma mm_alloc_cases:
  assumes "MM_HEAP s \<noteq> 0" "unat (MM_HEAP s) + 4 * unat n < 2 ^ 32" "unat (MM_HEAP s) < 0xC0304000"
  obtains (full) "mm_alloc n s = (0, s)" "0xC0300000 \<le> unat (MM_HEAP s) + 4 * unat n"
  | (ok) h where "mm_alloc n s = (MM_HEAP s, s\<lparr>MM_HEAP := h\<rparr>)"
    "unat (MM_HEAP s) + 4 * unat n < 0xC0300000"
    "unat h = unat (MM_HEAP s) + (if 0x1000 \<le> unat n then 4 * (unat n div 0x1000 * 0x1000) else 0x4000)"
proof -
  have mask: "(0xFFF :: u32) = mask 12" by (simp add: mask_eq_exp_minus_1)
  have m: "unat (n AND NOT 0xFFF) = unat n div 0x1000 * 0x1000"
    by (simp add: mask unat_and_not_mask)
  have c: "unat (MM_HEAP s + 4 * n) = unat (MM_HEAP s) + 4 * unat n"
    using assms(2) by (simp add: unat_word_ariths)
  have c2: "unat (MM_HEAP s + 4 * (n AND NOT 0xFFF)) = unat (MM_HEAP s) + 4 * (unat n div 0x1000 * 0x1000)"
    using assms(2) m by (simp add: unat_word_ariths)
  have c3: "unat (MM_HEAP s + 4 * 0x1000) = unat (MM_HEAP s) + 0x4000"
    using assms(3) by (simp add: unat_word_ariths)
  show ?thesis
  proof (cases "MM_HEAP s + 4 * n < MM_HEAP_MAX")
    case True
    then have "unat (MM_HEAP s) + 4 * unat n < 0xC0300000"
      using c by (simp add: word_less_nat_alt MM_HEAP_MAX_def)
    with True assms(1) c2 c3 show ?thesis
      by (intro ok [of "MM_HEAP s + 4 * (if 0x1000 \<le> n then n AND NOT 0xFFF else 0x1000)"])
        (auto simp: mm_alloc_def Let_def word_le_nat_alt)
  next
    case False
    then have "0xC0300000 \<le> unat (MM_HEAP s) + 4 * unat n"
      using c by (simp add: word_less_nat_alt MM_HEAP_MAX_def)
    with False assms(1) show ?thesis by (intro full) (auto simp: mm_alloc_def)
  qed
qed

section \<open>The pages the bitmaps call taken\<close>

text \<open>
  \<open>pages D T\<close>: with the directories \<open>D\<close> full and \<open>T\<close> the pages taken in the current directory,
  the first one not full, page \<open>p\<close> covers addresses \<open>4096 * p\<close> to \<open>4096 * p + 4095\<close>.
\<close>

definition cur_dir :: "nat set \<Rightarrow> nat" where
  "cur_dir D = (LEAST d. d \<notin> D)"

definition pages :: "nat set \<Rightarrow> nat set \<Rightarrow> nat set" where
  "pages D T = {p. p < 2 ^ 20 \<and> (p div 1024 \<in> D \<or> p div 1024 = cur_dir D \<and> p mod 1024 \<in> T)}"

lemma cur_dir_eqI: "d \<notin> D \<Longrightarrow> (\<And>i. i < d \<Longrightarrow> i \<in> D) \<Longrightarrow> cur_dir D = d"
  unfolding cur_dir_def by (rule Least_equality) (auto simp: not_le [symmetric])

lemma cur_dir_notin: "D \<subseteq> {..<1024} \<Longrightarrow> cur_dir D \<notin> D"
  unfolding cur_dir_def by (rule LeastI [of _ 1024]) auto

lemma below_cur_dir: "d < cur_dir D \<Longrightarrow> d \<in> D"
  unfolding cur_dir_def using not_less_Least by blast

lemma cur_dir_less: "D \<subseteq> {..<1024} \<Longrightarrow> D \<noteq> {..<1024} \<Longrightarrow> cur_dir D < 1024"
  using below_cur_dir [of _ D] by (metis lessThan_iff linorder_not_le order_less_le_trans subset_antisym subsetI)

lemma pages_insert:
  assumes "D \<subseteq> {..<1024}" "D \<noteq> {..<1024}" "t < 1024"
  shows "pages D (insert t T) = insert (1024 * cur_dir D + t) (pages D T)"
proof -
  have "p = 1024 * cur_dir D + t \<longleftrightarrow> p div 1024 = cur_dir D \<and> p mod 1024 = t" for p
    using assms(3) by (rule div_mod_unique)
  moreover have "1024 * cur_dir D + t < 2 ^ 20"
    using cur_dir_less [OF assms(1,2)] assms(3) by simp
  ultimately show ?thesis by (auto simp: pages_def)
qed

lemma pages_fresh:
  assumes "D \<subseteq> {..<1024}" "t \<notin> T" "t < 1024"
  shows "1024 * cur_dir D + t \<notin> pages D T"
  using assms cur_dir_notin [OF assms(1)] by (simp add: pages_def)

lemma pages_least:
  assumes "D \<subseteq> {..<1024}" "D \<noteq> {..<1024}" "t \<notin> T" "t < 1024" "\<And>i. i < t \<Longrightarrow> i \<in> T"
  shows "(LEAST p. p \<notin> pages D T) = 1024 * cur_dir D + t"
proof (rule Least_equality)
  show "1024 * cur_dir D + t \<notin> pages D T" using assms by (intro pages_fresh)
  fix p assume p: "p \<notin> pages D T"
  show "1024 * cur_dir D + t \<le> p"
  proof (rule ccontr)
    assume "\<not> ?thesis"
    then have lt: "p < 1024 * cur_dir D + t" by simp
    then have "p div 1024 \<le> cur_dir D" using assms(4) by simp
    moreover have "p < 2 ^ 20" using lt cur_dir_less [OF assms(1,2)] assms(4) by simp
    moreover have "p mod 1024 < t" if "p div 1024 = cur_dir D"
      using lt that div_mod_decomp [of p 1024] by simp
    ultimately show False
      using p assms(5) below_cur_dir [of "p div 1024" D] by (auto simp: pages_def)
  qed
qed

lemma pages_swap:
  assumes "D \<subseteq> {..<1024}"
  shows "pages (insert (cur_dir D) D) {} = pages D {..<1024}"
  using assms by (auto simp: pages_def)

lemma empty_not_full [simp]: "{} \<noteq> {..<numeral k :: nat}"
  by (metis empty_iff lessThan_iff zero_less_numeral)

lemma pages_full: "pages {..<1024} T = {..<2 ^ 20}"
  by (auto simp: pages_def less_mult_imp_div_less)

definition used_pages :: "'a mm_state_scheme \<Rightarrow> nat set" where
  "used_pages s = pages (bm (mem s) (MM_CURRENT_PD s)) (bm (mem s) (MM_CURRENT_PT s))"

lemma first_free_cur_dir:
  "bm m b \<noteq> {..<1024} \<Longrightarrow> unat (mm_first_free m b) = cur_dir (bm m b)"
  using bp.first_free_least [of m b] by (intro cur_dir_eqI [symmetric]) auto

section \<open>The page allocator\<close>

lemma mm_inv_apart:
  assumes "mm_inv s"
  shows "off (MM_CURRENT_PD s) c < 128 \<Longrightarrow> 128 \<le> off (MM_CURRENT_PT s) c"
    and "off (MM_CURRENT_PT s) c < 128 \<Longrightarrow> 128 \<le> off (MM_CURRENT_PD s) c"
  using assms off_apart [of "MM_CURRENT_PD s" 128 "MM_CURRENT_PT s" 128 c]
    off_apart [of "MM_CURRENT_PT s" 128 "MM_CURRENT_PD s" 128 c]
  by (auto simp: mm_inv_def)

lemma mm_inv_bits:
  assumes "mm_inv s" "unat k < 1024"
  shows "bm (mm_bitmap_set_bit (mem s) (MM_CURRENT_PT s) k) (MM_CURRENT_PD s) = bm (mem s) (MM_CURRENT_PD s)"
    and "bm (mm_bitmap_unset_bit (mem s) (MM_CURRENT_PT s) k) (MM_CURRENT_PD s) = bm (mem s) (MM_CURRENT_PD s)"
    and "bm (mm_bitmap_set_bit (mem s) (MM_CURRENT_PD s) k) (MM_CURRENT_PT s) = bm (mem s) (MM_CURRENT_PT s)"
  using assms mm_inv_apart [OF assms(1)]
  by (auto intro!: bp.bits_outside)

lemma ERR_iff: "mm_first_free m b = ERR_NO_MEM \<longleftrightarrow> bm m b = {..<1024}"
  by (simp add: ERR_NO_MEM_def bp.first_free_none_iff)

lemma mm_page_alloc_take:
  assumes "bm (mem s) PD \<noteq> {..<1024}" "bm (mem s) PT \<noteq> {..<1024}"
  shows "mm_page_alloc PD PT s =
    Some (of_nat (4096 * (1024 * cur_dir (bm (mem s) PD) + cur_dir (bm (mem s) PT))),
      s\<lparr>mem := mm_bitmap_set_bit (mem s) PT (of_nat (cur_dir (bm (mem s) PT)))\<rparr>)"
proof -
  have "mm_first_free (mem s) b = of_nat (cur_dir (bm (mem s) b))" if "bm (mem s) b \<noteq> {..<1024}" for b
    by (simp flip: first_free_cur_dir [OF that])
  then show ?thesis
    using assms ERR_iff [of "mem s" PD] ERR_iff [of "mem s" PT]
    by (subst mm_page_alloc.simps) (simp add: Let_def algebra_simps)
qed

text \<open>A fresh table bitmap is empty and apart from the directory bitmap, even when it is at 0.\<close>

lemma mm_bitmap_init_inv:
  assumes "mm_inv s"
  obtains b h where "mm_bitmap_init s = (b, s\<lparr>MM_HEAP := h, mem := fst (memset (mem s) b 0 128)\<rparr>)"
    "mm_inv (s\<lparr>MM_HEAP := h, mem := fst (memset (mem s) b 0 128), MM_CURRENT_PT := b\<rparr>)"
    "b = 0 \<and> h = MM_HEAP s \<or> b = MM_HEAP s \<and> unat h = unat (MM_HEAP s) + 0x4000"
proof -
  have h: "MM_HEAP s \<noteq> 0" "unat (MM_HEAP s) + 4 * unat (128 :: u32) < 2 ^ 32"
    "unat (MM_HEAP s) < 0xC0304000"
    using assms by (auto simp: mm_inv_def)
  from h show ?thesis
  proof (cases rule: mm_alloc_cases)
    case full
    then show ?thesis
      using assms by (intro that [of 0 "MM_HEAP s"]) (auto simp: mm_bitmap_init_def mm_inv_def)
  next
    case (ok h)
    then show ?thesis
      using assms by (intro that [of "MM_HEAP s" h]) (auto simp: mm_bitmap_init_def mm_inv_def)
  qed
qed

lemma bm_memset: "bm (fst (memset m b 0 128)) b = {}"
proof -
  have "load32 (fst (memset m b 0 128)) (c32.idx b i) = load32 (\<lambda>_. 0) (c32.idx b i)" if "i < 32" for i
    using that by (intro c32.arr_cong [where n = 32]) (auto simp: memset_at)
  moreover have "load32 (\<lambda>_. 0) a = 0" for a by (simp add: load32_def)
  ultimately show ?thesis by (auto simp: bm_idx)
qed

lemma bm_memset_apart:
  assumes "\<And>c. off b c < 128 \<Longrightarrow> 128 \<le> off a c"
  shows "bm (fst (memset m a 0 128)) b = bm m b"
  using assms by (intro bm_cong) (simp add: memset_at leD)

lemma k_page_alloc_none:
  assumes "bm (mem s) (MM_CURRENT_PD s) = {..<1024}"
  shows "k_page_alloc s = Some (ERR_NO_MEM, s)"
  using assms by (simp add: k_page_alloc_def mm_page_alloc.simps ERR_iff)

lemma k_page_alloc_take:
  assumes "mm_inv s" "bm (mem s) (MM_CURRENT_PD s) \<noteq> {..<1024}" "bm (mem s) (MM_CURRENT_PT s) \<noteq> {..<1024}"
  defines "p \<equiv> (LEAST p. p \<notin> used_pages s)"
  shows "\<exists>s'. k_page_alloc s = Some (of_nat (4096 * p), s') \<and> mm_inv s' \<and>
    p \<notin> used_pages s \<and> used_pages s' = insert p (used_pages s) \<and> indet s' = indet s \<and>
    bm (mem s') (MM_CURRENT_PD s') = bm (mem s) (MM_CURRENT_PD s) \<and>
    p = 1024 * cur_dir (bm (mem s) (MM_CURRENT_PD s)) + cur_dir (bm (mem s) (MM_CURRENT_PT s)) \<and>
    p < 2 ^ 20"
proof -
  let ?D = "bm (mem s) (MM_CURRENT_PD s)" and ?T = "bm (mem s) (MM_CURRENT_PT s)"
  have T: "cur_dir ?T < 1024" "cur_dir ?T \<notin> ?T"
    using cur_dir_less [OF bp.bits_cap assms(3)] cur_dir_notin [OF bp.bits_cap] by auto
  have p: "p = 1024 * cur_dir ?D + cur_dir ?T"
    unfolding p_def used_pages_def
    using assms T bp.bits_cap below_cur_dir by (intro pages_least) auto
  let ?s = "s\<lparr>mem := mm_bitmap_set_bit (mem s) (MM_CURRENT_PT s) (of_nat (cur_dir ?T))\<rparr>"
  have u: "unat (of_nat (cur_dir ?T) :: u32) = cur_dir ?T" using T by simp
  have "k_page_alloc s = Some (of_nat (4096 * p), ?s)"
    unfolding k_page_alloc_def p by (rule mm_page_alloc_take [OF assms(2,3)])
  moreover have "used_pages ?s = insert p (used_pages s)"
    using assms T u by (simp add: used_pages_def mm_inv_bits bp.set_bits pages_insert bp.bits_cap p)
  moreover have "p \<notin> used_pages s"
    using T by (simp add: used_pages_def p pages_fresh bp.bits_cap)
  moreover have "mm_inv ?s" using assms(1) by (simp add: mm_inv_def)
  moreover have "bm (mem ?s) (MM_CURRENT_PD ?s) = ?D" using assms(1) T by (simp add: mm_inv_bits)
  moreover have "p < 2 ^ 20" using T cur_dir_less [OF bp.bits_cap assms(2)] by (simp add: p)
  ultimately show ?thesis using p by (intro exI [of _ ?s]) simp
qed

text \<open>
  With the table bitmap full the directory is marked, an empty bitmap takes its place and the
  next directory's first page is taken: the value is lost, the page is not.
\<close>

lemma k_page_alloc_swap:
  assumes inv: "mm_inv s" and D: "bm (mem s) (MM_CURRENT_PD s) \<noteq> {..<1024}"
    and T: "bm (mem s) (MM_CURRENT_PT s) = {..<1024}"
  obtains t where "mm_inv t" "used_pages t = used_pages s" "indet t = indet s"
    "bm (mem t) (MM_CURRENT_PT t) = {}"
    "k_page_alloc s = do { (_, s') \<leftarrow> k_page_alloc t; Some (indet s', s') }"
    "\<exists>m h b. t = s\<lparr>MM_HEAP := h, mem := m, MM_CURRENT_PT := b\<rparr> \<and>
      (b = 0 \<and> h = MM_HEAP s \<or> b = MM_HEAP s \<and> unat h = unat (MM_HEAP s) + 0x4000) \<and>
      (\<forall>c. 128 \<le> off (MM_CURRENT_PD s) c \<longrightarrow> 128 \<le> off b c \<longrightarrow> m c = mem s c)"
proof -
  let ?PD = "MM_CURRENT_PD s" and ?D = "bm (mem s) (MM_CURRENT_PD s)"
  obtain b h where init: "mm_bitmap_init s = (b, s\<lparr>MM_HEAP := h, mem := fst (memset (mem s) b 0 128)\<rparr>)"
    and inv': "mm_inv (s\<lparr>MM_HEAP := h, mem := fst (memset (mem s) b 0 128), MM_CURRENT_PT := b\<rparr>)"
    and bh: "b = 0 \<and> h = MM_HEAP s \<or> b = MM_HEAP s \<and> unat h = unat (MM_HEAP s) + 0x4000"
    using mm_bitmap_init_inv [OF inv] by metis
  define u where "u = s\<lparr>MM_HEAP := h, mem := fst (memset (mem s) b 0 128), MM_CURRENT_PT := b\<rparr>"
  define k where "k = mm_first_free (mem s) ?PD"
  define t where "t = u\<lparr>mem := mm_bitmap_set_bit (mem u) ?PD k\<rparr>"
  have k: "unat k = cur_dir ?D" "unat k < 1024"
    using first_free_cur_dir [OF D] cur_dir_less [OF bp.bits_cap D] by (auto simp: k_def)
  have u: "mm_inv u" "MM_CURRENT_PD u = ?PD" "MM_CURRENT_PT u = b" using inv' by (auto simp: u_def)
  have uD: "bm (mem u) ?PD = ?D"
    using mm_inv_apart(1) [OF u(1)] u by (simp add: u_def bm_memset_apart)
  have tD: "bm (mem t) (MM_CURRENT_PD t) = insert (cur_dir ?D) ?D"
    using u uD k by (simp add: t_def bp.set_bits)
  have tT: "bm (mem t) (MM_CURRENT_PT t) = {}"
    using mm_inv_bits(3) [OF u(1) k(2)] u by (simp add: t_def) (simp add: u_def bm_memset)
  have "mm_inv t" using u by (simp add: t_def mm_inv_def)
  moreover have "used_pages t = used_pages s"
    by (simp only: used_pages_def tD tT T pages_swap [OF bp.bits_cap])
  moreover have "indet t = indet s" by (simp add: t_def u_def)
  moreover have "k_page_alloc s = do { (_, s') \<leftarrow> k_page_alloc t; Some (indet s', s') }"
  proof -
    have "k_page_alloc s = do { (_, s') \<leftarrow> mm_page_alloc ?PD b t; Some (indet s', s') }"
      unfolding k_page_alloc_def using D T
      by (subst mm_page_alloc.simps)
        (simp add: ERR_iff init Let_def t_def u_def k_def)
    then show ?thesis using u by (simp add: k_page_alloc_def t_def)
  qed
  moreover have "t = s\<lparr>MM_HEAP := h, mem := mem t, MM_CURRENT_PT := b\<rparr>" by (simp add: t_def u_def)
  moreover have "mem t c = mem s c" if "128 \<le> off ?PD c" "128 \<le> off b c" for c
    using that k by (simp add: t_def bm_frame u_def memset_at not_less)
  ultimately show ?thesis using tT bh by (intro that) blast+
qed

lemma k_page_alloc_total:
  assumes "mm_inv s"
  shows "\<exists>r s'. k_page_alloc s = Some (r, s') \<and> mm_inv s'"
proof -
  have notfull: "\<exists>r s'. k_page_alloc t = Some (r, s') \<and> mm_inv s'"
    if "mm_inv t" "bm (mem t) (MM_CURRENT_PT t) \<noteq> {..<1024}" for t
    using that k_page_alloc_take [of t] k_page_alloc_none [of t] by blast
  consider "bm (mem s) (MM_CURRENT_PT s) \<noteq> {..<1024}" | "bm (mem s) (MM_CURRENT_PD s) = {..<1024}"
    | (swap) "bm (mem s) (MM_CURRENT_PD s) \<noteq> {..<1024}" "bm (mem s) (MM_CURRENT_PT s) = {..<1024}"
    by blast
  then show ?thesis
  proof cases
    case swap
    obtain t where t: "mm_inv t" "bm (mem t) (MM_CURRENT_PT t) = {}"
        "k_page_alloc s = do { (_, s') \<leftarrow> k_page_alloc t; Some (indet s', s') }"
      by (rule k_page_alloc_swap [OF assms swap], rule that)
    then obtain r s' where "k_page_alloc t = Some (r, s')" "mm_inv s'"
      using notfull [of t] by auto
    with t show ?thesis by simp
  qed (use assms notfull k_page_alloc_none in blast)+
qed

lemma pages_all_iff:
  assumes "D \<subseteq> {..<1024}" "T \<noteq> {..<1024}" "T \<subseteq> {..<1024}"
  shows "pages D T = {..<2 ^ 20} \<longleftrightarrow> D = {..<1024}"
proof
  assume all: "pages D T = {..<2 ^ 20}"
  show "D = {..<1024}"
  proof (rule ccontr)
    assume D: "D \<noteq> {..<1024}"
    obtain t where t: "t < 1024" "t \<notin> T" using assms by blast
    have "1024 * cur_dir D + t < 2 ^ 20" using cur_dir_less [OF assms(1) D] t by simp
    then show False using pages_fresh [OF assms(1) t(2,1)] all by simp
  qed
qed (simp add: pages_full)

lemma used_all: "bm (mem s) (MM_CURRENT_PD s) = {..<1024} \<Longrightarrow> used_pages s = {..<2 ^ 20}"
  by (simp only: used_pages_def pages_full)

lemma k_page_alloc_first_fit:
  assumes "mm_inv s" "used_pages s \<noteq> {..<2 ^ 20}"
  defines "p \<equiv> (LEAST p. p \<notin> used_pages s)"
  shows "\<exists>r s'. k_page_alloc s = Some (r, s') \<and> mm_inv s' \<and>
    p \<notin> used_pages s \<and> used_pages s' = insert p (used_pages s) \<and>
    r = (if bm (mem s) (MM_CURRENT_PT s) = {..<1024} then indet s else of_nat (4096 * p))"
proof (cases "bm (mem s) (MM_CURRENT_PT s) = {..<1024}")
  case False
  moreover from this have "bm (mem s) (MM_CURRENT_PD s) \<noteq> {..<1024}"
    using assms(2) used_all by blast
  ultimately show ?thesis
    using k_page_alloc_take [OF assms(1)] by (auto simp: p_def)
next
  case True
  have D: "bm (mem s) (MM_CURRENT_PD s) \<noteq> {..<1024}"
    using assms(2) used_all by blast
  obtain t
    where t: "mm_inv t" "used_pages t = used_pages s" "indet t = indet s"
      "bm (mem t) (MM_CURRENT_PT t) = {}"
      "k_page_alloc s = do { (_, s') \<leftarrow> k_page_alloc t; Some (indet s', s') }"
    by (rule k_page_alloc_swap [OF assms(1) D True], rule that)
  have "bm (mem t) (MM_CURRENT_PD t) \<noteq> {..<1024}"
    using t(2) assms(2) used_all by metis
  from k_page_alloc_take [OF t(1) this] t(2-4) obtain s' where
    "k_page_alloc t = Some (of_nat (4096 * p), s')" "mm_inv s'" "p \<notin> used_pages s"
    "used_pages s' = insert p (used_pages s)" "indet s' = indet s"
    by (auto simp: p_def)
  with t(5) True show ?thesis by simp
qed

text \<open>Which bytes and which fields an allocation touches.\<close>

lemma k_page_alloc_effect1:
  assumes "bm (mem s) (MM_CURRENT_PT s) \<noteq> {..<1024}" "k_page_alloc s = Some (r, s')"
  shows "\<exists>m. s' = s\<lparr>mem := m\<rparr> \<and> (\<forall>c. 128 \<le> off (MM_CURRENT_PT s) c \<longrightarrow> m c = mem s c)"
proof (cases "bm (mem s) (MM_CURRENT_PD s) = {..<1024}")
  case True
  then show ?thesis using k_page_alloc_none [OF True] assms(2) by (intro exI [of _ "mem s"]) simp
next
  case False
  have "cur_dir (bm (mem s) (MM_CURRENT_PT s)) < 1024" by (rule cur_dir_less [OF bp.bits_cap assms(1)])
  then show ?thesis
    using mm_page_alloc_take [OF False assms(1)] assms(2) by (auto simp: k_page_alloc_def bm_frame)
qed

lemma k_page_alloc_effect:
  assumes inv: "mm_inv s" and al: "k_page_alloc s = Some (r, s')"
  obtains m h b where "s' = s\<lparr>MM_HEAP := h, mem := m, MM_CURRENT_PT := b\<rparr>"
    "b = MM_CURRENT_PT s \<and> h = MM_HEAP s \<or> b = 0 \<and> h = MM_HEAP s \<or>
     b = MM_HEAP s \<and> unat h = unat (MM_HEAP s) + 0x4000"
    "\<And>c. 128 \<le> off (MM_CURRENT_PD s) c \<Longrightarrow> 128 \<le> off (MM_CURRENT_PT s) c \<Longrightarrow> 128 \<le> off b c \<Longrightarrow>
      m c = mem s c"
proof -
  consider (nf) "bm (mem s) (MM_CURRENT_PT s) \<noteq> {..<1024}" | (none) "bm (mem s) (MM_CURRENT_PD s) = {..<1024}"
    | (swap) "bm (mem s) (MM_CURRENT_PD s) \<noteq> {..<1024}" "bm (mem s) (MM_CURRENT_PT s) = {..<1024}"
    by blast
  then show ?thesis
  proof cases
    case nf
    from k_page_alloc_effect1 [OF nf al] obtain m
      where "s' = s\<lparr>mem := m\<rparr>" "\<forall>c. 128 \<le> off (MM_CURRENT_PT s) c \<longrightarrow> m c = mem s c" by blast
    then show ?thesis
      by (intro that [where m = m and h = "MM_HEAP s" and b = "MM_CURRENT_PT s"]) auto
  next
    case none
    then show ?thesis using k_page_alloc_none [OF none] al
      by (intro that [where m = "mem s" and h = "MM_HEAP s" and b = "MM_CURRENT_PT s"]) auto
  next
    case swap
    obtain t m h b
      where t: "bm (mem t) (MM_CURRENT_PT t) = {}" "t = s\<lparr>MM_HEAP := h, mem := m, MM_CURRENT_PT := b\<rparr>"
        "k_page_alloc s = do { (_, s') \<leftarrow> k_page_alloc t; Some (indet s', s') }"
        "b = 0 \<and> h = MM_HEAP s \<or> b = MM_HEAP s \<and> unat h = unat (MM_HEAP s) + 0x4000"
        "\<forall>c. 128 \<le> off (MM_CURRENT_PD s) c \<longrightarrow> 128 \<le> off b c \<longrightarrow> m c = mem s c"
      by (rule k_page_alloc_swap [OF inv swap], elim exE conjE, rule that)
    obtain r' where "k_page_alloc t = Some (r', s')"
      using t(3) al by (cases "k_page_alloc t") auto
    from k_page_alloc_effect1 [OF _ this] t(1) obtain m' where
      "s' = t\<lparr>mem := m'\<rparr>" "\<forall>c. 128 \<le> off (MM_CURRENT_PT t) c \<longrightarrow> m' c = mem t c"
      by auto
    then show ?thesis using t by (intro that [where m = m' and h = h and b = b]) auto
  qed
qed

section \<open>Freeing a page\<close>

lemma page_index: "unat (drop_bit 12 (a AND NOT 0x3FF) AND 0x3FF :: u32) = unat a div 4096 mod 1024"
proof -
  have m: "(0x3FF :: u32) = mask 10" by (simp add: mask_eq_exp_minus_1)
  have "unat a div 2 ^ 10 * 2 ^ 10 div 2 ^ 12 = unat a div 2 ^ 12"
    by simp
  then show ?thesis
    by (simp only: m unat_and_mask unat_drop_bit unat_and_not_mask) simp
qed

lemma pages_remove:
  assumes "D \<subseteq> {..<1024}" "t < 1024"
  shows "pages D (T - {t}) = pages D T - {1024 * cur_dir D + t}"
  using assms cur_dir_notin [OF assms(1)] div_mod_unique [OF assms(2)] by (auto simp: pages_def)

lemma k_page_free_spec:
  assumes "mm_inv s"
  shows "fst (k_page_free a s) = a" and "mm_inv (snd (k_page_free a s))"
    and "used_pages (snd (k_page_free a s)) =
      used_pages s - {1024 * cur_dir (bm (mem s) (MM_CURRENT_PD s)) + unat a div 4096 mod 1024}"
proof -
  define k where "k = (drop_bit 12 (a AND NOT 0x3FF) AND 0x3FF :: u32)"
  have k: "unat k = unat a div 4096 mod 1024" "unat k < 1024" unfolding k_def page_index by simp_all
  have u: "k_page_free a s = (a, s\<lparr>mem := mm_bitmap_unset_bit (mem s) (MM_CURRENT_PT s) k\<rparr>)"
    unfolding k_page_free_def mm_page_free_def Let_def k_def ..
  show "fst (k_page_free a s) = a" "mm_inv (snd (k_page_free a s))"
    using assms by (simp_all add: u mm_inv_def)
  show "used_pages (snd (k_page_free a s)) =
      used_pages s - {1024 * cur_dir (bm (mem s) (MM_CURRENT_PD s)) + unat a div 4096 mod 1024}"
    unfolding used_pages_def u
    using mm_inv_bits(2) [OF assms k(2)] bp.unset_bits [OF k(2), of "mem s" "MM_CURRENT_PT s"] k
    by (simp add: pages_remove bp.bits_cap)
qed

section \<open>Initialisation\<close>

lemma mm_bitmap_init_ok:
  assumes "MM_HEAP s \<noteq> 0" "unat (MM_HEAP s) + 512 < 0xC0300000"
  shows "mm_bitmap_init s = (MM_HEAP s,
    s\<lparr>MM_HEAP := MM_HEAP s + 0x4000, mem := fst (memset (mem s) (MM_HEAP s) 0 128)\<rparr>)"
proof -
  have "MM_HEAP s + 4 * 128 < MM_HEAP_MAX"
    using assms(2) by (simp add: MM_HEAP_MAX_def word_less_nat_alt unat_word_ariths)
  then show ?thesis using assms(1) by (simp add: mm_bitmap_init_def mm_alloc_def)
qed

lemma pages_initial: "pages {0} {} = {..<1024}"
proof -
  have "cur_dir {0} = 1" by (rule cur_dir_eqI) auto
  then show ?thesis by (auto simp: pages_def)
qed

lemma k_mm_init_spec:
  assumes "0x1000 \<le> unat heap" "unat heap < 0xC02F0000"
  shows "\<exists>s'. k_mm_init heap s = Some (0x400000, s') \<and> mm_inv s' \<and> used_pages s' = {..1024}"
proof -
  define h where "h = (heap + 0x1000) AND NOT 0xFFF"
  have mask: "(0xFFF :: u32) = mask 12" by (simp add: mask_eq_exp_minus_1)
  have h: "unat h = (unat heap + 0x1000) div 0x1000 * 0x1000"
    unfolding h_def mask unat_and_not_mask using assms by (simp add: unat_word_ariths)
  then have hb: "0x1000 \<le> unat h" "unat h < 0xC02F1000" using assms by auto
  have h4: "unat (h + 0x4000) = unat h + 0x4000" "unat (0x8000 + h) = unat h + 0x8000"
    using hb by (auto simp: unat_word_ariths)
  define s1 where "s1 = s\<lparr>MM_CURRENT_PD := h, MM_HEAP := 0x8000 + h, MM_CURRENT_PT := h + 0x4000,
    mem := fst (memset (fst (memset (mem s) h 0 128)) (h + 0x4000) 0 128)\<rparr>"
  define s2 where "s2 = s1\<lparr>mem := mm_bitmap_set_bit (mem s1) h 0\<rparr>"
  have nz: "h \<noteq> 0" "h + 0x4000 \<noteq> 0" using hb h4 by auto
  have init: "k_mm_init heap s = k_page_alloc s2"
    unfolding k_mm_init_def Let_def h_def [symmetric] using hb nz
    by (simp add: mm_bitmap_init_ok h4 k_page_alloc_def s2_def s1_def)
  have inv: "mm_inv s1" "mm_inv s2" using hb h4 by (simp_all add: s1_def s2_def mm_inv_def)
  have b1: "bm (mem s1) (h + 0x4000) = {}" by (simp add: s1_def bm_memset)
  have "128 \<le> off (h + 0x4000) c" if "off h c < 128" for c
    using mm_inv_apart(1) [OF inv(1), of c] that by (simp add: s1_def)
  then have b2: "bm (mem s1) h = {}" by (simp add: s1_def bm_memset_apart bm_memset)
  have D: "bm (mem s2) (MM_CURRENT_PD s2) = {0}" "bm (mem s2) (MM_CURRENT_PT s2) = {}"
    using mm_inv_bits(3) [OF inv(1), of 0] b1 b2 by (simp_all add: s2_def s1_def bp.set_bits)
  have "(1 :: nat) \<in> {..<1024}" "(1 :: nat) \<notin> {0}" by auto
  then have ne: "{0} \<noteq> {..<1024 :: nat}" by metis
  have used: "used_pages s2 = {..<1024}" by (simp only: used_pages_def D pages_initial)
  have "(LEAST p. p \<notin> {..<1024}) = (1024 :: nat)" by (rule Least_equality) auto
  with k_page_alloc_take [OF inv(2)] D used ne obtain s' where
    "k_page_alloc s2 = Some (of_nat (4096 * 1024), s')" "mm_inv s'" "used_pages s' = insert 1024 {..<1024}"
    by auto
  moreover have "insert 1024 {..<1024} = {..1024 :: nat}" by auto
  ultimately show ?thesis unfolding init by simp
qed

section \<open>Properties\<close>

text \<open>A state with two empty bitmaps, for the concrete instances.\<close>

definition mm0 :: mm_state where
  "mm0 = \<lparr>mem = (\<lambda>_. 0), indet = 7, MM_CURRENT_PD = 0xC0110000, MM_CURRENT_PT = 0xC0114000,
     MM_HEAP = 0xC0118000\<rparr>"

lemma mm0_simps:
  "mm_inv mm0" "bm (mem mm0) b = {}" "indet mm0 = 7" "used_pages mm0 = {}" "(LEAST p. p \<notin> {}) = (0 :: nat)"
proof -
  show bm: "bm (mem mm0) b = {}" for b by (simp add: mm0_def bm_def load32_def)
  show "used_pages mm0 = {}" by (simp add: used_pages_def bm pages_def)
  show "mm_inv mm0" by (simp add: mm_inv_def mm0_def)
qed (simp_all add: mm0_def Least_equality)

text \<open>
  \<^verbatim>\<open>mm_first_free\<close> returns the number of the least clear bit of a bitmap, and
  \<^verbatim>\<open>ERR_NO_MEM\<close> exactly when all 1024 bits are set.
\<close>

lemma mm_first_free_correct:
  "if bm m b = {..<1024} then mm_first_free m b = ERR_NO_MEM
   else unat (mm_first_free m b) = (LEAST i. i \<notin> bm m b) \<and> unat (mm_first_free m b) < 1024"
proof (cases "bm m b = {..<1024}")
  case True
  then show ?thesis by (simp only: ERR_iff if_True simp_thms)
next
  case False
  have "unat (mm_first_free m b) = (LEAST i. i \<notin> bm m b) \<and> unat (mm_first_free m b) < 1024"
    using bp.first_free_least [OF False] first_free_cur_dir [OF False, unfolded cur_dir_def] by blast
  then show ?thesis unfolding if_not_P [OF False] .
qed

text \<open>
  C4. The page allocator is first fit and never hands out a page twice: with a page left,
  \<^verbatim>\<open>k_page_alloc\<close> returns, the least page not in use becomes used and no other page changes, the
  invariant is kept, and the value returned is that page's address unless the table bitmap was
  full, where the source falls off the end and the value is indeterminate.
\<close>

theorem k_page_alloc_correct:
  assumes "mm_inv s" "used_pages s \<noteq> {..<2 ^ 20}"
  shows "\<exists>r s'. k_page_alloc s = Some (r, s') \<and> mm_inv s' \<and>
    (LEAST p. p \<notin> used_pages s) \<notin> used_pages s \<and>
    used_pages s' = insert (LEAST p. p \<notin> used_pages s) (used_pages s) \<and>
    r = (if bm (mem s) (MM_CURRENT_PT s) = {..<1024} then indet s
         else of_nat (4096 * (LEAST p. p \<notin> used_pages s)))"
  by (rule k_page_alloc_first_fit [OF assms])

theorem k_page_alloc_correct_witness:
  "\<exists>s'. k_page_alloc mm0 = Some (0, s') \<and> mm_inv s' \<and> used_pages s' = {0}"
  using k_page_alloc_correct [OF mm0_simps(1)] by (simp add: mm0_simps)

text \<open>
  C18. \<^verbatim>\<open>k_mm_init\<close> on a kernel end below the early heap's limit reserves the first 4 MB,
  takes the first page above it, whose address it returns, and establishes the invariant.  The comments in the source
  speak of 2 MB and of entry 1023 of the first table.
\<close>

theorem k_mm_init_correct:
  assumes "0x1000 \<le> unat heap" "unat heap < 0xC02F0000"
  shows "\<exists>s'. k_mm_init heap s = Some (0x400000, s') \<and> mm_inv s' \<and> used_pages s' = {..1024}"
  by (rule k_mm_init_spec [OF assms])

theorem k_mm_init_correct_witness:
  "\<exists>s'. k_mm_init 0xC0120000 mm0 = Some (0x400000, s') \<and> mm_inv s' \<and> used_pages s' = {..1024}"
  using k_mm_init_correct [of "0xC0120000" mm0] by simp

text \<open>
  C19. \<^verbatim>\<open>k_page_free\<close> returns its argument and frees the page at that index of the \<^emph>\<open>current\<close>
  directory, whatever directory the address lies in: freeing a page of the current directory
  undoes its allocation, freeing one of an older directory frees another page.
\<close>

theorem k_page_free_correct:
  assumes "mm_inv s"
  shows "fst (k_page_free a s) = a \<and> mm_inv (snd (k_page_free a s)) \<and>
    used_pages (snd (k_page_free a s)) =
      used_pages s - {1024 * cur_dir (bm (mem s) (MM_CURRENT_PD s)) + unat a div 4096 mod 1024}"
  using k_page_free_spec [OF assms] by blast

theorem k_page_free_correct_witness:
  "fst (k_page_free 0x5000 mm0) = 0x5000 \<and> mm_inv (snd (k_page_free 0x5000 mm0)) \<and>
   used_pages (snd (k_page_free 0x5000 mm0)) = {}"
  using k_page_free_correct [OF mm0_simps(1), of "0x5000"] by (simp add: mm0_simps)

text \<open>
  C10. While the bitmap of the current table has a free page, allocating a page and freeing it leaves the set of used
  pages as it was.  With a full table the pair does not: the allocation takes a page of a new table and returns an
  indeterminate address, and freeing that need not free the page it took.
\<close>

theorem k_page_alloc_free:
  assumes "mm_inv s" "used_pages s \<noteq> {..<2 ^ 20}" "bm (mem s) (MM_CURRENT_PT s) \<noteq> {..<1024}"
  shows "\<exists>a s'. k_page_alloc s = Some (a, s') \<and> used_pages (snd (k_page_free a s')) = used_pages s"
proof -
  have "bm (mem s) (MM_CURRENT_PD s) \<noteq> {..<1024}" using assms(2) used_all by blast
  from k_page_alloc_take [OF assms(1) this assms(3)] obtain p s' where
    s': "k_page_alloc s = Some (of_nat (4096 * p), s')" "mm_inv s'" "p \<notin> used_pages s"
      "used_pages s' = insert p (used_pages s)" "bm (mem s') (MM_CURRENT_PD s') = bm (mem s) (MM_CURRENT_PD s)"
      "p = 1024 * cur_dir (bm (mem s) (MM_CURRENT_PD s)) + cur_dir (bm (mem s) (MM_CURRENT_PT s))"
      "p < 2 ^ 20"
    by blast
  have "cur_dir (bm (mem s) (MM_CURRENT_PT s)) < 1024" by (rule cur_dir_less [OF bp.bits_cap assms(3)])
  then have "p mod 1024 = cur_dir (bm (mem s) (MM_CURRENT_PT s))" by (simp add: s'(6))
  moreover have "unat (of_nat (4096 * p) :: u32) = 4096 * p" using s'(7) by (subst unat_of_nat32) auto
  ultimately have "used_pages (snd (k_page_free (of_nat (4096 * p)) s')) = used_pages s' - {p}"
    using k_page_free_spec(3) [OF s'(2), of "of_nat (4096 * p)"] s'(5,6) by simp
  with s'(1,3,4) show ?thesis by auto
qed

theorem k_page_alloc_free_witness:
  "\<exists>a s'. k_page_alloc mm0 = Some (a, s') \<and> used_pages (snd (k_page_free a s')) = {}"
  using k_page_alloc_free [OF mm0_simps(1)] by (simp add: mm0_simps)

text \<open>
  Two successive early allocations that succeed do not overlap and end below
  \<^verbatim>\<open>MM_HEAP_MAX\<close>; the pointer moves by four times the rounded size, since it is a
  \<^verbatim>\<open>uint32_t*\<close>.
\<close>

lemma mm_alloc_disjoint:
  assumes "unat n < 0x100000" "unat k < 0x100000" "unat (MM_HEAP s) < 0xC0304000"
    and "mm_alloc n s = (a, s1)" "a \<noteq> 0" "mm_alloc k s1 = (b, s2)" "b \<noteq> 0"
  shows "unat a + unat n \<le> unat b \<and> unat b + unat k \<le> unat MM_HEAP_MAX \<and>
    unat b = unat a + 4 * (if 0x1000 \<le> unat n then unat n div 0x1000 * 0x1000 else 0x1000)"
proof -
  have nz: "MM_HEAP s \<noteq> 0" using assms(4,5) by (auto simp: mm_alloc_def)
  have nz1: "MM_HEAP s1 \<noteq> 0" using assms(6,7) by (auto simp: mm_alloc_def)
  have r: "unat (MM_HEAP s) + 4 * unat n < 2 ^ 32" using assms by simp
  obtain h where h: "a = MM_HEAP s" "s1 = s\<lparr>MM_HEAP := h\<rparr>" "unat a + 4 * unat n < 0xC0300000"
    "unat h = unat a + (if 0x1000 \<le> unat n then 4 * (unat n div 0x1000 * 0x1000) else 0x4000)"
    using mm_alloc_cases [OF nz r assms(3)] assms(4,5) by (metis prod.inject)
  have le: "unat h < 0xC0304000" using h by (auto split: if_splits)
  have r1: "unat (MM_HEAP s1) + 4 * unat k < 2 ^ 32" using assms le h by simp
  have "unat (MM_HEAP s1) < 0xC0304000" using le h by simp
  from nz1 r1 this have b: "b = h \<and> unat b + 4 * unat k < 0xC0300000"
    by (cases rule: mm_alloc_cases) (use assms(6,7) h(2) in auto)
  have "unat n \<le> 4 * (unat n div 0x1000 * 0x1000)" if "0x1000 \<le> unat n"
  proof -
    have "unat n = unat n div 0x1000 * 0x1000 + unat n mod 0x1000" by (rule div_mult_mod_eq [symmetric])
    moreover have "unat n mod 0x1000 < 0x1000" by simp
    moreover have "0 < unat n div 0x1000" using that by (simp add: div_greater_zero_iff)
    ultimately show ?thesis by linarith
  qed
  then show ?thesis using h b by (auto simp: MM_HEAP_MAX_def)
qed

end
