(* ===== verification/Paging.thy ===== *)
theory Paging
  imports Mm
begin

text \<open>
  Page directories and tables, \<^verbatim>\<open>kernel/mem/paging.c\<close>: the operations that read and write the
  tables.  A directory is an array of 1024 cells, each holding the physical address of a table
  and flag bits.  A table is reached through \<^verbatim>\<open>P2V\<close>, or, where the source does so, through the
  physical address itself.  \<open>layout\<close> says where the directory, its tables and the bitmaps of the
  physical memory manager lie; the operations the heap relies on keep it and leave every other
  byte alone.  The functions of the file that print are in \<open>Mem_More\<close>.
\<close>

section \<open>State and operations\<close>

text \<open>\<open>cr3\<close> is the register of that name, \<open>invlpg\<close> lists the pages invalidated, latest first.\<close>

record paging_state = mm_state +
  KERNEL_PAGE_DIRECTORY :: u32
  CURRENT_PAGE_DIRECTORY :: u32
  cr3 :: u32
  invlpg :: "u32 list"

definition PF_PRESENT :: u32 where
  "PF_PRESENT = 0x1"

definition PF_RW :: u32 where
  "PF_RW = 0x2"

definition k_swap_pd :: "u32 \<Rightarrow> 'a paging_state_scheme \<Rightarrow> 'a paging_state_scheme" where
  "k_swap_pd pd s =
     (let s = s\<lparr>CURRENT_PAGE_DIRECTORY := pd\<rparr> in s\<lparr>cr3 := V2P (CURRENT_PAGE_DIRECTORY s)\<rparr>)"

definition k_current_pd :: "'a paging_state_scheme \<Rightarrow> u32" where
  "k_current_pd s = CURRENT_PAGE_DIRECTORY s"

text \<open>
  The test \<^verbatim>\<open>!dir[_pdi] & ~0x3FF\<close> negates first: it masks a 0 or a 1.
\<close>

definition virt_to_phys :: "mem \<Rightarrow> u32 \<Rightarrow> u32 \<Rightarrow> u32" where
  "virt_to_phys m dir virt =
     (let pdi = drop_bit 22 virt;
          pti = drop_bit 12 virt AND 0x3FF
      in if (if load32 m (dir + 4 * pdi) = 0 then 1 else 0) AND NOT 0x3FF \<noteq> (0 :: u32) then 0
         else let pt = P2V (load32 m (dir + 4 * pdi) AND NOT 0x3FF)
              in load32 m (pt + 4 * pti))"

function phys_to_virt_pt :: "mem \<Rightarrow> u32 \<Rightarrow> u32 \<Rightarrow> nat \<Rightarrow> nat option" where
  "phys_to_virt_pt m pt phys q =
     (if q < 1024
      then let e = load32 m (pt + 4 * of_nat q) AND NOT 0x3FF in
        if e \<noteq> 0 \<and> e = phys AND NOT 0x3FF then Some q
        else phys_to_virt_pt m pt phys (q + 1)
      else None)"
  by pat_completeness auto
termination
  by (relation "measure (\<lambda>(m, pt, phys, q). 1024 - q)") auto

text \<open>Here the table pointer is the directory entry itself, flag bits included.\<close>

function phys_to_virt_pd :: "mem \<Rightarrow> u32 \<Rightarrow> u32 \<Rightarrow> nat \<Rightarrow> u32" where
  "phys_to_virt_pd m pd phys i =
     (if i < 1024
      then let e = load32 m (pd + 4 * of_nat i) in
        if e AND NOT 0x3FF \<noteq> 0
        then (case phys_to_virt_pt m e phys 0 of
                Some q \<Rightarrow> push_bit 22 (of_nat i) + push_bit 12 (of_nat q)
              | None \<Rightarrow> phys_to_virt_pd m pd phys (i + 1))
        else phys_to_virt_pd m pd phys (i + 1)
      else 0)"
  by pat_completeness auto
termination
  by (relation "measure (\<lambda>(m, pd, phys, i). 1024 - i)") auto

definition phys_to_virt :: "mem \<Rightarrow> u32 \<Rightarrow> u32 \<Rightarrow> u32" where
  "phys_to_virt m pd phys = phys_to_virt_pd m pd phys 0"

definition paging_unmap :: "u32 \<Rightarrow> u32 \<Rightarrow> 'a paging_state_scheme \<Rightarrow> u32 \<times> 'a paging_state_scheme" where
  "paging_unmap dir virt s =
     (let pdi = drop_bit 22 virt;
          pti = drop_bit 12 virt AND 0x3FF;
          pt = load32 (mem s) (dir + 4 * pdi) AND NOT 0x3FF
      in if pt \<noteq> 0
         then (1, s\<lparr>mem := store32 (mem s) (pt + 4 * pti) 0, invlpg := virt # invlpg s\<rparr>)
         else (0, s))"

definition paging_map ::
  "u32 \<Rightarrow> u32 \<Rightarrow> u32 \<Rightarrow> u32 \<Rightarrow> 'a mm_state_scheme \<Rightarrow> 'a mm_state_scheme" where
  "paging_map dir phys virt flags s =
     (let pdi = drop_bit 22 virt;
          pti = drop_bit 12 virt AND 0x3FF;
          (pt, s) =
            (if load32 (mem s) (dir + 4 * pdi) AND NOT 0x3FF \<noteq> 0
             then (P2V (load32 (mem s) (dir + 4 * pdi) AND NOT 0x3FF), s)
             else mm_alloc 0x1000 s);
          m = store32 (mem s) (pt + 4 * pti) (phys OR flags);
          m = store32 m (dir + 4 * pdi) (V2P pt OR flags)
      in s\<lparr>mem := m\<rparr>)"

definition map_on_demand :: "u32 \<Rightarrow> u32 \<Rightarrow> u32 \<Rightarrow> 'a mm_state_scheme \<Rightarrow> 'a mm_state_scheme" where
  "map_on_demand dir virt flags s =
     (let flags = flags AND NOT PF_PRESENT;
          flags = flags OR 0x200
      in paging_map dir 0xDEAD0000 virt flags s)"

definition k_map_on_demand :: "u32 \<Rightarrow> u32 \<Rightarrow> 'a paging_state_scheme \<Rightarrow> 'a paging_state_scheme" where
  "k_map_on_demand virt flags s = map_on_demand (CURRENT_PAGE_DIRECTORY s) virt flags s"

definition k_virt_to_phys :: "u32 \<Rightarrow> 'a paging_state_scheme \<Rightarrow> u32" where
  "k_virt_to_phys virt s = virt_to_phys (mem s) (CURRENT_PAGE_DIRECTORY s) virt"

definition k_phys_to_virt :: "u32 \<Rightarrow> 'a paging_state_scheme \<Rightarrow> u32" where
  "k_phys_to_virt phys s = phys_to_virt (mem s) (CURRENT_PAGE_DIRECTORY s) phys"

definition k_paging_init :: "u32 \<Rightarrow> 'a paging_state_scheme \<Rightarrow> 'a paging_state_scheme" where
  "k_paging_init dir_addr s =
     (let s = s\<lparr>KERNEL_PAGE_DIRECTORY := dir_addr, CURRENT_PAGE_DIRECTORY := dir_addr\<rparr>
      in k_swap_pd (CURRENT_PAGE_DIRECTORY s) s)"

definition k_paging_map :: "u32 \<Rightarrow> u32 \<Rightarrow> u32 \<Rightarrow> 'a paging_state_scheme \<Rightarrow> 'a paging_state_scheme" where
  "k_paging_map phys virt flags s = paging_map (CURRENT_PAGE_DIRECTORY s) phys virt flags s"

definition k_paging_unmap :: "u32 \<Rightarrow> 'a paging_state_scheme \<Rightarrow> u32 \<times> 'a paging_state_scheme" where
  "k_paging_unmap virt s = paging_unmap (CURRENT_PAGE_DIRECTORY s) virt s"

function copy_pt :: "mem \<Rightarrow> u32 \<Rightarrow> u32 \<Rightarrow> nat \<Rightarrow> mem" where
  "copy_pt m dest_pt src_pt q =
     (if q < 1024
      then let e = load32 m (src_pt + 4 * of_nat q);
               m = (if e AND NOT 0x3FF \<noteq> 0 then store32 m (dest_pt + 4 * of_nat q) e else m)
           in copy_pt m dest_pt src_pt (q + 1)
      else m)"
  by pat_completeness auto
termination
  by (relation "measure (\<lambda>(m, dest_pt, src_pt, q). 1024 - q)") auto

text \<open>
  \<^verbatim>\<open>mm_alloc(0x1000) - KERNEL_VIRT\<close> is arithmetic on a \<^verbatim>\<open>uint32_t*\<close>.  The second counter of
  such a loop is the number of entries left, \<open>1024 - i\<close>.
\<close>

definition copy_pagedir_entry :: "u32 \<Rightarrow> u32 \<Rightarrow> nat \<Rightarrow> 'a mm_state_scheme \<Rightarrow> 'a mm_state_scheme" where
  "copy_pagedir_entry dest src i s =
     (let e = load32 (mem s) (src + 4 * of_nat i) in
      if e AND NOT 0x3FF \<noteq> 0
      then let src_pt = e AND NOT 0x3FF;
               d = load32 (mem s) (dest + 4 * of_nat i) AND NOT 0x3FF;
               (dest_pt, s) =
                 (if d \<noteq> 0 then (d, s)
                  else let (a, s) = mm_alloc 0x1000 s in (a - 4 * KERNEL_VIRT, s));
               m = copy_pt (mem s) dest_pt src_pt 0;
               m = store32 m (dest + 4 * of_nat i) (dest_pt OR PF_PRESENT)
           in s\<lparr>mem := m\<rparr>
      else s)"

fun copy_pagedir_loop :: "u32 \<Rightarrow> u32 \<Rightarrow> nat \<Rightarrow> nat \<Rightarrow> 'a mm_state_scheme \<Rightarrow> 'a mm_state_scheme" where
  "copy_pagedir_loop dest src i 0 s = s"
| "copy_pagedir_loop dest src i (Suc n) s =
     copy_pagedir_loop dest src (i + 1) n (copy_pagedir_entry dest src i s)"

definition k_copy_pagedir :: "u32 \<Rightarrow> u32 \<Rightarrow> 'a mm_state_scheme \<Rightarrow> u32 \<times> 'a mm_state_scheme" where
  "k_copy_pagedir dest src s = (src, copy_pagedir_loop dest src 0 1024 s)"

definition free_pte :: "u32 \<Rightarrow> nat \<Rightarrow> 'a mm_state_scheme \<Rightarrow> 'a mm_state_scheme" where
  "free_pte pt q s =
     (let e = load32 (mem s) (pt + 4 * of_nat q) AND NOT 0x3FF
      in if 0x00400000 < e then snd (k_page_free e s) else s)"

fun free_pt :: "u32 \<Rightarrow> nat \<Rightarrow> nat \<Rightarrow> 'a mm_state_scheme \<Rightarrow> 'a mm_state_scheme" where
  "free_pt pt q 0 s = s"
| "free_pt pt q (Suc n) s = free_pt pt (q + 1) n (free_pte pt q s)"

definition free_pde :: "u32 \<Rightarrow> nat \<Rightarrow> 'a mm_state_scheme \<Rightarrow> 'a mm_state_scheme" where
  "free_pde pd i s =
     (let pt = load32 (mem s) (pd + 4 * of_nat i) AND NOT 0x3FF
      in if pt \<noteq> 0 then snd (k_page_free pt (free_pt pt 0 1024 s)) else s)"

fun free_pagedir_loop :: "u32 \<Rightarrow> nat \<Rightarrow> nat \<Rightarrow> 'a mm_state_scheme \<Rightarrow> 'a mm_state_scheme" where
  "free_pagedir_loop pd i 0 s = s"
| "free_pagedir_loop pd i (Suc n) s = free_pagedir_loop pd (i + 1) n (free_pde pd i s)"

definition free_pagedir :: "u32 \<Rightarrow> 'a mm_state_scheme \<Rightarrow> 'a mm_state_scheme" where
  "free_pagedir pd s = snd (k_page_free pd (free_pagedir_loop pd 0 1024 s))"

text \<open>\<^verbatim>\<open>for (i = 0; i < 0x00400000; i += 0x1000)\<close> makes 1024 steps.\<close>

fun map_kernel_loop :: "u32 \<Rightarrow> u32 \<Rightarrow> nat \<Rightarrow> 'a mm_state_scheme \<Rightarrow> 'a mm_state_scheme" where
  "map_kernel_loop pd i 0 s = s"
| "map_kernel_loop pd i (Suc n) s =
     map_kernel_loop pd (i + 0x1000) n (paging_map pd i (i + KERNEL_VIRT) 0x3 s)"

definition k_map_kernel :: "u32 \<Rightarrow> 'a mm_state_scheme \<Rightarrow> 'a mm_state_scheme" where
  "k_map_kernel pd s = map_kernel_loop pd 0 (0x00400000 div 0x1000) s"

declare phys_to_virt_pt.simps [simp del] phys_to_virt_pd.simps [simp del] copy_pt.simps [simp del]

section \<open>Arrays of 1024 cells\<close>

text \<open>\<open>dj a n b k\<close>: the \<open>n\<close> bytes at \<open>a\<close> and the \<open>k\<close> bytes at \<open>b\<close> are one below the other.\<close>

definition dj :: "u32 \<Rightarrow> nat \<Rightarrow> u32 \<Rightarrow> nat \<Rightarrow> bool" where
  "dj a n b k \<longleftrightarrow> unat a + n \<le> unat b \<and> unat b + k \<le> 2 ^ 32 \<or>
                 unat b + k \<le> unat a \<and> unat a + n \<le> 2 ^ 32"

lemma dj_off: "dj a n b k \<Longrightarrow> off a c < n \<Longrightarrow> k \<le> off b c"
  unfolding dj_def using off_apart [of a n b k c] off_apart [of b k a n c] by blast

lemma dj_sym: "dj a n b k \<longleftrightarrow> dj b k a n"
  by (auto simp: dj_def)

definition pdi :: "u32 \<Rightarrow> nat" where
  "pdi v = unat v div 2 ^ 22"

definition pti :: "u32 \<Rightarrow> nat" where
  "pti v = unat v div 2 ^ 12 mod 1024"

lemma pdi_less [simp]: "pdi v < 1024"
  using unsigned_less [of v, where ?'a = nat] by (simp add: pdi_def less_mult_imp_div_less)

lemma pti_less [simp]: "pti v < 1024"
  by (simp add: pti_def)

lemma idx_word: "a + 4 * w = c32.idx a (unat w)"
  by (simp add: c32.idx_def)

lemma idx_pdi: "a + 4 * drop_bit 22 v = c32.idx a (pdi v)"
  unfolding idx_word by (simp only: unat_drop_bit pdi_def)

lemma idx_pti: "a + 4 * (drop_bit 12 v AND 0x3FF) = c32.idx a (pti v)"
proof -
  have m: "(0x3FF :: u32) = mask 10" by (simp add: mask_eq_exp_minus_1)
  have "unat (drop_bit 12 v AND 0x3FF) = pti v"
    unfolding m unat_and_mask unat_drop_bit by (simp add: pti_def)
  then show ?thesis by (simp only: idx_word)
qed

text \<open>What the two stores of \<^verbatim>\<open>_paging_map\<close> do to the table, the directory and the rest.\<close>

lemma two_stores:
  fixes m :: mem and v w :: u32
  assumes T: "dj T 4096 D 4096" and i: "i < 1024" "q < 1024"
  defines "m' \<equiv> store32 (store32 m (c32.idx T q) v) (c32.idx D i) w"
  shows "j < 1024 \<Longrightarrow> load32 m' (c32.idx D j) = (if j = i then w else load32 m (c32.idx D j))"
    and "j < 1024 \<Longrightarrow> load32 m' (c32.idx T j) = (if j = q then v else load32 m (c32.idx T j))"
    and "4096 \<le> off T c \<Longrightarrow> 4096 \<le> off D c \<Longrightarrow> m' c = m c"
    and "dj U 4096 T 4096 \<Longrightarrow> dj U 4096 D 4096 \<Longrightarrow> j < 1024 \<Longrightarrow>
      load32 m' (c32.idx U j) = load32 m (c32.idx U j)"
proof -
  have fr1: "store32 m a x c = m c" if "4096 \<le> off b c" "a = c32.idx b k" "k < 1024" for m a x b k c
    using that c32.st_idx_frame [of k 1024 b c m x] by simp
  show "j < 1024 \<Longrightarrow> load32 m' (c32.idx D j) = (if j = i then w else load32 m (c32.idx D j))"
  proof -
    assume j: "j < 1024"
    have "load32 (store32 m (c32.idx T q) v) (c32.idx D j) = load32 m (c32.idx D j)"
      using j i dj_off [OF T [unfolded dj_sym [of T]]]
      by (intro c32.arr_cong [where n = 1024]) (auto intro!: fr1 [where b = T])
    then show ?thesis
      unfolding m'_def using j i by (simp add: c32.ld_st_idx [where n = 1024])
  qed
  have out: "m' c = store32 m (c32.idx T q) v c" if "4096 \<le> off D c" for c
    unfolding m'_def using i that by (intro fr1 [where b = D]) auto
  show "4096 \<le> off T c \<Longrightarrow> 4096 \<le> off D c \<Longrightarrow> m' c = m c" for c
    using out [of c] i by (simp add: fr1 [where b = T])
  show "j < 1024 \<Longrightarrow> load32 m' (c32.idx T j) = (if j = q then v else load32 m (c32.idx T j))"
  proof -
    assume j: "j < 1024"
    have "load32 m' (c32.idx T j) = load32 (store32 m (c32.idx T q) v) (c32.idx T j)"
      using j dj_off [OF T] out by (intro c32.arr_cong [where n = 1024]) auto
    then show ?thesis using j i by (simp add: c32.ld_st_idx [where n = 1024])
  qed
  show "dj U 4096 T 4096 \<Longrightarrow> dj U 4096 D 4096 \<Longrightarrow> j < 1024 \<Longrightarrow>
      load32 m' (c32.idx U j) = load32 m (c32.idx U j)"
    using out i dj_off [of U 4096 T 4096] dj_off [of U 4096 D 4096]
    by (intro c32.arr_cong [where n = 1024]) (auto simp: fr1 [where b = T])
qed

section \<open>Directories and their tables\<close>

definition pde :: "mem \<Rightarrow> u32 \<Rightarrow> nat \<Rightarrow> u32" where
  "pde m D i = load32 m (c32.idx D i) AND NOT 0x3FF"

definition tbl :: "mem \<Rightarrow> u32 \<Rightarrow> nat \<Rightarrow> u32" where
  "tbl m D i = P2V (pde m D i)"

text \<open>
  \<open>tables_ok m D lim\<close>: the directory at \<open>D\<close> and the tables its first 1022 entries hold lie below
  \<open>lim\<close>, no two of them overlap, and the tables are in the first gigabyte of physical memory.
  The last two entries are the ones \<^verbatim>\<open>k_create_pagedir\<close> points at directories.
\<close>

definition tables_ok :: "mem \<Rightarrow> u32 \<Rightarrow> nat \<Rightarrow> bool" where
  "tables_ok m D lim \<longleftrightarrow> 8192 \<le> unat D \<and> unat D + 4096 \<le> lim \<and> lim \<le> 0xC0400000 \<and>
     (\<forall>i < 1022. pde m D i \<noteq> 0 \<longrightarrow>
        pde m D i < 0x40000000 \<and> unat (tbl m D i) + 4096 \<le> lim \<and> dj (tbl m D i) 4096 D 4096 \<and>
        (\<forall>j < 1022. pde m D j \<noteq> 0 \<longrightarrow> j \<noteq> i \<longrightarrow> dj (tbl m D i) 4096 (tbl m D j) 4096))"

lemma tables_okD:
  assumes "tables_ok m D lim" "i < 1022" "pde m D i \<noteq> 0"
  shows "pde m D i < 0x40000000" "unat (tbl m D i) + 4096 \<le> lim" "dj (tbl m D i) 4096 D 4096"
    "j < 1022 \<Longrightarrow> pde m D j \<noteq> 0 \<Longrightarrow> j \<noteq> i \<Longrightarrow> dj (tbl m D i) 4096 (tbl m D j) 4096"
  using assms by (auto simp: tables_ok_def)

lemma tables_ok_cong:
  assumes "tables_ok m D lim" "\<And>c. off D c < 4096 \<Longrightarrow> m' c = m c" "lim \<le> lim'" "lim' \<le> 0xC0400000"
  shows "tables_ok m' D lim'" "i < 1024 \<Longrightarrow> pde m' D i = pde m D i"
proof -
  have *: "i < 1024 \<Longrightarrow> pde m' D i = pde m D i" for i
    unfolding pde_def using assms(2) c32.arr_cong [of D 1024 m' m i] by simp
  then show "i < 1024 \<Longrightarrow> pde m' D i = pde m D i" for i .
  from * have **: "i < 1022 \<Longrightarrow> pde m' D i = pde m D i \<and> tbl m' D i = tbl m D i" for i
    by (simp add: tbl_def)
  show "tables_ok m' D lim'"
    using assms(1,3,4) ** unfolding tables_ok_def by (simp cong: imp_cong) (meson order_trans)
qed

lemma virt_to_phys_tbl: "virt_to_phys m D v = load32 m (c32.idx (tbl m D (pdi v)) (pti v))"
proof -
  have "(if P then 1 else 0) AND NOT 0x3FF = (0 :: u32)" for P by simp
  then show ?thesis
    unfolding virt_to_phys_def Let_def idx_pdi idx_pti by (simp only: tbl_def pde_def) simp
qed

text \<open>Bits below 1 KB of an entry are flags: they do not move the table.\<close>

lemma mask_or_flags:
  assumes "f AND NOT 0x3FF = (0 :: u32)"
  shows "(a OR f) AND NOT 0x3FF = a AND NOT 0x3FF"
proof -
  have "(a OR f) AND NOT 0x3FF = (a AND NOT 0x3FF) OR (f AND NOT 0x3FF)"
    by (rule bit_word_eqI) (auto simp: bit_simps)
  then show ?thesis using assms by simp
qed

lemma mask_mask: "(a AND NOT 0x3FF) AND NOT 0x3FF = a AND NOT (0x3FF :: u32)"
  by (simp add: and.assoc)

lemma pde_masked: "pde m D i AND NOT 0x3FF = pde m D i"
  by (simp only: pde_def mask_mask)

lemma same_page: "pdi u = pdi v \<and> pti u = pti v \<longleftrightarrow> unat u div 4096 = unat v div 4096"
proof -
  have d: "unat w div 4096 div 1024 = pdi w" "unat w div 4096 mod 1024 = pti w" for w :: u32
    by (simp_all add: pdi_def pti_def div_mult2_eq [symmetric])
  have "unat v div 4096 = 1024 * pdi v + pti v"
    using div_mult_mod_eq [of "unat v div 4096" 1024] by (simp only: d mult.commute)
  then show ?thesis
    using div_mod_unique [OF pti_less [of v], of "unat u div 4096" "pdi v"] by (simp only: d)
qed

text \<open>\<open>set_page D T p v f m\<close>: the two stores, with the table at \<open>T\<close>.\<close>

definition set_page :: "u32 \<Rightarrow> u32 \<Rightarrow> u32 \<Rightarrow> u32 \<Rightarrow> u32 \<Rightarrow> mem \<Rightarrow> mem" where
  "set_page D T p v f m = store32 (store32 m (c32.idx T (pti v)) (p OR f)) (c32.idx D (pdi v)) (V2P T OR f)"

lemma paging_map_eq:
  "paging_map D p v f s =
     (if pde (mem s) D (pdi v) \<noteq> 0 then s\<lparr>mem := set_page D (tbl (mem s) D (pdi v)) p v f (mem s)\<rparr>
      else let (T, t) = mm_alloc 0x1000 s in t\<lparr>mem := set_page D T p v f (mem t)\<rparr>)"
  unfolding paging_map_def Let_def idx_pdi idx_pti set_page_def pde_def tbl_def
  by (simp split: prod.split)

lemma set_page_pde:
  assumes "dj T 4096 D 4096" "f AND NOT 0x3FF = 0" "i < 1024"
  shows "pde (set_page D T p v f m) D i = (if i = pdi v then V2P T AND NOT 0x3FF else pde m D i)"
  using two_stores(1) [OF assms(1) pdi_less pti_less assms(3)]
  by (simp only: set_page_def pde_def) (auto simp only: mask_or_flags [OF assms(2)] split: if_splits)

lemma set_page_frame:
  assumes "dj T 4096 D 4096" "4096 \<le> off T c" "4096 \<le> off D c"
  shows "set_page D T p v f m c = m c"
  unfolding set_page_def by (rule two_stores(3) [OF assms(1) pdi_less pti_less assms(2,3)])

lemma set_page_load:
  assumes "dj T 4096 D 4096" "j < 1024"
  shows "load32 (set_page D T p v f m) (c32.idx T j) = (if j = pti v then p OR f else load32 m (c32.idx T j))"
    and "dj U 4096 T 4096 \<Longrightarrow> dj U 4096 D 4096 \<Longrightarrow>
      load32 (set_page D T p v f m) (c32.idx U j) = load32 m (c32.idx U j)"
  unfolding set_page_def
  by (rule two_stores(2) [OF assms(1) pdi_less pti_less assms(2)])
    (rule two_stores(4) [OF assms(1) pdi_less pti_less _ _ assms(2)])

text \<open>Through a table that is there: exactly the page mapped changes.\<close>

lemma set_page_present:
  fixes p :: u32
  assumes ok: "tables_ok m D lim" and v: "pdi v < 1022" "pde m D (pdi v) \<noteq> 0"
    and f: "f AND NOT 0x3FF = 0"
  defines "m' \<equiv> set_page D (tbl m D (pdi v)) p v f m"
  shows "i < 1024 \<Longrightarrow> pde m' D i = pde m D i" and "tables_ok m' D lim"
    and "pdi u < 1022 \<Longrightarrow> pde m D (pdi u) \<noteq> 0 \<Longrightarrow>
      virt_to_phys m' D u = (if unat u div 4096 = unat v div 4096 then p OR f else virt_to_phys m D u)"
proof -
  let ?T = "tbl m D (pdi v)"
  note T = tables_okD [OF ok v]
  have V: "V2P ?T AND NOT 0x3FF = pde m D (pdi v)"
    unfolding tbl_def V2P_P2V [OF T(1)] by (rule pde_masked)
  show pde: "pde m' D i = pde m D i" if "i < 1024" for i
    unfolding m'_def set_page_pde [OF T(3) f that] V by simp
  then have tbl: "tbl m' D i = tbl m D i" if "i < 1024" for i
    using that by (simp only: tbl_def)
  show "tables_ok m' D lim"
    using ok unfolding tables_ok_def by (simp add: pde tbl)
  assume u: "pdi u < 1022" "pde m D (pdi u) \<noteq> 0"
  show "virt_to_phys m' D u = (if unat u div 4096 = unat v div 4096 then p OR f else virt_to_phys m D u)"
  proof (cases "pdi u = pdi v")
    case True
    then show ?thesis
      using set_page_load(1) [OF T(3)]
      by (simp add: virt_to_phys_tbl tbl flip: same_page) (simp add: m'_def)
  next
    case False
    then show ?thesis
      using set_page_load(2) [OF T(3) _ tables_okD(4) [OF ok u v] tables_okD(3) [OF ok u]]
      by (simp add: virt_to_phys_tbl tbl flip: same_page) (simp add: m'_def)
  qed
qed

text \<open>Through a new table at \<open>T\<close>, above everything: the page is mapped, present ones keep theirs.\<close>

lemma set_page_new:
  fixes p :: u32
  assumes ok: "tables_ok m D lim" and v: "pdi v < 1022" "pde m D (pdi v) = 0"
    and f: "f AND NOT 0x3FF = 0"
    and T: "lim \<le> unat T" "unat T + 4096 \<le> lim'" "lim' \<le> 0xC0400000" "KERNEL_VIRT < T" "1024 dvd unat T"
  defines "m' \<equiv> set_page D T p v f m"
  shows "i < 1024 \<Longrightarrow> pde m' D i = (if i = pdi v then V2P T else pde m D i)" and "tables_ok m' D lim'"
    and "pde m' D (pdi v) \<noteq> 0" and "virt_to_phys m' D v = p OR f"
    and "pdi u < 1022 \<Longrightarrow> pde m D (pdi u) \<noteq> 0 \<Longrightarrow> virt_to_phys m' D u = virt_to_phys m D u"
proof -
  have D: "dj T 4096 D 4096" using ok T by (auto simp: tables_ok_def dj_def)
  have kv: "unat KERNEL_VIRT = 0xC0000000" by (simp add: KERNEL_VIRT_def)
  have uT: "unat (V2P T) = unat T - 0xC0000000"
    using T(4) kv by (simp add: V2P_def unat_sub word_le_nat_alt word_less_nat_alt)
  have ne: "V2P T \<noteq> 0" using uT T(4) kv by (auto simp: word_less_nat_alt)
  have m: "(0x3FF :: u32) = mask 10" by (simp add: mask_eq_exp_minus_1)
  have "1024 dvd unat (V2P T)" unfolding uT using T(5) by (intro dvd_diff_nat) auto
  then have "unat (V2P T AND NOT 0x3FF) = unat (V2P T)"
    unfolding m unat_and_not_mask by (simp add: dvd_div_mult_self)
  then have V: "V2P T AND NOT 0x3FF = V2P T" by (simp only: word_unat_eq_iff)
  show pde: "pde m' D i = (if i = pdi v then V2P T else pde m D i)" if "i < 1024" for i
    unfolding m'_def set_page_pde [OF D f that] V ..
  then show "pde m' D (pdi v) \<noteq> 0" using ne by simp
  have kvT: "KERNEL_VIRT \<le> T" using T(4) by simp
  have tbl: "tbl m' D i = (if i = pdi v then T else tbl m D i)" if "i < 1024" for i
    using that pde [OF that] P2V_V2P [OF kvT] by (simp add: tbl_def)
  have old: "pde m D i < 0x40000000 \<and> unat (tbl m D i) + 4096 \<le> lim' \<and> dj (tbl m D i) 4096 D 4096 \<and>
      dj (tbl m D i) 4096 T 4096 \<and> dj T 4096 (tbl m D i) 4096"
    if "i < 1022" "pde m D i \<noteq> 0" for i
    using tables_okD [OF ok that] T by (auto simp: dj_def)
  have "V2P T < 0x40000000" using T(2,3) uT by (simp add: word_less_nat_alt)
  then show "tables_ok m' D lim'"
    using ok T D old unfolding tables_ok_def by (auto simp: pde tbl)
  show "virt_to_phys m' D v = p OR f"
    using set_page_load(1) [OF D] by (simp add: virt_to_phys_tbl tbl) (simp add: m'_def)
  assume u: "pdi u < 1022" "pde m D (pdi u) \<noteq> 0"
  then have "pdi u \<noteq> pdi v" using v by metis
  then show "virt_to_phys m' D u = virt_to_phys m D u"
    using set_page_load(2) [OF D] old [OF u] by (simp add: virt_to_phys_tbl tbl) (simp add: m'_def)
qed

section \<open>Where everything lies\<close>

text \<open>
  \<open>layout\<close>: the two bitmaps, the current directory and its tables are pairwise disjoint and
  below the early heap pointer, which is page aligned.  \<open>client s c n\<close>: the \<open>n\<close> bytes at \<open>c\<close> are
  below the pointer too and belong to none of them.
\<close>

definition layout :: "'a paging_state_scheme \<Rightarrow> bool" where
  "layout s \<longleftrightarrow> mm_inv s \<and> 4096 dvd unat (MM_HEAP s) \<and> 0xC0000000 < unat (MM_HEAP s) \<and>
     tables_ok (mem s) (CURRENT_PAGE_DIRECTORY s) (unat (MM_HEAP s)) \<and>
     dj (CURRENT_PAGE_DIRECTORY s) 4096 (MM_CURRENT_PD s) 128 \<and>
     dj (CURRENT_PAGE_DIRECTORY s) 4096 (MM_CURRENT_PT s) 128 \<and>
     (\<forall>i < 1022. pde (mem s) (CURRENT_PAGE_DIRECTORY s) i \<noteq> 0 \<longrightarrow>
        dj (tbl (mem s) (CURRENT_PAGE_DIRECTORY s) i) 4096 (MM_CURRENT_PD s) 128 \<and>
        dj (tbl (mem s) (CURRENT_PAGE_DIRECTORY s) i) 4096 (MM_CURRENT_PT s) 128)"

definition client :: "'a paging_state_scheme \<Rightarrow> u32 \<Rightarrow> nat \<Rightarrow> bool" where
  "client s c n \<longleftrightarrow> 8192 \<le> unat c \<and> unat c + n \<le> unat (MM_HEAP s) \<and>
     dj c n (MM_CURRENT_PD s) 128 \<and> dj c n (MM_CURRENT_PT s) 128 \<and>
     dj c n (CURRENT_PAGE_DIRECTORY s) 4096 \<and>
     (\<forall>i < 1022. pde (mem s) (CURRENT_PAGE_DIRECTORY s) i \<noteq> 0 \<longrightarrow>
        dj c n (tbl (mem s) (CURRENT_PAGE_DIRECTORY s) i) 4096)"

text \<open>What every step of the heap's growth leaves alone.\<close>

definition keeps :: "'a paging_state_scheme \<Rightarrow> 'a paging_state_scheme \<Rightarrow> bool" where
  "keeps s s' \<longleftrightarrow> mm_state.more s' = mm_state.more s \<and> indet s' = indet s \<and>
     (\<forall>c n. client s c n \<longrightarrow> client s' c n \<and> (\<forall>a. off c a < n \<longrightarrow> mem s' a = mem s a))"

lemma keeps_refl: "keeps s s"
  by (simp add: keeps_def)

lemma keeps_trans: "keeps s t \<Longrightarrow> keeps t u \<Longrightarrow> keeps s u"
  unfolding keeps_def by metis

lemma more_fields:
  fixes s s' :: "'a paging_state_scheme"
  assumes "mm_state.more s' = mm_state.more s"
  shows "KERNEL_PAGE_DIRECTORY s' = KERNEL_PAGE_DIRECTORY s"
    "CURRENT_PAGE_DIRECTORY s' = CURRENT_PAGE_DIRECTORY s" "paging_state.more s' = paging_state.more s"
  using assms by (cases s; cases s'; simp)+

text \<open>Allocating a page.\<close>

lemma apart_new_bitmap:
  assumes "8192 \<le> unat c" "unat c + n \<le> unat (MM_HEAP s)" "mm_inv s" "dj c n (MM_CURRENT_PT s) 128"
    and "b = MM_CURRENT_PT s \<or> b = 0 \<or> b = MM_HEAP s"
  shows "dj c n b 128"
  using assms by (auto simp: dj_def mm_inv_def)

lemma k_page_alloc_keeps:
  assumes lay: "layout s" and al: "k_page_alloc s = Some (r, s')"
  shows "layout s' \<and> keeps s s'"
proof -
  let ?D = "CURRENT_PAGE_DIRECTORY s"
  have inv: "mm_inv s" using lay by (simp add: layout_def)
  obtain m h b where s': "s' = s\<lparr>MM_HEAP := h, mem := m, MM_CURRENT_PT := b\<rparr>"
    and hb: "b = MM_CURRENT_PT s \<and> h = MM_HEAP s \<or> b = 0 \<and> h = MM_HEAP s \<or>
      b = MM_HEAP s \<and> unat h = unat (MM_HEAP s) + 0x4000"
    and m: "\<And>c. 128 \<le> off (MM_CURRENT_PD s) c \<Longrightarrow> 128 \<le> off (MM_CURRENT_PT s) c \<Longrightarrow>
      128 \<le> off b c \<Longrightarrow> m c = mem s c"
    by (rule k_page_alloc_effect [OF inv al], rule that)
  have inv': "mm_inv s'" using k_page_alloc_total [OF inv] al by auto
  have hle: "unat (MM_HEAP s) \<le> unat h" using hb by auto
  have b: "dj c n b 128" "\<And>a. off c a < n \<Longrightarrow> m a = mem s a"
    if "8192 \<le> unat c" "unat c + n \<le> unat (MM_HEAP s)" "dj c n (MM_CURRENT_PD s) 128"
      "dj c n (MM_CURRENT_PT s) 128" for c n
  proof -
    show "dj c n b 128" using apart_new_bitmap [OF that(1,2) inv that(4)] hb by blast
    then show "m a = mem s a" if "off c a < n" for a
      using that m [of a] dj_off [of c n _ 128 a] \<open>dj c n (MM_CURRENT_PD s) 128\<close>
        \<open>dj c n (MM_CURRENT_PT s) 128\<close> by blast
  qed
  have ok: "tables_ok (mem s) ?D (unat (MM_HEAP s))" using lay by (simp add: layout_def)
  have D: "8192 \<le> unat ?D" "unat ?D + 4096 \<le> unat (MM_HEAP s)" "dj ?D 4096 (MM_CURRENT_PD s) 128"
    "dj ?D 4096 (MM_CURRENT_PT s) 128"
    using lay ok by (auto simp: layout_def tables_ok_def)
  have h3: "unat h \<le> 0xC0400000" using inv' by (simp add: s' mm_inv_def)
  have pde: "pde m ?D i = pde (mem s) ?D i" "tbl m ?D i = tbl (mem s) ?D i" if "i < 1022" for i
    using tables_ok_cong(2) [OF ok b(2) [OF D] hle h3, of i] that by (simp_all add: tbl_def)
  have ok': "tables_ok m ?D (unat h)" by (rule tables_ok_cong(1) [OF ok b(2) [OF D] hle h3])
  have T: "dj (tbl (mem s) ?D i) 4096 b 128" if "i < 1022" "pde (mem s) ?D i \<noteq> 0" for i
  proof (rule b(1))
    have "KERNEL_VIRT \<le> tbl (mem s) ?D i"
      using tables_okD(1) [OF ok that] unfolding tbl_def P2V_def KERNEL_VIRT_def by unat_arith auto
    then show "8192 \<le> unat (tbl (mem s) ?D i)" by (simp add: KERNEL_VIRT_def word_le_nat_alt)
  qed (use tables_okD [OF ok that] lay that in \<open>auto simp: layout_def\<close>)
  have "4096 dvd unat h" using lay hb by (auto simp: layout_def intro: dvd_add)
  then have "layout s'"
    using lay inv' ok' b(1) [OF D] hle T pde by (auto simp: layout_def s')
  moreover have "keeps s s'"
    unfolding keeps_def s' using b pde hle by (auto simp: client_def)
  ultimately show ?thesis ..
qed

text \<open>Mapping a page: through a present table, a new one, or, the early heap being full, none.\<close>

lemma tbl_high:
  assumes "tables_ok m D lim" "i < 1022" "pde m D i \<noteq> 0"
  shows "0xC0000000 \<le> unat (tbl m D i)"
proof -
  have "KERNEL_VIRT \<le> tbl m D i"
    using tables_okD(1) [OF assms] unfolding tbl_def P2V_def KERNEL_VIRT_def by unat_arith auto
  then show ?thesis by (simp add: KERNEL_VIRT_def word_le_nat_alt)
qed

lemma k_paging_map_present:
  assumes lay: "layout s" and v: "pdi v < 1022" "pde (mem s) (CURRENT_PAGE_DIRECTORY s) (pdi v) \<noteq> 0"
    and f: "f AND NOT 0x3FF = 0"
  shows "layout (k_paging_map p v f s) \<and> keeps s (k_paging_map p v f s)"
proof -
  let ?D = "CURRENT_PAGE_DIRECTORY s" and ?T = "tbl (mem s) (CURRENT_PAGE_DIRECTORY s) (pdi v)"
  have ok: "tables_ok (mem s) ?D (unat (MM_HEAP s))" using lay by (simp add: layout_def)
  define m where "m = set_page ?D ?T p v f (mem s)"
  have s': "k_paging_map p v f s = s\<lparr>mem := m\<rparr>"
    using v by (simp add: k_paging_map_def paging_map_eq m_def)
  note m = set_page_present [OF ok v f, where p = p, folded m_def]
  have tbl: "tbl m ?D i = tbl (mem s) ?D i" if "i < 1022" for i using m(1) [of i] that by (simp add: tbl_def)
  have "layout (s\<lparr>mem := m\<rparr>)" using lay m(1,2) tbl by (simp add: layout_def mm_inv_def)
  moreover have "keeps s (s\<lparr>mem := m\<rparr>)"
  proof -
    have "m a = mem s a" if "client s c n" "off c a < n" for c n a
      unfolding m_def using that v tables_okD(3) [OF ok v]
        dj_off [of c n ?D 4096 a] dj_off [of c n ?T 4096 a]
      by (intro set_page_frame) (auto simp: client_def)
    then show ?thesis using m(1) tbl by (simp add: keeps_def client_def)
  qed
  ultimately show ?thesis unfolding s' ..
qed

lemma k_paging_map_absent:
  assumes lay: "layout s" and v: "pdi v < 1022" "pde (mem s) (CURRENT_PAGE_DIRECTORY s) (pdi v) = 0"
    and f: "f AND NOT 0x3FF = 0"
  shows "layout (k_paging_map p v f s) \<and> keeps s (k_paging_map p v f s)"
proof -
  let ?D = "CURRENT_PAGE_DIRECTORY s"
  have ok: "tables_ok (mem s) ?D (unat (MM_HEAP s))" using lay by (simp add: layout_def)
  have h: "MM_HEAP s \<noteq> 0" "unat (MM_HEAP s) + 4 * unat (0x1000 :: u32) < 2 ^ 32"
    "unat (MM_HEAP s) < 0xC0304000"
    using lay by (auto simp: layout_def mm_inv_def)
  from h show ?thesis
  proof (cases rule: mm_alloc_cases)
    case full
    define m where "m = set_page ?D 0 p v f (mem s)"
    have s': "k_paging_map p v f s = s\<lparr>mem := m\<rparr>"
      using v full by (simp add: k_paging_map_def paging_map_eq m_def)
    have D: "dj 0 4096 ?D 4096" using ok by (auto simp: tables_ok_def dj_def)
    have z: "V2P 0 = 0" by (simp add: V2P_def KERNEL_VIRT_def)
    have pde: "pde m ?D i = pde (mem s) ?D i" if "i < 1022" for i
      unfolding m_def using set_page_pde [OF D f, where i = i and p = p and v = v] that v z by simp
    then have tbl: "tbl m ?D i = tbl (mem s) ?D i" if "i < 1022" for i using that by (simp add: tbl_def)
    have "layout (s\<lparr>mem := m\<rparr>)" using lay pde tbl by (simp add: layout_def mm_inv_def tables_ok_def)
    moreover have "keeps s (s\<lparr>mem := m\<rparr>)"
    proof -
      have "m a = mem s a" if "client s c n" "off c a < n" for c n a
      proof -
        have "dj c n 0 4096" using that h by (auto simp: client_def dj_def)
        then show ?thesis
          unfolding m_def using that D dj_off [of c n ?D 4096 a] dj_off [of c n 0 4096 a]
          by (intro set_page_frame) (auto simp: client_def)
      qed
      then show ?thesis using pde tbl by (simp add: keeps_def client_def)
    qed
    ultimately show ?thesis unfolding s' ..
  next
    case (ok h')
    let ?T = "MM_HEAP s"
    define m where "m = set_page ?D ?T p v f (mem s)"
    have s': "k_paging_map p v f s = s\<lparr>MM_HEAP := h', mem := m\<rparr>"
      using v ok by (simp add: k_paging_map_def paging_map_eq m_def)
    have h': "unat h' = unat ?T + 0x4000" "unat h' < 0xC0300000" using ok(2,3) by auto
    have T: "unat ?T + 4096 \<le> unat h'" "unat h' \<le> 0xC0400000" "KERNEL_VIRT < ?T" "1024 dvd unat ?T"
      using lay h' by (auto simp: layout_def KERNEL_VIRT_def word_less_nat_alt intro: dvd_trans [of _ 4096])
    note m = set_page_new [OF \<open>tables_ok (mem s) ?D _\<close> v f order_refl T, where p = p, folded m_def]
    have tbl: "tbl m ?D i = (if i = pdi v then ?T else tbl (mem s) ?D i)" if "i < 1022" for i
      using m(1) [of i] that P2V_V2P [of ?T] T(3) by (simp add: tbl_def)
    have pde: "i < 1022 \<Longrightarrow> pde m ?D i = (if i = pdi v then V2P ?T else pde (mem s) ?D i)" for i
      using m(1) [of i] by simp
    have "layout (s\<lparr>MM_HEAP := h', mem := m\<rparr>)"
      unfolding layout_def
    proof (intro conjI allI impI)
      show "mm_inv (s\<lparr>MM_HEAP := h', mem := m\<rparr>)" using lay h' by (simp add: layout_def mm_inv_def)
      show "4096 dvd unat (MM_HEAP (s\<lparr>MM_HEAP := h', mem := m\<rparr>))"
        using lay h' by (auto simp: layout_def intro: dvd_add)
      fix i assume i: "i < 1022" "pde (mem (s\<lparr>MM_HEAP := h', mem := m\<rparr>)) (CURRENT_PAGE_DIRECTORY (s\<lparr>MM_HEAP := h', mem := m\<rparr>)) i \<noteq> 0"
      have "dj ?T 4096 (MM_CURRENT_PD s) 128" "dj ?T 4096 (MM_CURRENT_PT s) 128"
        using lay h' by (auto simp: layout_def mm_inv_def dj_def)
      then have *: "dj (tbl m ?D i) 4096 (MM_CURRENT_PD s) 128 \<and> dj (tbl m ?D i) 4096 (MM_CURRENT_PT s) 128"
        using lay i tbl [OF i(1)] pde [OF i(1)] by (auto simp: layout_def)
      then show "dj (tbl (mem (s\<lparr>MM_HEAP := h', mem := m\<rparr>)) (CURRENT_PAGE_DIRECTORY (s\<lparr>MM_HEAP := h', mem := m\<rparr>)) i) 4096
        (MM_CURRENT_PD (s\<lparr>MM_HEAP := h', mem := m\<rparr>)) 128" by simp
      from * show "dj (tbl (mem (s\<lparr>MM_HEAP := h', mem := m\<rparr>)) (CURRENT_PAGE_DIRECTORY (s\<lparr>MM_HEAP := h', mem := m\<rparr>)) i) 4096
        (MM_CURRENT_PT (s\<lparr>MM_HEAP := h', mem := m\<rparr>)) 128" by simp
    qed (use lay h' m(2) in \<open>simp_all add: layout_def\<close>)
    moreover have "keeps s (s\<lparr>MM_HEAP := h', mem := m\<rparr>)"
    proof -
      have T': "dj c n ?T 4096" if "client s c n" for c n
        using that h' by (auto simp: client_def dj_def)
      have D: "dj ?T 4096 ?D 4096" using \<open>tables_ok (mem s) ?D _\<close> h' by (auto simp: tables_ok_def dj_def)
      have "m a = mem s a" if "client s c n" "off c a < n" for c n a
        unfolding m_def using that D dj_off [of c n ?D 4096 a] dj_off [OF T' [OF that(1)], of a]
        by (intro set_page_frame) (auto simp: client_def)
      moreover have "client (s\<lparr>MM_HEAP := h', mem := m\<rparr>) c n" if "client s c n" for c n
        using that T' [OF that] pde tbl h' by (simp add: client_def)
      ultimately show ?thesis by (simp add: keeps_def)
    qed
    ultimately show ?thesis unfolding s' ..
  qed
qed

lemma k_paging_map_keeps:
  assumes "layout s" "pdi v < 1022" "f AND NOT 0x3FF = 0"
  shows "layout (k_paging_map p v f s) \<and> keeps s (k_paging_map p v f s)"
  using assms k_paging_map_present k_paging_map_absent by blast

section \<open>The source of pages the heap grows from\<close>

text \<open>
  What \<^verbatim>\<open>sbrk\<close> relies on: allocating a page always returns, mapping one below the last 8 MB
  too, and both keep the invariant and whatever \<open>keep\<close> protects.
\<close>

locale page_source =
  fixes inv :: "'s \<Rightarrow> bool" and keep :: "'s \<Rightarrow> 's \<Rightarrow> bool"
    and mapped :: "u32 \<Rightarrow> 's \<Rightarrow> u32"
    and alloc :: "'s \<Rightarrow> (u32 \<times> 's) option"
    and map_page :: "u32 \<Rightarrow> u32 \<Rightarrow> u32 \<Rightarrow> 's \<Rightarrow> 's"
  assumes keep_refl: "keep s s"
    and keep_trans: "keep s t \<Longrightarrow> keep t u \<Longrightarrow> keep s u"
    and alloc_ok: "inv s \<Longrightarrow> \<exists>r s'. alloc s = Some (r, s') \<and> inv s' \<and> keep s s'"
    and map_ok: "inv s \<Longrightarrow> pdi v < 1022 \<Longrightarrow> f AND NOT 0x3FF = 0 \<Longrightarrow>
      inv (map_page p v f s) \<and> keep s (map_page p v f s)"
begin

text \<open>Backing one page: nothing when it is mapped, else a fresh page mapped there.\<close>

lemma back_page:
  assumes "inv s" "pdi v < 1022" "f AND NOT 0x3FF = 0"
  shows "\<exists>s'. (if mapped v s = 0 then do { (p, t) \<leftarrow> alloc s; Some (map_page p v f t) } else Some s) = Some s' \<and>
    inv s' \<and> keep s s'"
proof (cases "mapped v s = 0")
  case True
  obtain p t where t: "alloc s = Some (p, t)" "inv t" "keep s t" using alloc_ok [OF assms(1)] by blast
  with map_ok [OF t(2) assms(2,3), of p] True show ?thesis by (auto intro: keep_trans)
qed (use assms keep_refl in auto)

end

interpretation ps: page_source layout keeps k_virt_to_phys k_page_alloc k_paging_map
proof unfold_locales
  fix s :: "'a paging_state_scheme"
  assume "layout s"
  moreover from this obtain r s' where "k_page_alloc s = Some (r, s')"
    using k_page_alloc_total [of s] by (auto simp: layout_def)
  ultimately show "\<exists>r s'. k_page_alloc s = Some (r, s') \<and> layout s' \<and> keeps s s'"
    using k_page_alloc_keeps by blast
qed (use keeps_refl keeps_trans k_paging_map_keeps in blast)+

section \<open>Mapping and looking up\<close>

text \<open>\<open>dir_ok\<close>: what \<^verbatim>\<open>_paging_map\<close> needs of the directory it is given, current or not.\<close>

definition dir_ok :: "u32 \<Rightarrow> 'a mm_state_scheme \<Rightarrow> bool" where
  "dir_ok D s \<longleftrightarrow> tables_ok (mem s) D (unat (MM_HEAP s)) \<and> 4096 dvd unat (MM_HEAP s) \<and>
     0xC0000000 < unat (MM_HEAP s) \<and> unat (MM_HEAP s) < 0xC0304000"

lemma layout_dir_ok: "layout s \<Longrightarrow> dir_ok (CURRENT_PAGE_DIRECTORY s) s"
  by (simp add: layout_def dir_ok_def mm_inv_def)

text \<open>A page can be mapped when its table is there or the early heap has room for one.\<close>

definition can_map :: "u32 \<Rightarrow> u32 \<Rightarrow> 'a mm_state_scheme \<Rightarrow> bool" where
  "can_map D v s \<longleftrightarrow> pde (mem s) D (pdi v) \<noteq> 0 \<or> unat (MM_HEAP s) + 0x4000 < 0xC0300000"

lemma paging_map_lookup:
  fixes p :: u32
  assumes ok: "dir_ok D s" and v: "pdi v < 1022" "can_map D v s" and f: "f AND NOT 0x3FF = 0"
  defines "s' \<equiv> paging_map D p v f s"
  shows "dir_ok D s'" "pde (mem s') D (pdi v) \<noteq> 0" "virt_to_phys (mem s') D v = p OR f"
    and "pdi u < 1022 \<Longrightarrow> pde (mem s) D (pdi u) \<noteq> 0 \<Longrightarrow> unat u div 4096 \<noteq> unat v div 4096 \<Longrightarrow>
      pde (mem s') D (pdi u) \<noteq> 0 \<and> virt_to_phys (mem s') D u = virt_to_phys (mem s) D u"
proof -
  have t: "tables_ok (mem s) D (unat (MM_HEAP s))" using ok by (simp add: dir_ok_def)
  have "dir_ok D s' \<and> pde (mem s') D (pdi v) \<noteq> 0 \<and> virt_to_phys (mem s') D v = p OR f \<and>
    (\<forall>u. pdi u < 1022 \<longrightarrow> pde (mem s) D (pdi u) \<noteq> 0 \<longrightarrow> unat u div 4096 \<noteq> unat v div 4096 \<longrightarrow>
      pde (mem s') D (pdi u) \<noteq> 0 \<and> virt_to_phys (mem s') D u = virt_to_phys (mem s) D u)"
  proof (cases "pde (mem s) D (pdi v) = 0")
    case False
    have s': "s' = s\<lparr>mem := set_page D (tbl (mem s) D (pdi v)) p v f (mem s)\<rparr>"
      using False by (simp add: s'_def paging_map_eq)
    show ?thesis
      using set_page_present [OF t v(1) False f, where p = p] ok False v(1) by (simp add: s' dir_ok_def)
  next
    case True
    then have room: "unat (MM_HEAP s) + 0x4000 < 0xC0300000" using v(2) by (simp add: can_map_def)
    define h where "h = MM_HEAP s + 0x4000"
    have h: "unat h = unat (MM_HEAP s) + 0x4000" using room by (simp add: h_def unat_word_ariths)
    have nz: "MM_HEAP s \<noteq> 0" using ok by (auto simp: dir_ok_def)
    have al: "mm_alloc 0x1000 s = (MM_HEAP s, s\<lparr>MM_HEAP := h\<rparr>)"
      using room nz by (simp add: mm_alloc_def h_def MM_HEAP_MAX_def word_less_nat_alt unat_word_ariths)
    have s': "s' = s\<lparr>MM_HEAP := h, mem := set_page D (MM_HEAP s) p v f (mem s)\<rparr>"
      using True by (simp add: s'_def paging_map_eq al)
    have T: "unat (MM_HEAP s) + 4096 \<le> unat h" "unat h \<le> 0xC0400000" "KERNEL_VIRT < MM_HEAP s"
      "1024 dvd unat (MM_HEAP s)"
      using ok h room
      by (auto simp: dir_ok_def KERNEL_VIRT_def word_less_nat_alt intro: dvd_trans [of _ 4096])
    note m = set_page_new [OF t v(1) True f order_refl T, where p = p]
    have "dir_ok D s'" using ok h m(2) room by (auto simp: s' dir_ok_def intro: dvd_add)
    then show ?thesis using m(1,3,4,5) by (auto simp: s')
  qed
  then show "dir_ok D s'" "pde (mem s') D (pdi v) \<noteq> 0" "virt_to_phys (mem s') D v = p OR f"
    and "pdi u < 1022 \<Longrightarrow> pde (mem s) D (pdi u) \<noteq> 0 \<Longrightarrow> unat u div 4096 \<noteq> unat v div 4096 \<Longrightarrow>
      pde (mem s') D (pdi u) \<noteq> 0 \<and> virt_to_phys (mem s') D u = virt_to_phys (mem s) D u"
    by blast+
qed

section \<open>Mapping the kernel\<close>

definition kpage :: "nat \<Rightarrow> u32" where
  "kpage k = of_nat (4096 * k) + KERNEL_VIRT"

lemma kpage:
  assumes "k < 1024"
  shows "unat (kpage k) = 0xC0000000 + 4096 * k" "pdi (kpage k) = 768" "unat (kpage k) div 4096 = 786432 + k"
proof -
  show u: "unat (kpage k) = 0xC0000000 + 4096 * k"
    using assms by (simp add: kpage_def KERNEL_VIRT_def unat_word_ariths unat_of_nat take_bit_nat_eq_self)
  show "unat (kpage k) div 4096 = 786432 + k" unfolding u by simp
  then have "unat (kpage k) div 4096 div 1024 = 768" using assms by simp
  then show "pdi (kpage k) = 768" unfolding pdi_def div_mult2_eq [symmetric] by simp
qed

lemma map_kernel_loop_ok:
  assumes "dir_ok D s" "can_map D KERNEL_VIRT s" "j + n \<le> 1024" "0 < j \<Longrightarrow> pde (mem s) D 768 \<noteq> 0"
    and "\<And>k. k < j \<Longrightarrow> virt_to_phys (mem s) D (kpage k) = of_nat (4096 * k) OR 0x3"
  defines "s' \<equiv> map_kernel_loop D (of_nat (4096 * j)) n s"
  shows "dir_ok D s' \<and> (\<forall>k < j + n. virt_to_phys (mem s') D (kpage k) = of_nat (4096 * k) OR 0x3)"
  using assms(1-5) unfolding s'_def
proof (induction n arbitrary: j s)
  case (Suc n)
  let ?t = "paging_map D (of_nat (4096 * j)) (kpage j) 0x3 s"
  have j: "j < 1024" using Suc.prems by simp
  have v: "pdi (kpage j) < 1022" "can_map D (kpage j) s"
    using Suc.prems(2) kpage(2) [OF j] kpage(2) [of 0] by (simp_all add: can_map_def kpage_def)
  have f: "(0x3 :: u32) AND NOT 0x3FF = 0" by simp
  note m = paging_map_lookup [OF Suc.prems(1) v f, where p = "of_nat (4096 * j)"]
  have all: "virt_to_phys (mem ?t) D (kpage k) = of_nat (4096 * k) OR 0x3" if "k < j + 1" for k
  proof (cases "k = j")
    case True
    then show ?thesis using m(3) by simp
  next
    case False
    then have k: "k < j" "k < 1024" using that j by auto
    then show ?thesis
      using m(4) [of "kpage k"] Suc.prems(4,5) kpage [OF j] kpage [OF k(2)] by simp
  qed
  have "dir_ok D ?t" "pde (mem ?t) D 768 \<noteq> 0" using m(1,2) kpage(2) [OF j] by simp_all
  moreover from this have "can_map D KERNEL_VIRT ?t"
    using kpage(2) [of 0] by (simp add: can_map_def kpage_def)
  moreover have "map_kernel_loop D (of_nat (4096 * j)) (Suc n) s = map_kernel_loop D (of_nat (4096 * (j + 1))) n ?t"
    by (simp add: kpage_def algebra_simps)
  ultimately show ?case
    using Suc.IH [of ?t "j + 1"] Suc.prems(3) all by simp
qed simp

section \<open>Properties\<close>

text \<open>An empty directory below the early heap pointer, for the concrete instances.\<close>

definition pg0 :: paging_state where
  "pg0 = \<lparr>mem = (\<lambda>_. 0), indet = 7, MM_CURRENT_PD = 0xC0110000, MM_CURRENT_PT = 0xC0114000,
     MM_HEAP = 0xC0118000, KERNEL_PAGE_DIRECTORY = 0xC0108000, CURRENT_PAGE_DIRECTORY = 0xC0108000,
     cr3 = 0x108000, invlpg = []\<rparr>"

lemma pg0_ok: "layout pg0" "can_map 0xC0108000 v pg0" "CURRENT_PAGE_DIRECTORY pg0 = 0xC0108000"
proof -
  have p: "pde (mem pg0) D i = 0" for D i by (simp add: pde_def pg0_def load32_def)
  have "mm_inv pg0" by (simp add: mm_inv_def pg0_def)
  then show "layout pg0" by (simp add: layout_def tables_ok_def p) (simp add: pg0_def dj_def)
qed (simp_all add: can_map_def pg0_def)

text \<open>
  C3. \<^verbatim>\<open>k_paging_map\<close> followed by \<^verbatim>\<open>k_virt_to_phys\<close> reads the mapping back: the page gets the physical
  address and flags given, every page mapped before through a table that was there keeps its
  own, and the layout of the tables is kept, whether the table existed or was allocated.
\<close>

theorem k_paging_map_correct:
  assumes "layout s" "pdi v < 1022" "can_map (CURRENT_PAGE_DIRECTORY s) v s" "f AND NOT 0x3FF = 0"
  shows "layout (k_paging_map p v f s) \<and> k_virt_to_phys v (k_paging_map p v f s) = p OR f \<and>
    (\<forall>u. pdi u < 1022 \<longrightarrow> pde (mem s) (CURRENT_PAGE_DIRECTORY s) (pdi u) \<noteq> 0 \<longrightarrow>
      unat u div 4096 \<noteq> unat v div 4096 \<longrightarrow> k_virt_to_phys u (k_paging_map p v f s) = k_virt_to_phys u s)"
proof -
  have k: "layout (k_paging_map p v f s)" "keeps s (k_paging_map p v f s)"
    using k_paging_map_keeps [OF assms(1,2,4)] by auto
  then have D: "CURRENT_PAGE_DIRECTORY (k_paging_map p v f s) = CURRENT_PAGE_DIRECTORY s"
    using more_fields(2) by (auto simp: keeps_def)
  show ?thesis
    using k paging_map_lookup(3,4) [OF layout_dir_ok [OF assms(1)] assms(2,3,4), where p = p]
    by (simp add: k_virt_to_phys_def D) (simp add: k_paging_map_def)
qed

theorem k_paging_map_correct_witness:
  "k_virt_to_phys 0x2345 (k_paging_map 0x5000 0x2345 0x3 pg0) = 0x5003"
  using k_paging_map_correct [OF pg0_ok(1), of "0x2345" "0x3" "0x5000"] by (simp add: pg0_ok pdi_def)

text \<open>
  C9. \<^verbatim>\<open>k_map_kernel\<close> maps the first 4 MB of physical memory at \<^verbatim>\<open>KERNEL_VIRT\<close>, present and writable.
\<close>

theorem k_map_kernel_correct:
  assumes "dir_ok pd s" "can_map pd KERNEL_VIRT s" "k < 1024"
  shows "virt_to_phys (mem (k_map_kernel pd s)) pd (of_nat (4096 * k) + KERNEL_VIRT) = of_nat (4096 * k) OR 0x3"
  using map_kernel_loop_ok [OF assms(1,2), of 0 1024] assms(3) by (simp add: k_map_kernel_def kpage_def)

theorem k_map_kernel_correct_witness:
  "virt_to_phys (mem (k_map_kernel 0xC0108000 pg0)) 0xC0108000 0xC0003000 = 0x3003"
  using k_map_kernel_correct [OF layout_dir_ok [OF pg0_ok(1)], of 3]
  by (simp add: pg0_ok KERNEL_VIRT_def)

end
