(* ===== verification/Malloc.thy ===== *)
theory Malloc
  imports Paging
begin

text \<open>
  The kernel heap, \<^verbatim>\<open>kernel/mem/malloc.c\<close>: an array of words, the block chain, whose entries hold
  the size of a block in 31 bits and whether it is used in the top one.  Blocks lie one after
  the other from \<^verbatim>\<open>K_HEAP_BOTTOM\<close>: the address of a block is the sum of the sizes before it.
  The lock is the one of \<^verbatim>\<open>arch/sched.s\<close>; taking it while it is held never returns.  Functions of
  the file that print take the effect of \<^verbatim>\<open>printf\<close> as an argument: it allocates memory itself.
\<close>

section \<open>State and operations\<close>

record heap_state = paging_state +
  BLOCKCHAIN_START :: u32
  BLOCKS_ALLOCATED :: u32
  blockchain :: u32
  K_HEAP_TOP :: u32
  K_LAST_ALLOC :: u32
  memlock :: u32

definition MAX_BLOCKS :: u32 where
  "MAX_BLOCKS = 1024"

definition K_HEAP_BOTTOM :: u32 where
  "K_HEAP_BOTTOM = 0xC0300000"

definition K_HEAP_MAX :: u32 where
  "K_HEAP_MAX = 0xFFFFF000"

text \<open>\<^verbatim>\<open>acquire\<close> spins until its exchange with 1 returns 0; \<^verbatim>\<open>release\<close> exchanges with 0.\<close>

definition acquire_memlock :: "'a heap_state_scheme \<Rightarrow> 'a heap_state_scheme option" where
  "acquire_memlock s = (if memlock s = 0 then Some (s\<lparr>memlock := 1\<rparr>) else None)"

definition release_memlock :: "'a heap_state_scheme \<Rightarrow> 'a heap_state_scheme" where
  "release_memlock s = s\<lparr>memlock := 0\<rparr>"

definition blockchain_add :: "u32 \<Rightarrow> 'a heap_state_scheme \<Rightarrow> bool \<times> 'a heap_state_scheme" where
  "blockchain_add sz s =
     (if BLOCKS_ALLOCATED s > MAX_BLOCKS then (False, s)
      else let s = s\<lparr>blockchain := BLOCKCHAIN_START s + BLOCKS_ALLOCATED s * 4\<rparr>;
               s = s\<lparr>mem := store32 (mem s) (blockchain s) (push_bit 31 1 OR (sz AND NOT (push_bit 31 1)))\<rparr>
           in (True, s\<lparr>BLOCKS_ALLOCATED := BLOCKS_ALLOCATED s + 1\<rparr>))"

definition sbrk_page :: "'a heap_state_scheme \<Rightarrow> 'a heap_state_scheme option" where
  "sbrk_page s = do {
     s \<leftarrow> (if k_virt_to_phys (K_HEAP_TOP s) s = 0
          then do { (phys, s) \<leftarrow> k_page_alloc s; Some (k_paging_map phys (K_HEAP_TOP s) 0x3 s) }
          else Some s);
     Some (s\<lparr>K_HEAP_TOP := K_HEAP_TOP s + 0x1000\<rparr>) }"

fun sbrk_loop :: "nat \<Rightarrow> 'a heap_state_scheme \<Rightarrow> 'a heap_state_scheme option" where
  "sbrk_loop 0 s = Some s"
| "sbrk_loop (Suc n) s = do { s \<leftarrow> sbrk_page s; sbrk_loop n s }"

text \<open>
  \<open>pf\<close> is the effect of the call of \<^verbatim>\<open>printf\<close>.
\<close>

definition sbrk_with ::
  "('a heap_state_scheme \<Rightarrow> 'a heap_state_scheme option) \<Rightarrow> u32 \<Rightarrow> 'a heap_state_scheme \<Rightarrow>
   (u32 \<times> 'a heap_state_scheme) option" where
  "sbrk_with pf n s =
     (if n = 0 then Some (0, s)
      else if n + K_HEAP_TOP s \<ge> K_HEAP_MAX then do { s \<leftarrow> pf s; Some (0, s) }
      else let num_of_blocks = (if n > 0x1000 then unat (n div 0x1000) else 1)
           in do { s \<leftarrow> sbrk_loop num_of_blocks s; Some (K_HEAP_TOP s, s) })"

definition free_vpage :: "u32 \<Rightarrow> 'a heap_state_scheme \<Rightarrow> 'a heap_state_scheme" where
  "free_vpage addr s =
     (let phys = k_virt_to_phys addr s;
          s = snd (k_paging_unmap addr s)
      in snd (k_page_free phys s))"

definition block_used :: "u32 \<Rightarrow> u32" where
  "block_used v = drop_bit 31 v"

definition block_size :: "u32 \<Rightarrow> u32" where
  "block_size v = v AND NOT (push_bit 31 1)"

text \<open>\<open>k\<close> counts the entries left; \<open>pf i size\<close> prints the message for entry \<open>i\<close>.\<close>

fun find_first_free_loop ::
  "(nat \<Rightarrow> u32 \<Rightarrow> 'a heap_state_scheme \<Rightarrow> 'a heap_state_scheme option) \<Rightarrow> u32 \<Rightarrow> u32 \<Rightarrow> nat \<Rightarrow> nat \<Rightarrow>
   'a heap_state_scheme \<Rightarrow> (u32 \<times> 'a heap_state_scheme) option" where
  "find_first_free_loop pf n block i 0 s = Some (0, s)"
| "find_first_free_loop pf n block i (Suc k) s =
     (let v = load32 (mem s) block in
      if n \<le> block_size v \<and> block_used v = 0
      then do { s \<leftarrow> pf i (block_size v) s; Some (block, s) }
      else find_first_free_loop pf n (block + 4) (i + 1) k s)"

definition find_first_free ::
  "(nat \<Rightarrow> u32 \<Rightarrow> 'a heap_state_scheme \<Rightarrow> 'a heap_state_scheme option) \<Rightarrow> u32 \<Rightarrow> 'a heap_state_scheme \<Rightarrow>
   (u32 \<times> 'a heap_state_scheme) option" where
  "find_first_free pf n s =
     find_first_free_loop pf n (BLOCKCHAIN_START s) 0 (unat (BLOCKS_ALLOCATED s)) s"

text \<open>\<^verbatim>\<open>goto loop\<close> sets the counter back to 0 but not the block pointer.\<close>

partial_function (option) best_free_loop ::
  "mem \<Rightarrow> u32 \<Rightarrow> u32 \<Rightarrow> u32 \<Rightarrow> u32 \<Rightarrow> u32 \<Rightarrow> u32 \<Rightarrow> u32 option" where
  "best_free_loop m n blocks block i smallest smallest_sz =
     (if i < blocks
      then let v = load32 m block in
        if n \<le> block_size v \<and> block_size v \<le> smallest_sz \<and> block_used v = 0
        then best_free_loop m n blocks (block + 4) 0 block (block_size v)
        else best_free_loop m n blocks (block + 4) (i + 1) smallest smallest_sz
      else Some smallest)"

definition find_best_free :: "u32 \<Rightarrow> 'a heap_state_scheme \<Rightarrow> u32 option" where
  "find_best_free n s =
     best_free_loop (mem s) n (BLOCKS_ALLOCATED s) (BLOCKCHAIN_START s) 0 0 (n * 3)"

definition heap_brk :: "'a heap_state_scheme \<Rightarrow> u32" where
  "heap_brk s = K_HEAP_TOP s"

fun find_block_loop :: "mem \<Rightarrow> u32 \<Rightarrow> u32 \<Rightarrow> u32 \<Rightarrow> nat \<Rightarrow> u32" where
  "find_block_loop m block total_size to_traverse 0 = block"
| "find_block_loop m block total_size to_traverse (Suc k) =
     (let total_size = total_size + block_size (load32 m block) in
      if to_traverse < total_size then block + 4
      else find_block_loop m (block + 4) total_size to_traverse k)"

definition find_block :: "u32 \<Rightarrow> 'a heap_state_scheme \<Rightarrow> u32" where
  "find_block ptr s =
     (if ptr > K_LAST_ALLOC s then 0
      else find_block_loop (mem s) (BLOCKCHAIN_START s) 0 (ptr - K_HEAP_BOTTOM)
             (unat (BLOCKS_ALLOCATED s)) - 4)"

partial_function (option) translate_loop :: "mem \<Rightarrow> u32 \<Rightarrow> u32 \<Rightarrow> u32 \<Rightarrow> u32 option" where
  "translate_loop m block b total_size =
     (if block \<noteq> b then translate_loop m (block + 4) b (total_size + block_size (load32 m block))
      else Some total_size)"

definition translate ::
  "('a heap_state_scheme \<Rightarrow> 'a heap_state_scheme option) \<Rightarrow> u32 \<Rightarrow> 'a heap_state_scheme \<Rightarrow>
   (u32 \<times> 'a heap_state_scheme) option" where
  "translate pf b s =
     (if b > BLOCKS_ALLOCATED s * 4 + BLOCKCHAIN_START s then Some (0, s)
      else do {
        total_size \<leftarrow> translate_loop (mem s) (BLOCKCHAIN_START s) b 0;
        let address = K_HEAP_BOTTOM + total_size in
        if address > K_LAST_ALLOC s then do { s \<leftarrow> pf s; Some (0, s) }
        else Some (address, s) })"

definition free :: "u32 \<Rightarrow> 'a heap_state_scheme \<Rightarrow> (u32 \<times> 'a heap_state_scheme) option" where
  "free ptr s = do {
     s \<leftarrow> acquire_memlock s;
     let block = find_block ptr s;
         s = s\<lparr>mem := store32 (mem s) block (load32 (mem s) block AND NOT (push_bit 31 1))\<rparr>
     in Some (ptr, release_memlock s) }"

text \<open>\<open>tf\<close> and \<open>pf\<close> are the messages of \<^verbatim>\<open>translate\<close> and \<^verbatim>\<open>sbrk\<close>.\<close>

definition malloc_with ::
  "('a heap_state_scheme \<Rightarrow> 'a heap_state_scheme option) \<Rightarrow> ('a heap_state_scheme \<Rightarrow> 'a heap_state_scheme option) \<Rightarrow>
   u32 \<Rightarrow> 'a heap_state_scheme \<Rightarrow> (u32 \<times> 'a heap_state_scheme) option" where
  "malloc_with tf pf n s =
     (if n = 0 then Some (0, s)
      else do {
        s \<leftarrow> acquire_memlock s;
        block \<leftarrow> find_best_free n s;
        if block \<noteq> 0
        then do {
          let s = s\<lparr>mem := store32 (mem s) block (load32 (mem s) block OR push_bit 31 1)\<rparr> in
          do { (ptr, s) \<leftarrow> translate tf block s; Some (ptr, release_memlock s) } }
        else let (r, s) = blockchain_add n s in
          if \<not> r then Some (0, release_memlock s)
          else do {
            s \<leftarrow> (if K_LAST_ALLOC s + n \<ge> K_HEAP_TOP s
                 then do { (_, s) \<leftarrow> sbrk_with pf (2 * ((n + K_LAST_ALLOC s) - K_HEAP_TOP s)) s; Some s }
                 else Some s);
            let ptr = K_LAST_ALLOC s;
                s = s\<lparr>K_LAST_ALLOC := K_LAST_ALLOC s + n\<rparr>
            in Some (ptr, release_memlock s) } })"

text \<open>
  The messages are printed under the lock, and printing allocates with \<^verbatim>\<open>malloc\<close>: neither call comes back.
  \<open>kmalloc\<close> in \<open>Diag\<close> is \<^verbatim>\<open>malloc\<close> with the messages printed by the kernel's \<^verbatim>\<open>printf\<close>, and is proved to be this
  function there.
\<close>

definition malloc :: "u32 \<Rightarrow> 'a heap_state_scheme \<Rightarrow> (u32 \<times> 'a heap_state_scheme) option" where
  "malloc n s = malloc_with (\<lambda>_. None) (\<lambda>_. None) n s"

definition malloc_a ::
  "('a heap_state_scheme \<Rightarrow> 'a heap_state_scheme option) \<Rightarrow> u32 \<Rightarrow> 'a heap_state_scheme \<Rightarrow>
   (u32 \<times> 'a heap_state_scheme) option" where
  "malloc_a pf n s =
     (let base = (K_LAST_ALLOC s AND NOT 0xFFF) + 0x1000;
          diff = base - K_LAST_ALLOC s
      in do {
        (r, s) \<leftarrow>
          (if diff \<noteq> 0x1000
           then let (r, s) = blockchain_add diff s in
             if \<not> r then Some (False, s)
             else let s = s\<lparr>K_LAST_ALLOC := K_LAST_ALLOC s + diff\<rparr>;
                      b = BLOCKCHAIN_START s + BLOCKS_ALLOCATED s * 4
                  in do { (p, s) \<leftarrow> translate pf (b - 4) s; (_, s) \<leftarrow> free p s; Some (True, s) }
           else Some (True, s));
        if \<not> r then Some (0, s)
        else let (r, s) = blockchain_add n s in
          if \<not> r then Some (0, s)
          else let ptr = K_LAST_ALLOC s;
                   s = s\<lparr>K_LAST_ALLOC := K_LAST_ALLOC s + n\<rparr>
               in do {
                 s \<leftarrow> (if K_LAST_ALLOC s \<ge> K_HEAP_TOP s
                      then do { (_, s) \<leftarrow> sbrk_with pf ((K_LAST_ALLOC s - K_HEAP_TOP s) + 0x1000) s; Some s }
                      else Some s);
                 Some (ptr, s) } })"

text \<open>
  \<^verbatim>\<open>b\<close> is at least 4 whenever the chain has a block, so \<^verbatim>\<open>!b\<close> only tests \<^verbatim>\<open>find_block\<close>'s early
  return.  \<open>pf\<close> prints with its format and arguments.
\<close>

definition realloc ::
  "(string \<Rightarrow> u32 list \<Rightarrow> 'a heap_state_scheme \<Rightarrow> 'a heap_state_scheme option) \<Rightarrow> u32 \<Rightarrow> u32 \<Rightarrow>
   'a heap_state_scheme \<Rightarrow> (u32 \<times> 'a heap_state_scheme) option" where
  "realloc pf ptr n s = do {
     (new, s) \<leftarrow> malloc n s;
     let b = find_block ptr s in
     if b = 0 then do { s \<leftarrow> pf (''Not in malloc? %x'' @ [CHR 0x0A]) [ptr] s; Some (0, s) }
     else let bv = load32 (mem s) b;
              s = s\<lparr>mem := store32 (mem s) b (bv AND NOT (push_bit 31 1))\<rparr>;
              sz = bv AND NOT (push_bit 31 1);
              s = s\<lparr>mem := fst (memcpy (mem s) new ptr (if n \<le> sz then n else sz))\<rparr>
          in do { s \<leftarrow> pf (''Reallocating 0x%x (%d) to 0x%x (%d)'' @ [CHR 0x0A]) [ptr, sz, new, n] s; Some (new, s) } }"

definition k_heap_init ::
  "('a heap_state_scheme \<Rightarrow> 'a heap_state_scheme option) \<Rightarrow> 'a heap_state_scheme \<Rightarrow> 'a heap_state_scheme option" where
  "k_heap_init pf s =
     (let (b, s) = mm_alloc (MAX_BLOCKS * 4) s;
          s = s\<lparr>blockchain := b\<rparr>;
          s = s\<lparr>mem := fst (memset (mem s) b 0 (MAX_BLOCKS * 4))\<rparr>;
          s = s\<lparr>BLOCKCHAIN_START := b, K_HEAP_TOP := K_HEAP_BOTTOM, K_LAST_ALLOC := K_HEAP_BOTTOM\<rparr>
      in do { (_, s) \<leftarrow> sbrk_with pf 0x10000 s; Some s })"

text \<open>The fields of \<^verbatim>\<open>malloc_t\<close> in order: \<^verbatim>\<open>bc_start\<close>, \<^verbatim>\<open>bc_alloc\<close>, \<^verbatim>\<open>bc\<close>, \<^verbatim>\<open>heap_top\<close>, \<^verbatim>\<open>last_alloc\<close>.\<close>

definition blockchain_save :: "'a heap_state_scheme \<Rightarrow> (u32 \<times> 'a heap_state_scheme) option" where
  "blockchain_save s = do {
     (m, s) \<leftarrow> malloc 20 s;
     let s = s\<lparr>mem := store32 (mem s) (m + 4) (BLOCKS_ALLOCATED s)\<rparr>;
         s = s\<lparr>mem := store32 (mem s) m (BLOCKCHAIN_START s)\<rparr>;
         s = s\<lparr>mem := store32 (mem s) (m + 8) (blockchain s)\<rparr>;
         s = s\<lparr>mem := store32 (mem s) (m + 12) (K_HEAP_TOP s)\<rparr>;
         s = s\<lparr>mem := store32 (mem s) (m + 16) (K_LAST_ALLOC s)\<rparr>
     in Some (m, s) }"

definition blockchain_load :: "u32 \<Rightarrow> 'a heap_state_scheme \<Rightarrow> 'a heap_state_scheme" where
  "blockchain_load m s =
     s\<lparr>BLOCKS_ALLOCATED := load32 (mem s) (m + 4), BLOCKCHAIN_START := load32 (mem s) m,
       blockchain := load32 (mem s) (m + 8), K_HEAP_TOP := load32 (mem s) (m + 12),
       K_LAST_ALLOC := load32 (mem s) (m + 16)\<rparr>"

section \<open>The chain as a list of blocks\<close>

definition chain :: "'a heap_state_scheme \<Rightarrow> u32 list" where
  "chain s = map (\<lambda>i. load32 (mem s) (c32.idx (BLOCKCHAIN_START s) i)) [0..<unat (BLOCKS_ALLOCATED s)]"

definition bsize :: "u32 \<Rightarrow> nat" where
  "bsize w = unat (block_size w)"

definition bused :: "u32 \<Rightarrow> bool" where
  "bused w \<longleftrightarrow> bit w 31"

text \<open>The address of block \<open>k\<close>.\<close>

definition baddr :: "u32 list \<Rightarrow> nat \<Rightarrow> nat" where
  "baddr ws k = unat K_HEAP_BOTTOM + sum_list (map bsize (take k ws))"

lemma length_chain [simp]: "length (chain s) = unat (BLOCKS_ALLOCATED s)"
  by (simp add: chain_def)

lemma chain_nth [simp]:
  "k < unat (BLOCKS_ALLOCATED s) \<Longrightarrow> chain s ! k = load32 (mem s) (c32.idx (BLOCKCHAIN_START s) k)"
  by (simp add: chain_def)

lemma block_used_0: "block_used w = 0 \<longleftrightarrow> \<not> bused w"
proof -
  have "bit (block_used w) n \<longleftrightarrow> n = 0 \<and> bused w" for n
    by (cases "n = 0") (auto simp: block_used_def bused_def bit_simps dest: bit_imp_le_length)
  then show ?thesis by (metis bit_0_eq bot_apply bot_bool_def bit_eq_iff)
qed

lemma bsize_or [simp]: "bsize (w OR 0x80000000) = bsize w"
proof -
  have "block_size (w OR 0x80000000) = block_size w"
    unfolding block_size_def by (rule bit_word_eqI) (auto simp: bit_simps)
  then show ?thesis by (simp add: bsize_def)
qed

lemma bsize_and [simp]: "bsize (block_size w) = bsize w"
  unfolding bsize_def block_size_def by (simp add: and.assoc)

lemma bused_or [simp]: "bused (w OR 0x80000000)" and bused_and [simp]: "\<not> bused (block_size w)"
  by (simp_all add: bused_def block_size_def bit_simps)

lemma bsize_mod: "bsize w = unat w mod 2 ^ 31"
proof -
  have "NOT (push_bit 31 1) = (mask 31 :: u32)" by (simp add: mask_eq_exp_minus_1)
  then show ?thesis by (simp only: bsize_def block_size_def unat_and_mask)
qed

lemma bsize_less: "bsize w < 2 ^ 31"
  unfolding bsize_mod by simp

lemma bsize_small: "unat n < 2 ^ 31 \<Longrightarrow> bsize n = unat n"
  unfolding bsize_mod by simp

lemma idx_Suc: "c32.idx b (Suc j) = c32.idx b j + 4"
  by (simp add: c32.idx_def algebra_simps)

lemma idx_0 [simp]: "c32.idx b 0 = b"
  by (simp add: c32.idx_def)

section \<open>The best-fit search\<close>

text \<open>The scan of the blocks \<open>js\<close> that \<^verbatim>\<open>find_best_free\<close> amounts to, as a fold over block numbers.\<close>

definition cand :: "(nat \<Rightarrow> u32) \<Rightarrow> nat \<Rightarrow> nat \<Rightarrow> bool" where
  "cand W n j \<longleftrightarrow> n \<le> bsize (W j) \<and> \<not> bused (W j)"

fun scan :: "(nat \<Rightarrow> u32) \<Rightarrow> nat \<Rightarrow> nat list \<Rightarrow> nat option \<Rightarrow> nat \<Rightarrow> nat option" where
  "scan W n [] r sz = r"
| "scan W n (j # js) r sz =
     (if cand W n j \<and> bsize (W j) \<le> sz then scan W n js (Some j) (bsize (W j)) else scan W n js r sz)"

lemma scan_none: "scan W n js r sz = r" if "\<forall>j \<in> set js. cand W n j \<longrightarrow> sz < bsize (W j)"
  using that by (induction js) auto

lemma scan_spec:
  assumes "sorted_wrt (<) js"
  shows "case scan W n js r sz of
      None \<Rightarrow> r = None \<and> (\<forall>j \<in> set js. cand W n j \<longrightarrow> sz < bsize (W j))
    | Some k \<Rightarrow> r = Some k \<and> (\<forall>j \<in> set js. cand W n j \<longrightarrow> sz < bsize (W j)) \<or>
        k \<in> set js \<and> cand W n k \<and> bsize (W k) \<le> sz \<and>
        (\<forall>j \<in> set js. cand W n j \<longrightarrow> bsize (W k) \<le> bsize (W j) \<and> (k < j \<longrightarrow> bsize (W k) < bsize (W j)))"
  using assms
proof (induction js arbitrary: r sz)
  case (Cons j js)
  show ?case
  proof (cases "cand W n j \<and> bsize (W j) \<le> sz")
    case True
    have "scan W n (j # js) r sz = scan W n js (Some j) (bsize (W j))" using True by simp
    moreover note Cons.IH [of "Some j" "bsize (W j)"]
    ultimately show ?thesis
      using Cons.prems True by (auto split: option.splits)
  next
    case False
    have "scan W n (j # js) r sz = scan W n js r sz" using False by auto
    moreover note Cons.IH [of r sz]
    ultimately show ?thesis
      using Cons.prems False by (auto split: option.splits)
  qed
qed (simp split: option.splits)

lemma scan_acc: "scan W n js r sz = (case scan W n js None sz of None \<Rightarrow> r | Some k \<Rightarrow> Some k)"
proof (induction js arbitrary: r sz)
  case (Cons j js)
  show ?case
  proof (cases "cand W n j \<and> bsize (W j) \<le> sz")
    case True
    then show ?thesis by (simp add: Cons.IH [of "Some j"] split: option.splits)
  next
    case False
    then have "scan W n (j # js) r sz = scan W n js r sz" for r by auto
    then show ?thesis using Cons.IH [of r sz] by simp
  qed
qed simp

lemma bsize_0 [simp]: "bsize 0 = 0"
  by (simp add: bsize_mod)

lemma best_free_loop_scan:
  fixes m :: mem and S :: u32
  defines "W \<equiv> \<lambda>j. load32 m (c32.idx S j)"
  assumes tail: "\<And>j. B \<le> j \<Longrightarrow> j < 2 * B \<Longrightarrow> W j = 0" and B: "unat blocks = B" "B \<le> 512"
    and n: "0 < n" and ij: "i \<le> j" "i \<le> B" "j \<le> i + B"
  shows "best_free_loop m n blocks (c32.idx S j) (of_nat i) sm ssz =
    Some (case scan W (unat n) [j..<B] None (unat ssz) of None \<Rightarrow> sm | Some k \<Rightarrow> c32.idx S k)"
  using ij
proof (induction "2 * B - j" arbitrary: i j sm ssz rule: less_induct)
  case less
  have lt: "of_nat i < blocks \<longleftrightarrow> i < B"
    using less.prems B by (simp add: word_less_nat_alt unat_of_nat take_bit_nat_eq_self)
  have test: "n \<le> block_size (W j) \<and> block_size (W j) \<le> ssz \<and> block_used (W j) = 0 \<longleftrightarrow>
      cand W (unat n) j \<and> bsize (W j) \<le> unat ssz" for ssz
    by (auto simp: cand_def bsize_def word_le_nat_alt block_used_0)
  show ?case
  proof (cases "i < B")
    case False
    then have e: "[j..<B] = []" "i = B" using less.prems by auto
    show ?thesis unfolding e using lt e(2) by (subst best_free_loop.simps) simp
  next
    case i: True
    then have j: "j < 2 * B" using less.prems by simp
    have un: "best_free_loop m n blocks (c32.idx S j) (of_nat i) sm ssz =
        (if cand W (unat n) j \<and> bsize (W j) \<le> unat ssz
         then best_free_loop m n blocks (c32.idx S (Suc j)) (of_nat 0) (c32.idx S j) (block_size (W j))
         else best_free_loop m n blocks (c32.idx S (Suc j)) (of_nat (Suc i)) sm ssz)"
      unfolding test [symmetric]
      using i lt by (subst best_free_loop.simps) (simp add: W_def Let_def idx_Suc add.commute)
    show ?thesis
    proof (cases "j < B")
      case True
      then have up: "[j..<B] = j # [Suc j..<B]" by (rule upt_conv_Cons)
      show ?thesis
      proof (cases "cand W (unat n) j \<and> bsize (W j) \<le> unat ssz")
        case c: True
        show ?thesis
          unfolding un up using c less.hyps [of "Suc j" 0 "c32.idx S j" "block_size (W j)"] True j
          by (simp add: scan_acc [of _ _ _ "Some j"] bsize_def split: option.splits)
      next
        case c: False
        show ?thesis
          unfolding un up using c less.hyps [of "Suc j" "Suc i" sm ssz] True i j less.prems by auto
      qed
    next
      case False
      then have "W j = 0" using tail j by simp
      then have c: "\<not> cand W (unat n) j" using n by (simp add: cand_def word_less_nat_alt)
      show ?thesis
        unfolding un using c less.hyps [of "Suc j" "Suc i" sm ssz] False i j less.prems by simp
    qed
  qed
qed

section \<open>Walking the chain\<close>

lemma sum_take_le: "sum_list (map bsize (take k ws)) \<le> sum_list (map bsize ws)"
  using sum_list_append [of "map bsize (take k ws)" "map bsize (drop k ws)"]
  by (metis append_take_drop_id le_add1 map_append)

lemma sum_take_Suc: "k < length ws \<Longrightarrow>
    sum_list (map bsize (take (Suc k) ws)) = sum_list (map bsize (take k ws)) + bsize (ws ! k)"
  by (simp add: take_Suc_conv_app_nth)

lemma translate_loop_sum:
  fixes m :: mem and S :: u32
  defines "W \<equiv> \<lambda>j. load32 m (c32.idx S j)"
  assumes "j \<le> k" "k < 2 ^ 30"
  shows "translate_loop m (c32.idx S j) (c32.idx S k) t = Some (t + of_nat (sum_list (map (\<lambda>i. bsize (W i)) [j..<k])))"
  using assms(2)
proof (induction "k - j" arbitrary: j t)
  case 0
  then show ?case by (subst translate_loop.simps) simp
next
  case (Suc d)
  then have j: "j < k" by simp
  have "c32.idx S j \<noteq> c32.idx S k"
    using j assms(3) c32.off_idx [of j S] c32.off_idx [of k S] by auto
  then have "translate_loop m (c32.idx S j) (c32.idx S k) t =
      translate_loop m (c32.idx S (Suc j)) (c32.idx S k) (t + block_size (W j))"
    by (subst translate_loop.simps) (simp add: W_def idx_Suc add.commute)
  moreover have "[j..<k] = j # [Suc j..<k]" using j by (rule upt_conv_Cons)
  moreover have "block_size (W j) = of_nat (bsize (W j))" by (simp add: bsize_def)
  ultimately show ?case
    using Suc.hyps(1) [of "Suc j" "t + block_size (W j)"] Suc.hyps(2) j by (simp add: algebra_simps)
qed

lemma find_block_loop_hit:
  fixes m :: mem and S :: u32
  defines "W \<equiv> \<lambda>j. load32 m (c32.idx S j)"
  assumes "j \<le> k" "k < B" "0 < bsize (W k)" "unat t + sum_list (map (\<lambda>i. bsize (W i)) [j..<B]) < 2 ^ 32"
    and "unat x = unat t + sum_list (map (\<lambda>i. bsize (W i)) [j..<k])"
  shows "find_block_loop m (c32.idx S j) t x (B - j) = c32.idx S (Suc k)"
  using assms(2-6)
proof (induction "B - j" arbitrary: j t)
  case (Suc d)
  have j: "j < B" using Suc.prems by simp
  have upB: "[j..<B] = j # [Suc j..<B]" using j by (rule upt_conv_Cons)
  define t' where "t' = t + block_size (W j)"
  have t': "unat t' = unat t + bsize (W j)"
    using Suc.prems(4) unfolding t'_def upB by (simp add: bsize_def unat_word_ariths)
  have un: "find_block_loop m (c32.idx S j) t x (B - j) =
      (if x < t' then c32.idx S (Suc j) else find_block_loop m (c32.idx S (Suc j)) t' x (B - Suc j))"
  proof -
    have "B - j = Suc (B - Suc j)" using j by simp
    then show ?thesis by (simp add: t'_def W_def Let_def idx_Suc add.commute)
  qed
  show ?case
  proof (cases "j = k")
    case True
    then have "x < t'" using Suc.prems t' by (simp add: word_less_nat_alt)
    then show ?thesis using un True by simp
  next
    case False
    then have jk: "j < k" using Suc.prems by simp
    have "[j..<k] = j # [Suc j..<k]" using jk by (rule upt_conv_Cons)
    then have x: "unat x = unat t' + sum_list (map (\<lambda>i. bsize (W i)) [Suc j..<k])"
      using Suc.prems(5) t' by simp
    then have "\<not> x < t'" by (simp add: word_less_nat_alt)
    moreover have "find_block_loop m (c32.idx S (Suc j)) t' x (B - Suc j) = c32.idx S (Suc k)"
      using Suc.hyps Suc.prems jk x t' upB by (intro Suc.hyps(1)) auto
    ultimately show ?thesis using un by simp
  qed
qed simp

section \<open>Growing the heap\<close>

text \<open>What \<^verbatim>\<open>sbrk\<close> leaves alone: every byte outside the paging structures and every variable but the top.\<close>

definition hkeeps :: "'a heap_state_scheme \<Rightarrow> 'a heap_state_scheme \<Rightarrow> bool" where
  "hkeeps s s' \<longleftrightarrow>
     BLOCKCHAIN_START s' = BLOCKCHAIN_START s \<and> BLOCKS_ALLOCATED s' = BLOCKS_ALLOCATED s \<and>
     blockchain s' = blockchain s \<and> K_LAST_ALLOC s' = K_LAST_ALLOC s \<and> memlock s' = memlock s \<and>
     heap_state.more s' = heap_state.more s \<and>
     (\<forall>c n. client s c n \<longrightarrow> client s' c n \<and> (\<forall>a. off c a < n \<longrightarrow> mem s' a = mem s a))"

lemma hkeeps_refl: "hkeeps s s"
  by (simp add: hkeeps_def)

lemma hkeeps_trans: "hkeeps s t \<Longrightarrow> hkeeps t u \<Longrightarrow> hkeeps s u"
  unfolding hkeeps_def by metis

lemma more_heap_fields:
  fixes s s' :: "'a heap_state_scheme"
  assumes "mm_state.more s' = mm_state.more s"
  shows "BLOCKCHAIN_START s' = BLOCKCHAIN_START s" "BLOCKS_ALLOCATED s' = BLOCKS_ALLOCATED s"
    "blockchain s' = blockchain s" "K_HEAP_TOP s' = K_HEAP_TOP s" "K_LAST_ALLOC s' = K_LAST_ALLOC s"
    "memlock s' = memlock s" "heap_state.more s' = heap_state.more s"
  using assms by (cases s; cases s'; simp)+

lemma layout_heap_fields [simp]:
  "layout (s\<lparr>K_HEAP_TOP := a\<rparr>) = layout s" "client (s\<lparr>K_HEAP_TOP := a\<rparr>) = client s"
  "layout (s\<lparr>K_LAST_ALLOC := a\<rparr>) = layout s" "client (s\<lparr>K_LAST_ALLOC := a\<rparr>) = client s"
  "layout (s\<lparr>memlock := a\<rparr>) = layout s" "client (s\<lparr>memlock := a\<rparr>) = client s"
  "layout (s\<lparr>BLOCKS_ALLOCATED := a\<rparr>) = layout s" "client (s\<lparr>BLOCKS_ALLOCATED := a\<rparr>) = client s"
  "layout (s\<lparr>blockchain := a\<rparr>) = layout s" "client (s\<lparr>blockchain := a\<rparr>) = client s"
  by (simp_all add: layout_def mm_inv_def client_def fun_eq_iff)

lemma layout_cong:
  assumes "mem t = mem s" "MM_HEAP t = MM_HEAP s" "MM_CURRENT_PD t = MM_CURRENT_PD s"
    "MM_CURRENT_PT t = MM_CURRENT_PT s" "CURRENT_PAGE_DIRECTORY t = CURRENT_PAGE_DIRECTORY s"
  shows "layout t = layout s" "client t c n = client s c n"
  using assms by (simp_all add: layout_def client_def mm_inv_def)

lemma sbrk_page_ok:
  assumes "layout s" "unat (K_HEAP_TOP s) < 0xFF800000"
  obtains s' where "sbrk_page s = Some s'" "layout s'" "hkeeps s s'"
    "unat (K_HEAP_TOP s') = unat (K_HEAP_TOP s) + 4096"
proof -
  have v: "pdi (K_HEAP_TOP s) < 1022" "(0x3 :: u32) AND NOT 0x3FF = 0"
    using assms(2) by (simp_all add: pdi_def less_mult_imp_div_less)
  obtain t where t: "(if k_virt_to_phys (K_HEAP_TOP s) s = 0
      then do { (p, u) \<leftarrow> k_page_alloc s; Some (k_paging_map p (K_HEAP_TOP s) 0x3 u) } else Some s) = Some t"
    "layout t" "keeps s t"
    using ps.back_page [OF assms(1) v] by blast
  have f: "BLOCKCHAIN_START t = BLOCKCHAIN_START s" "K_HEAP_TOP t = K_HEAP_TOP s"
    using more_heap_fields [of t s] t(3) by (simp_all add: keeps_def)
  have top: "K_HEAP_TOP u = K_HEAP_TOP s" if "k_page_alloc s = Some (p, u)" for p u
    using k_page_alloc_keeps [OF assms(1) that] more_heap_fields(4) by (auto simp: keeps_def)
  have "sbrk_page s = Some (t\<lparr>K_HEAP_TOP := K_HEAP_TOP t + 0x1000\<rparr>)"
  proof -
    have "(if k_virt_to_phys (K_HEAP_TOP s) s = 0
        then do { (p, u) \<leftarrow> k_page_alloc s; Some (k_paging_map p (K_HEAP_TOP u) 0x3 u) } else Some s) = Some t"
      using t(1) top by (cases "k_page_alloc s") (auto split: if_splits)
    then show ?thesis by (simp add: sbrk_page_def)
  qed
  moreover have "hkeeps s (t\<lparr>K_HEAP_TOP := K_HEAP_TOP t + 0x1000\<rparr>)"
    using t(3) more_heap_fields [of t s] by (simp add: hkeeps_def keeps_def)
  moreover have "unat (K_HEAP_TOP (t\<lparr>K_HEAP_TOP := K_HEAP_TOP t + 0x1000\<rparr>)) = unat (K_HEAP_TOP s) + 4096"
    using assms(2) f by (simp add: unat_word_ariths)
  moreover have "layout (t\<lparr>K_HEAP_TOP := K_HEAP_TOP t + 0x1000\<rparr>)" using t(2) by simp
  ultimately show ?thesis by (intro that)
qed

lemma sbrk_loop_ok:
  assumes "layout s" "unat (K_HEAP_TOP s) + 4096 * k \<le> 0xFF800000"
  shows "\<exists>s'. sbrk_loop k s = Some s' \<and> layout s' \<and> hkeeps s s' \<and>
    unat (K_HEAP_TOP s') = unat (K_HEAP_TOP s) + 4096 * k"
  using assms
proof (induction k arbitrary: s)
  case 0
  then show ?case by (simp add: hkeeps_refl)
next
  case (Suc k)
  have "unat (K_HEAP_TOP s) < 0xFF800000" using Suc.prems by simp
  with Suc.prems(1) obtain t where t: "sbrk_page s = Some t" "layout t" "hkeeps s t"
    "unat (K_HEAP_TOP t) = unat (K_HEAP_TOP s) + 4096"
    by (rule sbrk_page_ok)
  have "unat (K_HEAP_TOP t) + 4096 * k \<le> 0xFF800000" using t(4) Suc.prems by simp
  from Suc.IH [OF t(2) this] t show ?case by (auto intro: hkeeps_trans)
qed

definition pages_of :: "nat \<Rightarrow> nat" where
  "pages_of n = (if n > 4096 then n div 4096 else 1)"

lemma sbrk_ok:
  assumes "layout s" "n \<noteq> 0" "unat (K_HEAP_TOP s) + 4096 * pages_of (unat n) \<le> 0xFF800000"
    "unat n + unat (K_HEAP_TOP s) < 0xFFFFF000"
  shows "\<exists>s'. sbrk_with pf n s = Some (K_HEAP_TOP s', s') \<and> layout s' \<and> hkeeps s s' \<and>
    unat (K_HEAP_TOP s') = unat (K_HEAP_TOP s) + 4096 * pages_of (unat n)"
proof -
  have "\<not> n + K_HEAP_TOP s \<ge> K_HEAP_MAX"
    using assms(4) by (simp add: K_HEAP_MAX_def word_le_nat_alt unat_word_ariths)
  moreover have "(if n > 0x1000 then unat (n div 0x1000) else 1) = pages_of (unat n)"
    by (simp add: pages_of_def word_less_nat_alt unat_div)
  ultimately show ?thesis
    using sbrk_loop_ok [OF assms(1,3)] assms(2) by (auto simp: sbrk_with_def simp del: sbrk_loop.simps)
qed

section \<open>The invariant of the heap\<close>

text \<open>
  \<open>heap_inv\<close>: the paging structures are laid out, the chain is apart from them and holds at most
  512 blocks with only zeros after them, the blocks fill the heap up to \<^verbatim>\<open>K_LAST_ALLOC\<close>, and that is
  backed up to \<^verbatim>\<open>K_HEAP_TOP\<close>, which is page aligned.  The zeros matter: the search reads as many entries past its last hit
  as the chain has.
\<close>

definition heap_inv :: "'a heap_state_scheme \<Rightarrow> bool" where
  "heap_inv s \<longleftrightarrow> layout s \<and> client s (BLOCKCHAIN_START s) 4096 \<and> unat (BLOCKS_ALLOCATED s) \<le> 512 \<and>
     (\<forall>i. unat (BLOCKS_ALLOCATED s) \<le> i \<longrightarrow> i < 1024 \<longrightarrow>
        load32 (mem s) (c32.idx (BLOCKCHAIN_START s) i) = 0) \<and>
     unat (K_LAST_ALLOC s) = unat K_HEAP_BOTTOM + sum_list (map bsize (chain s)) \<and>
     unat (K_LAST_ALLOC s) \<le> unat (K_HEAP_TOP s) \<and> unat (K_HEAP_TOP s) \<le> 0xFF800000 \<and>
     4096 dvd unat (K_HEAP_TOP s)"

lemma client_words:
  assumes "client s c 4096" "\<And>a. off c a < 4096 \<Longrightarrow> m a = mem s a" "i < 1024"
  shows "load32 m (c32.idx c i) = load32 (mem s) (c32.idx c i)"
  using assms by (intro c32.arr_cong [where n = 1024]) auto

lemma chain_keeps:
  assumes "hkeeps s s'" "client s (BLOCKCHAIN_START s) 4096" "i < 1024"
  shows "load32 (mem s') (c32.idx (BLOCKCHAIN_START s') i) = load32 (mem s) (c32.idx (BLOCKCHAIN_START s) i)"
    "unat (BLOCKS_ALLOCATED s) \<le> 1024 \<Longrightarrow> chain s' = chain s"
proof -
  have *: "load32 (mem s') (c32.idx (BLOCKCHAIN_START s') i) = load32 (mem s) (c32.idx (BLOCKCHAIN_START s) i)"
    if "i < 1024" for i
    using assms(1,2) that client_words [OF assms(2), of "mem s'"] by (auto simp: hkeeps_def)
  show "load32 (mem s') (c32.idx (BLOCKCHAIN_START s') i) = load32 (mem s) (c32.idx (BLOCKCHAIN_START s) i)"
    by (rule * [OF assms(3)])
  show "chain s' = chain s" if "unat (BLOCKS_ALLOCATED s) \<le> 1024"
    using assms(1) that * by (simp add: chain_def hkeeps_def)
qed

text \<open>Writing one entry of the chain changes nothing else.\<close>

lemma chain_store:
  fixes s :: "'a heap_state_scheme" and v :: u32
  assumes "layout s" "client s c 4096" "k < 1024"
  defines "t \<equiv> s\<lparr>mem := store32 (mem s) (c32.idx c k) v\<rparr>"
  shows "layout t" "client t a n = client s a n" "i < 1024 \<Longrightarrow>
    load32 (mem t) (c32.idx c i) = (if i = k then v else load32 (mem s) (c32.idx c i))"
proof -
  let ?D = "CURRENT_PAGE_DIRECTORY s"
  have fr: "mem t a = mem s a" if "4096 \<le> off c a" for a
    using c32.st_idx_frame [of k 1024 c a "mem s" v] assms(3) that by (simp add: t_def)
  have D: "mem t a = mem s a" if "off ?D a < 4096" for a
    using assms(2) dj_off [of ?D 4096 c 4096 a] that fr by (simp add: client_def dj_sym [of c])
  have ok: "tables_ok (mem s) ?D (unat (MM_HEAP s))" using assms(1) by (simp add: layout_def)
  have le: "unat (MM_HEAP s) \<le> 0xC0400000" using assms(1) by (simp add: layout_def mm_inv_def)
  have pde: "pde (mem t) ?D i = pde (mem s) ?D i" "tbl (mem t) ?D i = tbl (mem s) ?D i" if "i < 1022" for i
    using tables_ok_cong(2) [OF ok D order_refl le, of i] that by (simp_all add: tbl_def)
  have ok': "tables_ok (mem t) ?D (unat (MM_HEAP s))" by (rule tables_ok_cong(1) [OF ok D order_refl le])
  have fields: "CURRENT_PAGE_DIRECTORY t = ?D" "MM_HEAP t = MM_HEAP s" "MM_CURRENT_PD t = MM_CURRENT_PD s"
    "MM_CURRENT_PT t = MM_CURRENT_PT s" by (simp_all add: t_def)
  show "layout t" using assms(1) ok' pde by (simp add: layout_def fields mm_inv_def)
  show "client t a n = client s a n" using pde by (simp add: client_def fields)
  show "i < 1024 \<Longrightarrow> load32 (mem t) (c32.idx c i) = (if i = k then v else load32 (mem s) (c32.idx c i))"
    using assms(3) by (simp add: t_def c32.ld_st_idx [where n = 1024])
qed

lemma heap_inv_store:
  assumes inv: "heap_inv s" and k: "k < unat (BLOCKS_ALLOCATED s)" and v: "bsize v = bsize (chain s ! k)"
  defines "t \<equiv> s\<lparr>mem := store32 (mem s) (c32.idx (BLOCKCHAIN_START s) k) v\<rparr>"
  shows "heap_inv t" "chain t = (chain s)[k := v]"
proof -
  let ?S = "BLOCKCHAIN_START s"
  have lay: "layout s" "client s ?S 4096" "unat (BLOCKS_ALLOCATED s) \<le> 512" "k < 1024"
    using inv k by (auto simp: heap_inv_def)
  note st = chain_store [OF lay(1,2,4), where v = v, folded t_def]
  have f: "BLOCKCHAIN_START t = ?S" "BLOCKS_ALLOCATED t = BLOCKS_ALLOCATED s" "K_LAST_ALLOC t = K_LAST_ALLOC s"
    "K_HEAP_TOP t = K_HEAP_TOP s" by (simp_all add: t_def)
  show ch: "chain t = (chain s)[k := v]"
    using lay(3) st(3) by (intro nth_equalityI) (auto simp: f nth_list_update)
  have "map bsize (chain t) = map bsize (chain s)"
    unfolding ch map_update v using k by (simp add: list_update_same_conv)
  then show "heap_inv t"
    using inv st lay k by (auto simp: heap_inv_def f)
qed

lemma heap_inv_chain:
  assumes "heap_inv s" "k \<le> unat (BLOCKS_ALLOCATED s)"
  shows "unat (c32.idx (BLOCKCHAIN_START s) k) = unat (BLOCKCHAIN_START s) + 4 * k"
    and "sum_list (map (\<lambda>i. bsize (load32 (mem s) (c32.idx (BLOCKCHAIN_START s) i))) [0..<k]) =
      sum_list (map bsize (take k (chain s)))"
    and "baddr (chain s) k \<le> unat (K_LAST_ALLOC s)" "baddr (chain s) k < 2 ^ 32" "8192 \<le> unat (BLOCKCHAIN_START s)"
proof -
  have c: "8192 \<le> unat (BLOCKCHAIN_START s)" "unat (BLOCKCHAIN_START s) + 4096 < 0xC0304000"
    "unat (BLOCKS_ALLOCATED s) \<le> 512"
    using assms by (auto simp: heap_inv_def client_def layout_def mm_inv_def)
  show "8192 \<le> unat (BLOCKCHAIN_START s)" by (rule c(1))
  show "unat (c32.idx (BLOCKCHAIN_START s) k) = unat (BLOCKCHAIN_START s) + 4 * k"
    using c assms(2) by (simp add: c32.idx_def unat_word_ariths unat_of_nat take_bit_nat_eq_self)
  have "take k (chain s) = map (\<lambda>i. load32 (mem s) (c32.idx (BLOCKCHAIN_START s) i)) [0..<k]"
    using assms(2) by (simp add: chain_def take_map take_upt)
  then show "sum_list (map (\<lambda>i. bsize (load32 (mem s) (c32.idx (BLOCKCHAIN_START s) i))) [0..<k]) =
      sum_list (map bsize (take k (chain s)))"
    by (simp add: comp_def)
  show "baddr (chain s) k \<le> unat (K_LAST_ALLOC s)"
    using assms(1) sum_take_le [of k "chain s"] by (simp add: baddr_def heap_inv_def)
  also have "unat (K_LAST_ALLOC s) < 2 ^ 32"
    using unsigned_less [of "K_LAST_ALLOC s", where ?'a = nat] by simp
  finally show "baddr (chain s) k < 2 ^ 32" .
qed

lemma baddr_word: "K_HEAP_BOTTOM + of_nat (sum_list (map bsize (take k ws))) = of_nat (baddr ws k)"
  by (simp add: baddr_def)

lemma translate_ok:
  assumes "heap_inv s" "k \<le> unat (BLOCKS_ALLOCATED s)"
  shows "translate pf (c32.idx (BLOCKCHAIN_START s) k) s = Some (of_nat (baddr (chain s) k), s)"
proof -
  note c = heap_inv_chain [OF assms]
  have B: "unat (BLOCKS_ALLOCATED s) \<le> 512" "unat (BLOCKCHAIN_START s) + 4096 < 0xC0304000"
    using assms by (auto simp: heap_inv_def client_def layout_def mm_inv_def)
  have "unat (BLOCKS_ALLOCATED s * 4 + BLOCKCHAIN_START s) = 4 * unat (BLOCKS_ALLOCATED s) + unat (BLOCKCHAIN_START s)"
    using B by (simp add: unat_word_ariths)
  then have g: "\<not> c32.idx (BLOCKCHAIN_START s) k > BLOCKS_ALLOCATED s * 4 + BLOCKCHAIN_START s"
    using c(1) assms(2) by (simp add: word_less_nat_alt)
  have "translate_loop (mem s) (BLOCKCHAIN_START s) (c32.idx (BLOCKCHAIN_START s) k) 0 =
      Some (of_nat (sum_list (map bsize (take k (chain s)))))"
    using translate_loop_sum [of 0 k "mem s" "BLOCKCHAIN_START s" 0] assms(2) B c(2) by simp
  moreover have "\<not> of_nat (baddr (chain s) k) > K_LAST_ALLOC s"
    using c(3,4) by (simp add: word_less_nat_alt)
  ultimately show ?thesis using g by (simp add: translate_def baddr_word)
qed

lemma find_block_ok:
  assumes "heap_inv s" "k < unat (BLOCKS_ALLOCATED s)" "0 < bsize (chain s ! k)"
  shows "find_block (of_nat (baddr (chain s) k)) s = c32.idx (BLOCKCHAIN_START s) k"
proof -
  have k: "k \<le> unat (BLOCKS_ALLOCATED s)" using assms(2) by simp
  note c = heap_inv_chain [OF assms(1) k] and c' = heap_inv_chain [OF assms(1) order_refl]
  have g: "\<not> of_nat (baddr (chain s) k) > K_LAST_ALLOC s"
    using c(3,4) by (simp add: word_less_nat_alt)
  have x: "of_nat (baddr (chain s) k) - K_HEAP_BOTTOM = of_nat (sum_list (map bsize (take k (chain s))))"
    unfolding baddr_word [symmetric] by simp
  have "sum_list (map bsize (take k (chain s))) < 2 ^ 32" using c(4) by (simp add: baddr_def)
  then have ux: "unat (of_nat (sum_list (map bsize (take k (chain s)))) :: u32) = sum_list (map bsize (take k (chain s)))"
    by simp
  have "find_block_loop (mem s) (c32.idx (BLOCKCHAIN_START s) 0) 0
      (of_nat (sum_list (map bsize (take k (chain s))))) (unat (BLOCKS_ALLOCATED s) - 0) =
      c32.idx (BLOCKCHAIN_START s) (Suc k)"
    using assms c(2) c'(2,4) ux by (intro find_block_loop_hit) (simp_all add: baddr_def)
  then show ?thesis using g by (simp add: find_block_def x idx_Suc)
qed

lemma find_best_free_ok:
  assumes "heap_inv s" "n \<noteq> 0" "unat n < 2 ^ 30"
  shows "find_best_free n s = Some (case scan ((!) (chain s)) (unat n) [0..<unat (BLOCKS_ALLOCATED s)] None (3 * unat n)
    of None \<Rightarrow> 0 | Some k \<Rightarrow> c32.idx (BLOCKCHAIN_START s) k)"
proof -
  let ?B = "unat (BLOCKS_ALLOCATED s)" and ?W = "\<lambda>j. load32 (mem s) (c32.idx (BLOCKCHAIN_START s) j)"
  have B: "?B \<le> 512" "\<And>j. ?B \<le> j \<Longrightarrow> j < 2 * ?B \<Longrightarrow> ?W j = 0"
    using assms(1) by (auto simp: heap_inv_def)
  have u: "unat (n * 3) = 3 * unat n" using assms(3) by (simp add: unat_word_ariths)
  have n: "0 < n" using assms(2) by (simp add: word_neq_0_conv)
  have eq: "scan ?W (unat n) js r sz = scan ((!) (chain s)) (unat n) js r sz" if "set js \<subseteq> {..<?B}" for js r sz
    using that by (induction js arbitrary: r sz) (auto simp: cand_def)
  have "find_best_free n s = Some (case scan ?W (unat n) [0..<?B] None (3 * unat n)
      of None \<Rightarrow> 0 | Some k \<Rightarrow> c32.idx (BLOCKCHAIN_START s) k)"
    using best_free_loop_scan [OF B(2) refl B(1) n, of 0 0 0 "n * 3"] by (simp add: find_best_free_def u)
  then show ?thesis using eq [of "[0..<?B]"] by (simp add: atLeast0LessThan)
qed

section \<open>Allocating and freeing\<close>

lemma heap_inv_memlock [simp]:
  "heap_inv (s\<lparr>memlock := a\<rparr>) = heap_inv s" "chain (s\<lparr>memlock := a\<rparr>) = chain s"
  "find_best_free n (s\<lparr>memlock := a\<rparr>) = find_best_free n s" "find_block p (s\<lparr>memlock := a\<rparr>) = find_block p s"
  by (simp_all add: heap_inv_def chain_def find_best_free_def find_block_def)

abbreviation best_fit :: "u32 list \<Rightarrow> nat \<Rightarrow> nat option" where
  "best_fit ws n \<equiv> scan ((!) ws) n [0..<length ws] None (3 * n)"

lemma best_fit_Some:
  assumes "best_fit ws n = Some k"
  shows "k < length ws" "cand ((!) ws) n k" "bsize (ws ! k) \<le> 3 * n"
    and "j < length ws \<Longrightarrow> cand ((!) ws) n j \<Longrightarrow> bsize (ws ! k) \<le> bsize (ws ! j) \<and> (k < j \<longrightarrow> bsize (ws ! k) < bsize (ws ! j))"
  using scan_spec [where js = "[0..<length ws]" and W = "(!) ws" and n = n and r = None and sz = "3 * n"] assms by auto

lemma best_fit_None: "best_fit ws n = None \<Longrightarrow> j < length ws \<Longrightarrow> cand ((!) ws) n j \<Longrightarrow> 3 * n < bsize (ws ! j)"
  using scan_spec [where js = "[0..<length ws]" and W = "(!) ws" and n = n and r = None and sz = "3 * n"] by auto

lemma malloc_reuse:
  assumes inv: "heap_inv s" "memlock s = 0" and n: "n \<noteq> 0" "unat n < 2 ^ 30"
    and k: "best_fit (chain s) (unat n) = Some k"
  obtains s' where "malloc n s = Some (of_nat (baddr (chain s) k), s')" "heap_inv s'" "memlock s' = 0"
    "chain s' = (chain s)[k := chain s ! k OR 0x80000000]" "K_LAST_ALLOC s' = K_LAST_ALLOC s"
proof -
  have kB: "k < unat (BLOCKS_ALLOCATED s)" using best_fit_Some(1) [OF k] by simp
  let ?a = "c32.idx (BLOCKCHAIN_START s) k" and ?s = "s\<lparr>memlock := 1\<rparr>"
  define t where "t = ?s\<lparr>mem := store32 (mem ?s) (c32.idx (BLOCKCHAIN_START ?s) k) (chain s ! k OR 0x80000000)\<rparr>"
  have inv1: "heap_inv ?s" using inv by simp
  have kB1: "k < unat (BLOCKS_ALLOCATED ?s)" using kB by simp
  have t: "heap_inv t" "chain t = (chain s)[k := chain s ! k OR 0x80000000]"
    using heap_inv_store [OF inv1 kB1, of "chain s ! k OR 0x80000000", folded t_def] kB by simp_all
  have a: "?a \<noteq> 0"
  proof
    assume "?a = 0"
    then have "unat ?a = 0" by simp
    then show False using heap_inv_chain(1,5) [OF inv(1), of k] kB by simp
  qed
  have f: "find_best_free n ?s = Some ?a"
    using find_best_free_ok [OF inv(1) n] k by simp
  have tr: "translate (\<lambda>_. None) ?a t = Some (of_nat (baddr (chain t) k), t)"
    using translate_ok [OF t(1), of k] kB by (simp add: t_def)
  have st: "?s\<lparr>mem := store32 (mem ?s) ?a (load32 (mem ?s) ?a OR push_bit 31 1)\<rparr> = t"
    using kB by (simp add: t_def)
  have b: "baddr (chain t) k = baddr (chain s) k" by (simp add: t(2) baddr_def take_update_cancel)
  have "malloc n s = Some (of_nat (baddr (chain s) k), release_memlock t)"
    unfolding malloc_def malloc_with_def acquire_memlock_def using inv(2) n f a tr st b by (simp add: Let_def)
  moreover have "K_LAST_ALLOC t = K_LAST_ALLOC s" by (simp add: t_def)
  ultimately show ?thesis
    using t by (intro that [of "release_memlock t"]) (simp_all add: release_memlock_def)
qed

lemma heap_inv_add:
  assumes inv: "heap_inv s" and n: "unat n < 2 ^ 30" and B: "unat (BLOCKS_ALLOCATED s) < 512"
  obtains t where "blockchain_add n s = (True, t)" "layout t" "client t (BLOCKCHAIN_START t) 4096"
    "BLOCKCHAIN_START t = BLOCKCHAIN_START s" "unat (BLOCKS_ALLOCATED t) = Suc (unat (BLOCKS_ALLOCATED s))"
    "\<forall>i. unat (BLOCKS_ALLOCATED t) \<le> i \<longrightarrow> i < 1024 \<longrightarrow> load32 (mem t) (c32.idx (BLOCKCHAIN_START t) i) = 0"
    "chain t = chain s @ [n OR 0x80000000]" "K_LAST_ALLOC t = K_LAST_ALLOC s" "K_HEAP_TOP t = K_HEAP_TOP s"
    "memlock t = memlock s"
proof -
  let ?S = "BLOCKCHAIN_START s" and ?B = "BLOCKS_ALLOCATED s"
  have a: "?S + ?B * 4 = c32.idx ?S (unat ?B)" by (simp add: c32.idx_def)
  have v: "push_bit 31 1 OR (n AND NOT (push_bit 31 1)) = n OR (0x80000000 :: u32)"
    by (rule bit_word_eqI) (auto simp: bit_simps)
  define t where "t = s\<lparr>blockchain := c32.idx ?S (unat ?B),
      mem := store32 (mem s) (c32.idx ?S (unat ?B)) (n OR 0x80000000), BLOCKS_ALLOCATED := ?B + 1\<rparr>"
  have "\<not> ?B > MAX_BLOCKS" using B by (simp add: MAX_BLOCKS_def word_less_nat_alt)
  then have add: "blockchain_add n s = (True, t)"
    unfolding blockchain_add_def Let_def using v by (simp add: a t_def)
  have lay: "layout s" "client s ?S 4096" "unat ?B < 1024" using inv B by (auto simp: heap_inv_def)
  note st = chain_store [OF lay, where v = "n OR 0x80000000"]
  have B': "unat (?B + 1) = Suc (unat ?B)" using B by (simp add: unat_word_ariths)
  have f: "BLOCKCHAIN_START t = ?S" "BLOCKS_ALLOCATED t = ?B + 1" "K_LAST_ALLOC t = K_LAST_ALLOC s"
    "K_HEAP_TOP t = K_HEAP_TOP s" "memlock t = memlock s"
    "mem t = store32 (mem s) (c32.idx ?S (unat ?B)) (n OR 0x80000000)"
    by (simp_all add: t_def)
  have words: "load32 (mem t) (c32.idx ?S i) = (if i = unat ?B then n OR 0x80000000 else load32 (mem s) (c32.idx ?S i))"
    if "i < 1024" for i
    using st(3) [OF that] f(6) by simp
  have "chain t = chain s @ [n OR 0x80000000]"
    using B words by (intro nth_equalityI) (auto simp: f B' nth_append less_Suc_eq)
  moreover have "layout t" "client t (BLOCKCHAIN_START t) 4096"
    using layout_cong [of t "s\<lparr>mem := store32 (mem s) (c32.idx ?S (unat ?B)) (n OR 0x80000000)\<rparr>"] st(1,2) lay
    by (simp_all add: f(1)) (simp_all add: t_def)
  moreover have "\<forall>i. unat (BLOCKS_ALLOCATED t) \<le> i \<longrightarrow> i < 1024 \<longrightarrow> load32 (mem t) (c32.idx (BLOCKCHAIN_START t) i) = 0"
    using inv words by (auto simp: f B' heap_inv_def)
  ultimately show ?thesis using add f B' by (intro that [of t]) simp_all
qed

text \<open>Asking \<^verbatim>\<open>sbrk\<close> for twice what is missing always covers it.\<close>

lemma pages_of_bounds:
  assumes "0 < d"
  shows "d \<le> 4096 * pages_of (2 * d)" "4096 * pages_of (2 * d) \<le> 2 * d + 4096"
proof -
  have e: "2 * d = 2 * d div 4096 * 4096 + 2 * d mod 4096" by (rule div_mult_mod_eq [symmetric])
  have m: "2 * d mod 4096 < 4096" by simp
  show "d \<le> 4096 * pages_of (2 * d)"
  proof (cases "2 * d > 4096")
    case True
    then have "1 \<le> 2 * d div 4096" by (simp add: div_greater_zero_iff Suc_le_eq)
    then show ?thesis using e m True unfolding pages_of_def by (simp del: mod_mult_self1)
  qed (simp add: pages_of_def)
  show "4096 * pages_of (2 * d) \<le> 2 * d + 4096" using e unfolding pages_of_def by auto
qed

lemma grow_for:
  assumes lay: "layout t" and al: "4096 dvd unat (K_HEAP_TOP t)" and le: "unat (K_LAST_ALLOC t) \<le> unat (K_HEAP_TOP t)" "unat (K_HEAP_TOP t) \<le> 0xFF800000"
    and n: "unat (K_LAST_ALLOC t) + 2 * unat n + 0x1000 \<le> 0xFF800000" "unat n < 2 ^ 30"
  obtains u where "(if K_LAST_ALLOC t + n \<ge> K_HEAP_TOP t
      then do { (_, s) \<leftarrow> sbrk_with pf (2 * ((n + K_LAST_ALLOC t) - K_HEAP_TOP t)) t; Some s }
      else Some t) = Some u" "layout u" "hkeeps t u"
    "unat (K_LAST_ALLOC t) + unat n \<le> unat (K_HEAP_TOP u)" "unat (K_HEAP_TOP u) \<le> 0xFF800000"
    "4096 dvd unat (K_HEAP_TOP u)"
proof -
  let ?L = "unat (K_LAST_ALLOC t)" and ?T = "unat (K_HEAP_TOP t)"
  have s: "unat (K_LAST_ALLOC t + n) = ?L + unat n" using n by (simp add: unat_word_ariths)
  then have ge: "K_LAST_ALLOC t + n \<ge> K_HEAP_TOP t \<longleftrightarrow> ?T \<le> ?L + unat n" by (simp add: word_le_nat_alt)
  show ?thesis
  proof (cases "?T < ?L + unat n")
    case False
    show ?thesis
    proof (cases "?T = ?L + unat n")
      case True
      then have "n + K_LAST_ALLOC t = K_HEAP_TOP t"
        using s by (simp add: add.commute word_unat_eq_iff)
      then show ?thesis
        using True lay le al by (intro that [of t]) (simp_all add: sbrk_with_def hkeeps_refl)
    next
      case ne: False
      then have "\<not> ?T \<le> ?L + unat n" using False by simp
      then show ?thesis using ge lay le al hkeeps_refl [of t] by (intro that [of t]) simp_all
    qed
  next
    case True
    define d where "d = ?L + unat n - ?T"
    have d: "0 < d" "d \<le> unat n" "?T + d = ?L + unat n" using True le by (auto simp: d_def)
    have ud: "unat ((n + K_LAST_ALLOC t) - K_HEAP_TOP t) = d"
      using s True by (simp add: unat_sub word_le_nat_alt add.commute d_def)
    have "unat (2 * e) = 2 * unat e" if "unat e \<le> unat n" for e :: u32
      using that n by (simp add: unat_word_ariths)
    from this [of "(n + K_LAST_ALLOC t) - K_HEAP_TOP t", unfolded ud, OF d(2)]
    have u2: "unat (2 * ((n + K_LAST_ALLOC t) - K_HEAP_TOP t)) = 2 * d" .
    let ?w = "2 * ((n + K_LAST_ALLOC t) - K_HEAP_TOP t)"
    have w: "?w \<noteq> 0" using u2 d by auto
    note pb = pages_of_bounds [OF d(1)]
    have bnd: "?T + 4096 * pages_of (unat ?w) \<le> 0xFF800000" "unat ?w + ?T < 0xFFFFF000"
      unfolding u2 using pb d n le by linarith+
    obtain u where u: "sbrk_with pf ?w t = Some (K_HEAP_TOP u, u)" "layout u" "hkeeps t u"
      "unat (K_HEAP_TOP u) = ?T + 4096 * pages_of (unat ?w)"
      using sbrk_ok [OF lay w bnd] by blast
    have g: "K_LAST_ALLOC t + n \<ge> K_HEAP_TOP t" using ge True by simp
    show ?thesis
    proof (rule that [of u])
      show "(if K_LAST_ALLOC t + n \<ge> K_HEAP_TOP t then do { (_, s) \<leftarrow> sbrk_with pf ?w t; Some s } else Some t) = Some u"
        using g u(1) by simp
      show "?L + unat n \<le> unat (K_HEAP_TOP u)" unfolding u(4) u2 using pb d by linarith
      show "unat (K_HEAP_TOP u) \<le> 0xFF800000" unfolding u(4) by (rule bnd(1))
      show "4096 dvd unat (K_HEAP_TOP u)" unfolding u(4) using al by (intro dvd_add) simp_all
    qed (rule u)+
  qed
qed

lemma heap_inv_last:
  assumes "layout u" "client u (BLOCKCHAIN_START u) 4096" "unat (BLOCKS_ALLOCATED u) \<le> 512"
    "\<forall>i. unat (BLOCKS_ALLOCATED u) \<le> i \<longrightarrow> i < 1024 \<longrightarrow> load32 (mem u) (c32.idx (BLOCKCHAIN_START u) i) = 0"
    "chain u = ws @ [n OR 0x80000000]" "unat (K_LAST_ALLOC u) = unat K_HEAP_BOTTOM + sum_list (map bsize ws)"
    "unat (K_LAST_ALLOC u) + unat n \<le> unat (K_HEAP_TOP u)" "unat (K_HEAP_TOP u) \<le> 0xFF800000" "unat n < 2 ^ 31"
    "4096 dvd unat (K_HEAP_TOP u)"
  shows "heap_inv (u\<lparr>K_LAST_ALLOC := K_LAST_ALLOC u + n\<rparr>)"
    "unat (K_LAST_ALLOC u + n) = unat (K_LAST_ALLOC u) + unat n"
proof -
  show s: "unat (K_LAST_ALLOC u + n) = unat (K_LAST_ALLOC u) + unat n"
    using assms(7,8) by (simp add: unat_word_ariths)
  have "chain (u\<lparr>K_LAST_ALLOC := K_LAST_ALLOC u + n\<rparr>) = chain u" by (simp add: chain_def)
  then show "heap_inv (u\<lparr>K_LAST_ALLOC := K_LAST_ALLOC u + n\<rparr>)"
    using assms s bsize_small [OF assms(9)] by (simp add: heap_inv_def)
qed

lemma malloc_extend:
  assumes inv: "heap_inv s" "memlock s = 0" and n: "n \<noteq> 0" "unat n < 2 ^ 30"
    and B: "unat (BLOCKS_ALLOCATED s) < 512" and room: "unat (K_LAST_ALLOC s) + 2 * unat n + 0x1000 \<le> 0xFF800000"
    and none: "best_fit (chain s) (unat n) = None"
  obtains s' where "malloc n s = Some (K_LAST_ALLOC s, s')" "heap_inv s'" "memlock s' = 0"
    "chain s' = chain s @ [n OR 0x80000000]" "unat (K_LAST_ALLOC s') = unat (K_LAST_ALLOC s) + unat n"
proof -
  let ?s = "s\<lparr>memlock := 1\<rparr>"
  have inv1: "heap_inv ?s" "unat (BLOCKS_ALLOCATED ?s) < 512" using inv B by simp_all
  obtain t where t: "blockchain_add n ?s = (True, t)" "layout t" "client t (BLOCKCHAIN_START t) 4096"
    "BLOCKCHAIN_START t = BLOCKCHAIN_START ?s" "unat (BLOCKS_ALLOCATED t) = Suc (unat (BLOCKS_ALLOCATED ?s))"
    "\<forall>i. unat (BLOCKS_ALLOCATED t) \<le> i \<longrightarrow> i < 1024 \<longrightarrow> load32 (mem t) (c32.idx (BLOCKCHAIN_START t) i) = 0"
    "chain t = chain ?s @ [n OR 0x80000000]" "K_LAST_ALLOC t = K_LAST_ALLOC ?s" "K_HEAP_TOP t = K_HEAP_TOP ?s"
    by (rule heap_inv_add [OF inv1(1) n(2) inv1(2)])
  have le: "unat (K_LAST_ALLOC t) \<le> unat (K_HEAP_TOP t)" "unat (K_HEAP_TOP t) \<le> 0xFF800000"
    and r: "unat (K_LAST_ALLOC t) + 2 * unat n + 0x1000 \<le> 0xFF800000" and al: "4096 dvd unat (K_HEAP_TOP t)"
    using inv t(8,9) room by (auto simp: heap_inv_def)
  obtain u where u: "(if K_LAST_ALLOC t + n \<ge> K_HEAP_TOP t
      then do { (_, s) \<leftarrow> sbrk_with (\<lambda>_. None) (2 * ((n + K_LAST_ALLOC t) - K_HEAP_TOP t)) t; Some s }
      else Some t) = Some u" "layout u" "hkeeps t u"
    "unat (K_LAST_ALLOC t) + unat n \<le> unat (K_HEAP_TOP u)" "unat (K_HEAP_TOP u) \<le> 0xFF800000"
    "4096 dvd unat (K_HEAP_TOP u)"
    by (rule grow_for [OF t(2) al le r n(2)])
  have B2: "unat (BLOCKS_ALLOCATED t) \<le> 512" using t(5) B by simp
  have ku: "BLOCKS_ALLOCATED u = BLOCKS_ALLOCATED t" "K_LAST_ALLOC u = K_LAST_ALLOC t"
    "client u (BLOCKCHAIN_START u) 4096" "chain u = chain t"
    "i < 1024 \<Longrightarrow> load32 (mem u) (c32.idx (BLOCKCHAIN_START u) i) = load32 (mem t) (c32.idx (BLOCKCHAIN_START t) i)" for i
    using u(3) t(3) chain_keeps [OF u(3) t(3)] B2 chain_keeps(2) [OF u(3) t(3), of 0]
    by (simp_all add: hkeeps_def)
  have fin: "heap_inv (u\<lparr>K_LAST_ALLOC := K_LAST_ALLOC u + n\<rparr>)"
    "unat (K_LAST_ALLOC u + n) = unat (K_LAST_ALLOC u) + unat n"
    using heap_inv_last [of u "chain s" n] u ku t B2 n inv(1)
    by (auto simp: heap_inv_def)
  let ?v = "release_memlock (u\<lparr>K_LAST_ALLOC := K_LAST_ALLOC u + n\<rparr>)"
  have "find_best_free n ?s = Some 0"
    using find_best_free_ok [OF inv(1) n] none by simp
  then have "malloc n s = Some (K_LAST_ALLOC s, ?v)"
    unfolding malloc_def malloc_with_def acquire_memlock_def using inv(2) n t(1,8) u(1) ku(2) by simp
  moreover have "chain ?v = chain s @ [n OR 0x80000000]"
  proof -
    have "chain ?v = chain u" by (simp add: release_memlock_def chain_def)
    then show ?thesis using ku(4) t(7) by simp
  qed
  ultimately show ?thesis
    using fin ku(2) t(8) by (intro that [of ?v]) (simp_all add: release_memlock_def)
qed

lemma free_ok:
  assumes inv: "heap_inv s" "memlock s = 0" and k: "k < length (chain s)" "0 < bsize (chain s ! k)"
  obtains s' where "free (of_nat (baddr (chain s) k)) s = Some (of_nat (baddr (chain s) k), s')"
    "heap_inv s'" "memlock s' = 0" "chain s' = (chain s)[k := block_size (chain s ! k)]"
    "K_LAST_ALLOC s' = K_LAST_ALLOC s"
proof -
  let ?s = "s\<lparr>memlock := 1\<rparr>" and ?a = "c32.idx (BLOCKCHAIN_START s) k"
  have kB: "k < unat (BLOCKS_ALLOCATED ?s)" using k by simp
  define t where "t = ?s\<lparr>mem := store32 (mem ?s) (c32.idx (BLOCKCHAIN_START ?s) k) (block_size (chain s ! k))\<rparr>"
  have inv1: "heap_inv ?s" using inv by simp
  have t: "heap_inv t" "chain t = (chain s)[k := block_size (chain s ! k)]"
    using heap_inv_store [OF inv1 kB, of "block_size (chain s ! k)", folded t_def] by simp_all
  have fb: "find_block (of_nat (baddr (chain s) k)) ?s = ?a"
    using find_block_ok [OF inv(1)] k by simp
  have st: "?s\<lparr>mem := store32 (mem ?s) ?a (load32 (mem ?s) ?a AND NOT (push_bit 31 1))\<rparr> = t"
    using k by (simp add: t_def block_size_def)
  have "free (of_nat (baddr (chain s) k)) s = Some (of_nat (baddr (chain s) k), release_memlock t)"
    unfolding free_def acquire_memlock_def using inv(2) fb st by (simp add: Let_def)
  moreover have "K_LAST_ALLOC t = K_LAST_ALLOC s" by (simp add: t_def)
  ultimately show ?thesis
    using t by (intro that [of "release_memlock t"]) (simp_all add: release_memlock_def)
qed

section \<open>The allocator its clients see\<close>

text \<open>
  The contract of a heap: \<open>live s\<close> is the set of address and size of the blocks handed out.
  Allocating adds one block at least as big as asked, freeing removes one, and no two live
  blocks overlap.  \<open>fits n s\<close> says there is room for \<open>n\<close> bytes.
\<close>

locale allocator =
  fixes inv :: "'s \<Rightarrow> bool" and live :: "'s \<Rightarrow> (nat \<times> nat) set" and fits :: "u32 \<Rightarrow> 's \<Rightarrow> bool"
    and alloc :: "u32 \<Rightarrow> 's \<Rightarrow> (u32 \<times> 's) option" and release :: "u32 \<Rightarrow> 's \<Rightarrow> (u32 \<times> 's) option"
  assumes alloc_live: "inv s \<Longrightarrow> n \<noteq> 0 \<Longrightarrow> fits n s \<Longrightarrow>
      \<exists>p sz s'. alloc n s = Some (p, s') \<and> inv s' \<and> unat n \<le> sz \<and> (unat p, sz) \<notin> live s \<and>
        live s' = insert (unat p, sz) (live s)"
    and release_live: "inv s \<Longrightarrow> (unat p, sz) \<in> live s \<Longrightarrow>
      \<exists>s'. release p s = Some (p, s') \<and> inv s' \<and> live s' = live s - {(unat p, sz)}"
    and live_apart: "inv s \<Longrightarrow> (a, i) \<in> live s \<Longrightarrow> (b, j) \<in> live s \<Longrightarrow> (a, i) \<noteq> (b, j) \<Longrightarrow>
      a + i \<le> b \<or> b + j \<le> a"
begin

lemma alloc_apart:
  assumes "inv s" "n \<noteq> 0" "fits n s"
  shows "\<exists>p sz s'. alloc n s = Some (p, s') \<and> inv s' \<and> unat n \<le> sz \<and> (unat p, sz) \<in> live s' \<and>
    live s \<subseteq> live s' \<and> (\<forall>(a, i) \<in> live s. unat p + sz \<le> a \<or> a + i \<le> unat p)"
proof -
  obtain p sz s' where *: "alloc n s = Some (p, s')" "inv s'" "unat n \<le> sz" "(unat p, sz) \<notin> live s"
    "live s' = insert (unat p, sz) (live s)"
    using alloc_live [OF assms] by blast
  have "\<forall>(a, i) \<in> live s. unat p + sz \<le> a \<or> a + i \<le> unat p"
    using live_apart [OF *(2), of "unat p" sz] *(4,5) by fastforce
  with * show ?thesis by blast
qed

lemma alloc_release:
  assumes "inv s" "n \<noteq> 0" "fits n s"
  shows "\<exists>p s' s''. alloc n s = Some (p, s') \<and> release p s' = Some (p, s'') \<and> inv s'' \<and> live s'' = live s"
proof -
  obtain p sz s' where *: "alloc n s = Some (p, s')" "inv s'" "(unat p, sz) \<notin> live s"
    "live s' = insert (unat p, sz) (live s)"
    using alloc_live [OF assms] by blast
  then have "(unat p, sz) \<in> live s'" by simp
  from release_live [OF *(2) this] * show ?thesis by auto
qed

end

definition live :: "'a heap_state_scheme \<Rightarrow> (nat \<times> nat) set" where
  "live s = {(baddr (chain s) k, bsize (chain s ! k)) | k.
     k < length (chain s) \<and> bused (chain s ! k) \<and> 0 < bsize (chain s ! k)}"

definition fits :: "u32 \<Rightarrow> 'a heap_state_scheme \<Rightarrow> bool" where
  "fits n s \<longleftrightarrow> unat n < 2 ^ 30 \<and> unat (BLOCKS_ALLOCATED s) < 512 \<and>
     unat (K_LAST_ALLOC s) + 2 * unat n + 0x1000 \<le> 0xFF800000"

lemma baddr_less:
  assumes "i < j" "j \<le> length ws"
  shows "baddr ws i + bsize (ws ! i) \<le> baddr ws j"
proof -
  have "take (Suc i) ws = take (Suc i) (take j ws)" using assms by (simp add: min_def)
  then have "sum_list (map bsize (take (Suc i) ws)) \<le> sum_list (map bsize (take j ws))"
    using sum_take_le [of "Suc i" "take j ws"] by simp
  then show ?thesis using assms by (simp add: baddr_def sum_take_Suc)
qed

lemma block_eqI:
  assumes "i < length ws" "j < length ws" "0 < bsize (ws ! i)" "0 < bsize (ws ! j)" "baddr ws i = baddr ws j"
  shows "i = j"
  using assms baddr_less [of i j ws] baddr_less [of j i ws] by (cases i j rule: linorder_cases) auto

lemma baddr_update:
  assumes "bsize v = bsize (ws ! k)"
  shows "baddr (ws[k := v]) j = baddr ws j"
proof -
  have "bsize (ws[k := v] ! i) = bsize (ws ! i)" if "i < length ws" for i
    using that assms by (cases "i = k") auto
  then have "map bsize (take j (ws[k := v])) = map bsize (take j ws)"
    by (intro nth_equalityI) auto
  then show ?thesis by (simp add: baddr_def)
qed

lemma live_update:
  assumes "k < length ws" "bsize v = bsize (ws ! k)" "0 < bsize v"
    and "chain s = ws" "chain s' = ws[k := v]"
  shows "bused v \<Longrightarrow> \<not> bused (ws ! k) \<Longrightarrow> live s' = insert (baddr ws k, bsize v) (live s) \<and> (baddr ws k, bsize v) \<notin> live s"
    and "\<not> bused v \<Longrightarrow> live s' = live s - {(baddr ws k, bsize v)}"
proof -
  have uniq: "j = k" if "j < length ws" "baddr ws j = baddr ws k" "0 < bsize (ws ! j)" for j
    using block_eqI [of j ws k] that assms by simp
  have b: "baddr (ws[k := v]) j = baddr ws j" for j by (rule baddr_update [OF assms(2)])
  have nth: "ws[k := v] ! j = (if j = k then v else ws ! j)" if "j < length ws" for j
    using that by (simp add: nth_list_update)
  have mem: "x \<in> live s' \<longleftrightarrow> (\<exists>j < length ws. x = (baddr ws j, bsize (ws ! j)) \<and> 0 < bsize (ws ! j) \<and>
      (if j = k then bused v else bused (ws ! j)))" for x
  proof -
    have "x \<in> live s' \<longleftrightarrow> (\<exists>j < length ws. x = (baddr ws j, bsize (ws[k := v] ! j)) \<and>
        bused (ws[k := v] ! j) \<and> 0 < bsize (ws[k := v] ! j))"
      unfolding live_def assms(5) b length_list_update by blast
    then show ?thesis using nth assms(2) by (metis (no_types, lifting))
  qed
  have mem0: "x \<in> live s \<longleftrightarrow> (\<exists>j < length ws. x = (baddr ws j, bsize (ws ! j)) \<and> 0 < bsize (ws ! j) \<and>
      bused (ws ! j))" for x
    unfolding live_def assms(4) by auto
  show "live s' = insert (baddr ws k, bsize v) (live s) \<and> (baddr ws k, bsize v) \<notin> live s"
    if "bused v" "\<not> bused (ws ! k)"
  proof
    show "(baddr ws k, bsize v) \<notin> live s" using that uniq by (auto simp: mem0)
    have "x \<in> live s' \<longleftrightarrow> x = (baddr ws k, bsize v) \<or> x \<in> live s" for x
      unfolding mem mem0 using that assms(1-3) by metis
    then show "live s' = insert (baddr ws k, bsize v) (live s)" by blast
  qed
  show "live s' = live s - {(baddr ws k, bsize v)}" if "\<not> bused v"
  proof (rule set_eqI)
    fix x
    have "x \<in> live s' \<longleftrightarrow> (\<exists>j < length ws. j \<noteq> k \<and> x = (baddr ws j, bsize (ws ! j)) \<and> 0 < bsize (ws ! j) \<and> bused (ws ! j))"
      unfolding mem using that by metis
    also have "\<dots> \<longleftrightarrow> x \<in> live s \<and> x \<noteq> (baddr ws k, bsize v)"
      (is "?l \<longleftrightarrow> ?r")
    proof
      assume ?l
      then obtain j where j: "j < length ws" "j \<noteq> k" "x = (baddr ws j, bsize (ws ! j))" "0 < bsize (ws ! j)" "bused (ws ! j)"
        by blast
      then have "baddr ws j \<noteq> baddr ws k" using uniq by blast
      with j show ?r unfolding mem0 by auto
    next
      assume ?r
      then show ?l unfolding mem0 using assms(2) by auto
    qed
    finally show "x \<in> live s' \<longleftrightarrow> x \<in> live s - {(baddr ws k, bsize v)}" by simp
  qed
qed

lemma live_append:
  assumes "chain s = ws" "chain s' = ws @ [v]" "bused v" "0 < bsize v"
  shows "live s' = insert (baddr ws (length ws), bsize v) (live s)"
    and "(baddr ws (length ws), bsize v) \<notin> live s"
proof -
  have b: "baddr (ws @ [v]) j = baddr ws j" if "j \<le> length ws" for j
    using that by (simp add: baddr_def)
  have "x \<in> live s' \<longleftrightarrow> x = (baddr ws (length ws), bsize v) \<or> x \<in> live s" for x
  proof -
    have "x \<in> live s' \<longleftrightarrow> (\<exists>j < Suc (length ws). x = (baddr (ws @ [v]) j, bsize ((ws @ [v]) ! j)) \<and>
        bused ((ws @ [v]) ! j) \<and> 0 < bsize ((ws @ [v]) ! j))"
      unfolding live_def assms(2) by auto
    also have "\<dots> \<longleftrightarrow> (\<exists>j < Suc (length ws). x = (baddr ws j, bsize ((ws @ [v]) ! j)) \<and>
        bused ((ws @ [v]) ! j) \<and> 0 < bsize ((ws @ [v]) ! j))"
      by (rule ex_cong1) (use b in \<open>auto simp: less_Suc_eq_le\<close>)
    also have "\<dots> \<longleftrightarrow> x = (baddr ws (length ws), bsize v) \<or>
        (\<exists>j < length ws. x = (baddr ws j, bsize (ws ! j)) \<and> bused (ws ! j) \<and> 0 < bsize (ws ! j))"
      unfolding Ex_less_Suc nth_append_length using assms(3,4) by (auto simp only: nth_append_left simp_thms)
    also have "\<dots> \<longleftrightarrow> x = (baddr ws (length ws), bsize v) \<or> x \<in> live s"
      unfolding live_def assms(1) by auto
    finally show ?thesis .
  qed
  then show "live s' = insert (baddr ws (length ws), bsize v) (live s)" by blast
  show "(baddr ws (length ws), bsize v) \<notin> live s"
    unfolding live_def assms(1) using baddr_less [of _ "length ws" ws] by fastforce
qed

interpretation ha: allocator "\<lambda>s. heap_inv s \<and> memlock s = 0" live fits malloc free
proof unfold_locales
  fix s :: "'a heap_state_scheme" and n :: u32
  assume inv: "heap_inv s \<and> memlock s = 0" and n: "n \<noteq> 0" "fits n s"
  then have n30: "unat n < 2 ^ 30" and npos: "0 < unat n" by (auto simp: fits_def unat_gt_0)
  show "\<exists>p sz s'. malloc n s = Some (p, s') \<and> (heap_inv s' \<and> memlock s' = 0) \<and> unat n \<le> sz \<and>
      (unat p, sz) \<notin> live s \<and> live s' = insert (unat p, sz) (live s)"
  proof (cases "best_fit (chain s) (unat n)")
    case (Some k)
    obtain s' where s': "malloc n s = Some (of_nat (baddr (chain s) k), s')" "heap_inv s'" "memlock s' = 0"
      "chain s' = (chain s)[k := chain s ! k OR 0x80000000]"
      using malloc_reuse [OF _ _ n(1) n30 Some] inv by metis
    note k = best_fit_Some(1,2) [OF Some]
    have u: "unat (of_nat (baddr (chain s) k) :: u32) = baddr (chain s) k"
      using heap_inv_chain(4) [of s k] inv k by simp
    have pos: "unat n \<le> bsize (chain s ! k)" "\<not> bused (chain s ! k)" using k by (auto simp: cand_def)
    then show ?thesis
      using s' u npos live_update(1) [of k "chain s" "chain s ! k OR 0x80000000" s s'] k
      by (intro exI [of _ "of_nat (baddr (chain s) k)"] exI [of _ "bsize (chain s ! k)"] exI [of _ s']) auto
  next
    case None
    obtain s' where s': "malloc n s = Some (K_LAST_ALLOC s, s')" "heap_inv s'" "memlock s' = 0"
      "chain s' = chain s @ [n OR 0x80000000]"
      using malloc_extend [OF _ _ n(1) n30 _ _ None] inv n(2) by (metis fits_def)
    have b: "bsize (n OR 0x80000000) = unat n" using n30 by (simp add: bsize_small)
    have "unat (K_LAST_ALLOC s) = baddr (chain s) (length (chain s))"
      using inv by (simp add: heap_inv_def baddr_def)
    then show ?thesis
      using s' b npos live_append [OF refl s'(4)]
      by (intro exI [of _ "K_LAST_ALLOC s"] exI [of _ "unat n"] exI [of _ s']) simp
  qed
next
  fix s :: "'a heap_state_scheme" and p :: u32 and sz
  assume inv: "heap_inv s \<and> memlock s = 0" and p: "(unat p, sz) \<in> live s"
  then obtain k where k: "k < length (chain s)" "unat p = baddr (chain s) k" "sz = bsize (chain s ! k)"
    "bused (chain s ! k)" "0 < sz"
    by (auto simp: live_def)
  obtain s' where s': "free (of_nat (baddr (chain s) k)) s = Some (of_nat (baddr (chain s) k), s')"
    "heap_inv s'" "memlock s' = 0" "chain s' = (chain s)[k := block_size (chain s ! k)]"
    using free_ok [of s k] inv k by metis
  have w: "of_nat (baddr (chain s) k) = p" by (simp flip: k(2))
  show "\<exists>s'. free p s = Some (p, s') \<and> (heap_inv s' \<and> memlock s' = 0) \<and> live s' = live s - {(unat p, sz)}"
    using s' w k live_update(2) [of k "chain s" "block_size (chain s ! k)" s s']
    by (intro exI [of _ s']) simp
next
  fix s :: "'a heap_state_scheme" and a i b j
  assume "(a, i) \<in> live s" "(b, j) \<in> live s" "(a, i) \<noteq> (b, j)"
  then obtain k l where "k < length (chain s)" "l < length (chain s)" "k \<noteq> l" "a = baddr (chain s) k"
    "i = bsize (chain s ! k)" "b = baddr (chain s) l" "j = bsize (chain s ! l)"
    unfolding live_def by blast
  then show "a + i \<le> b \<or> b + j \<le> a"
    using baddr_less [of k l "chain s"] baddr_less [of l k "chain s"] by (cases k l rule: linorder_cases) auto
qed

section \<open>Page-aligned allocation\<close>

text \<open>A block appended by hand, as \<^verbatim>\<open>malloc_a\<close> does it, without growing the heap.\<close>

lemma append_block:
  assumes inv: "heap_inv s" and n: "unat n < 2 ^ 30" and B: "unat (BLOCKS_ALLOCATED s) < 512"
    and top: "unat (K_LAST_ALLOC s) + unat n \<le> unat (K_HEAP_TOP s)"
  obtains t where "blockchain_add n s = (True, t)" "heap_inv (t\<lparr>K_LAST_ALLOC := K_LAST_ALLOC t + n\<rparr>)"
    "chain (t\<lparr>K_LAST_ALLOC := K_LAST_ALLOC t + n\<rparr>) = chain s @ [n OR 0x80000000]"
    "K_LAST_ALLOC t = K_LAST_ALLOC s" "memlock t = memlock s" "BLOCKCHAIN_START t = BLOCKCHAIN_START s"
    "unat (BLOCKS_ALLOCATED t) = Suc (unat (BLOCKS_ALLOCATED s))"
    "unat (K_LAST_ALLOC s + n) = unat (K_LAST_ALLOC s) + unat n" "K_HEAP_TOP t = K_HEAP_TOP s"
proof -
  obtain t where t: "blockchain_add n s = (True, t)" "layout t" "client t (BLOCKCHAIN_START t) 4096"
    "BLOCKCHAIN_START t = BLOCKCHAIN_START s" "unat (BLOCKS_ALLOCATED t) = Suc (unat (BLOCKS_ALLOCATED s))"
    "\<forall>i. unat (BLOCKS_ALLOCATED t) \<le> i \<longrightarrow> i < 1024 \<longrightarrow> load32 (mem t) (c32.idx (BLOCKCHAIN_START t) i) = 0"
    "chain t = chain s @ [n OR 0x80000000]" "K_LAST_ALLOC t = K_LAST_ALLOC s" "K_HEAP_TOP t = K_HEAP_TOP s"
    "memlock t = memlock s"
    by (rule heap_inv_add [OF inv n B])
  have h: "heap_inv (t\<lparr>K_LAST_ALLOC := K_LAST_ALLOC t + n\<rparr>)" "unat (K_LAST_ALLOC t + n) = unat (K_LAST_ALLOC t) + unat n"
    using heap_inv_last [of t "chain s" n] t B n inv top by (auto simp: heap_inv_def)
  have c: "chain (t\<lparr>K_LAST_ALLOC := K_LAST_ALLOC t + n\<rparr>) = chain s @ [n OR 0x80000000]"
    using t(7) by (simp add: chain_def)
  have last: "unat (K_LAST_ALLOC s + n) = unat (K_LAST_ALLOC s) + unat n" using h(2) t(8) by simp
  show ?thesis by (rule that [OF t(1) h(1) c t(8) t(10) t(4) t(5) last t(9)])
qed

text \<open>The distance to the next page boundary.\<close>

lemma page_gap:
  fixes a :: u32
  assumes "unat a \<le> 0xFF800000"
  defines "d \<equiv> (a AND NOT 0xFFF) + 0x1000 - a"
  shows "0 < unat d" "unat d \<le> 4096" "unat a + unat d = (unat a div 4096 + 1) * 4096"
    "unat d = 4096 \<longleftrightarrow> 4096 dvd unat a" "d = 0x1000 \<longleftrightarrow> 4096 dvd unat a"
proof -
  have mask: "(0xFFF :: u32) = mask 12" by (simp add: mask_eq_exp_minus_1)
  have f: "unat (a AND NOT 0xFFF) = unat a div 4096 * 4096" unfolding mask unat_and_not_mask by simp
  have e: "unat a = unat a div 4096 * 4096 + unat a mod 4096" by (rule div_mult_mod_eq [symmetric])
  have m: "unat a mod 4096 < 4096" by simp
  have b: "unat ((a AND NOT 0xFFF) + 0x1000) = unat a div 4096 * 4096 + 4096"
    using f e assms(1) by (simp only: unat_word_add) simp
  then have le: "a \<le> (a AND NOT 0xFFF) + 0x1000" using e m by (simp only: word_le_nat_alt)
  have d: "unat d = unat a div 4096 * 4096 + 4096 - unat a" unfolding d_def unat_sub [OF le] b ..
  show "0 < unat d" "unat d \<le> 4096" using d e m by linarith+
  show "unat a + unat d = (unat a div 4096 + 1) * 4096" using d e m by (simp add: algebra_simps)
  have "unat d = 4096 - unat a mod 4096" using d e m by linarith
  then show iff: "unat d = 4096 \<longleftrightarrow> 4096 dvd unat a" using m unfolding dvd_eq_mod_eq_0 by linarith
  have "d = 0x1000 \<longleftrightarrow> unat d = 4096" by (simp add: word_unat_eq_iff)
  then show "d = 0x1000 \<longleftrightarrow> 4096 dvd unat a" using iff by simp
qed

lemma malloc_a_pad:
  assumes inv: "heap_inv s" "memlock s = 0" and B: "unat (BLOCKS_ALLOCATED s) < 511"
    and d: "d = (K_LAST_ALLOC s AND NOT 0xFFF) + 0x1000 - K_LAST_ALLOC s"
  obtains t where "(if d \<noteq> 0x1000
      then let (r, s) = blockchain_add d s in
        if \<not> r then Some (False, s)
        else let s = s\<lparr>K_LAST_ALLOC := K_LAST_ALLOC s + d\<rparr>;
                 b = BLOCKCHAIN_START s + BLOCKS_ALLOCATED s * 4
             in do { (p, s) \<leftarrow> translate pf (b - 4) s; (_, s) \<leftarrow> free p s; Some (True, s) }
      else Some (True, s)) = Some (True, t)"
    "heap_inv t" "memlock t = 0" "4096 dvd unat (K_LAST_ALLOC t)" "unat (K_LAST_ALLOC s) \<le> unat (K_LAST_ALLOC t)"
    "unat (K_LAST_ALLOC t) \<le> unat (K_LAST_ALLOC s) + 4096" "unat (BLOCKS_ALLOCATED t) \<le> Suc (unat (BLOCKS_ALLOCATED s))"
    "chain t = chain s \<or> (\<exists>v. chain t = chain s @ [v] \<and> \<not> bused v)"
proof -
  have le: "unat (K_LAST_ALLOC s) \<le> unat (K_HEAP_TOP s)" "unat (K_HEAP_TOP s) \<le> 0xFF800000"
    "4096 dvd unat (K_HEAP_TOP s)" using inv by (auto simp: heap_inv_def)
  then have last: "unat (K_LAST_ALLOC s) \<le> 0xFF800000" by simp
  note g = page_gap [OF last, folded d]
  show ?thesis
  proof (cases "d = 0x1000")
    case True
    then have "4096 dvd unat (K_LAST_ALLOC s)" using g(5) by simp
    then show ?thesis using True inv by (intro that [of s]) simp_all
  next
    case False
    then have nd: "\<not> 4096 dvd unat (K_LAST_ALLOC s)" using g(5) by simp
    have top: "unat (K_LAST_ALLOC s) + unat d \<le> unat (K_HEAP_TOP s)"
    proof -
      obtain q where q: "unat (K_HEAP_TOP s) = 4096 * q" using le(3) by (rule dvdE)
      then have "unat (K_LAST_ALLOC s) div 4096 < q"
        using le(1) nd by (metis div_less_iff_less_mult dvd_triv_left le_neq_implies_less mult.commute zero_less_numeral)
      then show ?thesis using g(3) q by simp
    qed
    have d30: "unat d < 2 ^ 30" using g(2) by simp
    have B': "unat (BLOCKS_ALLOCATED s) < 512" using B by simp
    obtain t where t: "blockchain_add d s = (True, t)" "heap_inv (t\<lparr>K_LAST_ALLOC := K_LAST_ALLOC t + d\<rparr>)"
      "chain (t\<lparr>K_LAST_ALLOC := K_LAST_ALLOC t + d\<rparr>) = chain s @ [d OR 0x80000000]"
      "K_LAST_ALLOC t = K_LAST_ALLOC s" "memlock t = memlock s" "BLOCKCHAIN_START t = BLOCKCHAIN_START s"
      "unat (BLOCKS_ALLOCATED t) = Suc (unat (BLOCKS_ALLOCATED s))"
      "unat (K_LAST_ALLOC s + d) = unat (K_LAST_ALLOC s) + unat d" "K_HEAP_TOP t = K_HEAP_TOP s"
      by (rule append_block [OF inv(1) d30 B' top])
    define u where "u = t\<lparr>K_LAST_ALLOC := K_LAST_ALLOC t + d\<rparr>"
    define k where "k = unat (BLOCKS_ALLOCATED s)"
    have u: "heap_inv u" "chain u = chain s @ [d OR 0x80000000]" "memlock u = 0" using t inv by (simp_all add: u_def)
    have Bu: "unat (BLOCKS_ALLOCATED u) = Suc k" using t(7) by (simp add: u_def k_def)
    have lenk: "length (chain s) = k" by (simp add: k_def)
    have a: "BLOCKCHAIN_START u + BLOCKS_ALLOCATED u * 4 - 4 = c32.idx (BLOCKCHAIN_START u) k"
    proof -
      have "BLOCKS_ALLOCATED u = of_nat (Suc k)" by (simp flip: Bu)
      then show ?thesis by (simp add: c32.idx_def algebra_simps)
    qed
    have tr: "translate pf (c32.idx (BLOCKCHAIN_START u) k) u = Some (of_nat (baddr (chain u) k), u)"
      using Bu by (intro translate_ok [OF u(1)]) simp
    have sz: "bsize (chain u ! k) = unat d" "k < length (chain u)"
      unfolding u(2) using lenk d30 by (simp_all add: nth_append bsize_small)
    obtain w where w: "free (of_nat (baddr (chain u) k)) u = Some (of_nat (baddr (chain u) k), w)"
      "heap_inv w" "memlock w = 0" "chain w = (chain u)[k := block_size (chain u ! k)]" "K_LAST_ALLOC w = K_LAST_ALLOC u"
      using free_ok [OF u(1,3) sz(2)] sz(1) g(1) by metis
    have cw: "chain w = chain s @ [block_size (chain u ! k)]"
      unfolding w(4) using u(2) lenk by (simp add: list_update_append)
    have lw: "unat (K_LAST_ALLOC w) = (unat (K_LAST_ALLOC s) div 4096 + 1) * 4096"
      using w(5) t(4,8) g(3) by (simp add: u_def)
    have Bw: "unat (BLOCKS_ALLOCATED w) = Suc k"
      using arg_cong [OF cw, of length] lenk by simp
    show ?thesis
    proof (rule that [of w])
      show "(if d \<noteq> 0x1000
        then let (r, s) = blockchain_add d s in
          if \<not> r then Some (False, s)
          else let s = s\<lparr>K_LAST_ALLOC := K_LAST_ALLOC s + d\<rparr>;
                   b = BLOCKCHAIN_START s + BLOCKS_ALLOCATED s * 4
               in do { (p, s) \<leftarrow> translate pf (b - 4) s; (_, s) \<leftarrow> free p s; Some (True, s) }
        else Some (True, s)) = Some (True, w)"
        unfolding Let_def t(1) using False tr w(1) a by (simp add: u_def)
      show "4096 dvd unat (K_LAST_ALLOC w)" unfolding lw by simp
      show "unat (K_LAST_ALLOC s) \<le> unat (K_LAST_ALLOC w)" "unat (K_LAST_ALLOC w) \<le> unat (K_LAST_ALLOC s) + 4096"
        using lw g(2,3) by linarith+
      show "unat (BLOCKS_ALLOCATED w) \<le> Suc (unat (BLOCKS_ALLOCATED s))" using Bw by (simp add: k_def)
      show "chain w = chain s \<or> (\<exists>v. chain w = chain s @ [v] \<and> \<not> bused v)" using cw by auto
    qed (rule w)+
  qed
qed

lemma pages_of_next:
  "d < 4096 * pages_of (d + 4096)" "4096 * pages_of (d + 4096) \<le> d + 4096"
proof -
  have e: "d + 4096 = (d + 4096) div 4096 * 4096 + (d + 4096) mod 4096" by (rule div_mult_mod_eq [symmetric])
  have m: "(d + 4096) mod 4096 < 4096" by simp
  have "pages_of (d + 4096) = (d + 4096) div 4096" by (cases "d = 0") (auto simp: pages_of_def)
  then show "d < 4096 * pages_of (d + 4096)" "4096 * pages_of (d + 4096) \<le> d + 4096"
    using e m by linarith+
qed

lemma malloc_a_ok:
  assumes inv: "heap_inv s" "memlock s = 0" and B: "unat (BLOCKS_ALLOCATED s) < 511"
    and n: "n \<noteq> 0" "unat n < 2 ^ 30" "unat (K_LAST_ALLOC s) + unat n + 0x2000 \<le> 0xFF800000"
  obtains p s' where "malloc_a pf n s = Some (p, s')" "heap_inv s'" "memlock s' = 0" "4096 dvd unat p"
    "unat (K_LAST_ALLOC s) \<le> unat p" "unat (K_LAST_ALLOC s') = unat p + unat n"
    "chain s' = chain s @ [n OR 0x80000000] \<or> (\<exists>v. chain s' = chain s @ [v, n OR 0x80000000] \<and> \<not> bused v)"
proof -
  define d where "d = (K_LAST_ALLOC s AND NOT 0xFFF) + 0x1000 - K_LAST_ALLOC s"
  obtain t where t: "(if d \<noteq> 0x1000
      then let (r, s) = blockchain_add d s in
        if \<not> r then Some (False, s)
        else let s = s\<lparr>K_LAST_ALLOC := K_LAST_ALLOC s + d\<rparr>;
                 b = BLOCKCHAIN_START s + BLOCKS_ALLOCATED s * 4
             in do { (p, s) \<leftarrow> translate pf (b - 4) s; (_, s) \<leftarrow> free p s; Some (True, s) }
      else Some (True, s)) = Some (True, t)"
    "heap_inv t" "memlock t = 0" "4096 dvd unat (K_LAST_ALLOC t)" "unat (K_LAST_ALLOC s) \<le> unat (K_LAST_ALLOC t)"
    "unat (K_LAST_ALLOC t) \<le> unat (K_LAST_ALLOC s) + 4096" "unat (BLOCKS_ALLOCATED t) \<le> Suc (unat (BLOCKS_ALLOCATED s))"
    "chain t = chain s \<or> (\<exists>v. chain t = chain s @ [v] \<and> \<not> bused v)"
    by (rule malloc_a_pad [OF inv B d_def])
  have B': "unat (BLOCKS_ALLOCATED t) < 512" using t(7) B by simp
  obtain u where u: "blockchain_add n t = (True, u)" "layout u" "client u (BLOCKCHAIN_START u) 4096"
    "BLOCKCHAIN_START u = BLOCKCHAIN_START t" "unat (BLOCKS_ALLOCATED u) = Suc (unat (BLOCKS_ALLOCATED t))"
    "\<forall>i. unat (BLOCKS_ALLOCATED u) \<le> i \<longrightarrow> i < 1024 \<longrightarrow> load32 (mem u) (c32.idx (BLOCKCHAIN_START u) i) = 0"
    "chain u = chain t @ [n OR 0x80000000]" "K_LAST_ALLOC u = K_LAST_ALLOC t" "K_HEAP_TOP u = K_HEAP_TOP t"
    "memlock u = memlock t"
    by (rule heap_inv_add [OF t(2) n(2) B'])
  have le: "unat (K_LAST_ALLOC t) \<le> unat (K_HEAP_TOP t)" "unat (K_HEAP_TOP t) \<le> 0xFF800000" "4096 dvd unat (K_HEAP_TOP t)"
    "unat (K_LAST_ALLOC t) = unat K_HEAP_BOTTOM + sum_list (map bsize (chain t))"
    using t(2) by (auto simp: heap_inv_def)
  define v where "v = u\<lparr>K_LAST_ALLOC := K_LAST_ALLOC u + n\<rparr>"
  let ?L = "unat (K_LAST_ALLOC t) + unat n" and ?T = "unat (K_HEAP_TOP t)"
  have L: "unat (K_LAST_ALLOC v) = ?L" using t(6) n(3) u(8) by (simp add: v_def unat_word_ariths)
  have lv: "layout v" "client v (BLOCKCHAIN_START v) 4096" "K_HEAP_TOP v = K_HEAP_TOP t" "chain v = chain u"
    using u by (simp_all add: v_def chain_def)
  obtain w where w: "(if K_LAST_ALLOC v \<ge> K_HEAP_TOP v
      then do { (_, s) \<leftarrow> sbrk_with pf ((K_LAST_ALLOC v - K_HEAP_TOP v) + 0x1000) v; Some s } else Some v) = Some w"
    "layout w" "hkeeps v w" "?L \<le> unat (K_HEAP_TOP w)" "unat (K_HEAP_TOP w) \<le> 0xFF800000" "4096 dvd unat (K_HEAP_TOP w)"
  proof (cases "?T \<le> ?L")
    case False
    then have "\<not> K_LAST_ALLOC v \<ge> K_HEAP_TOP v" using L lv(3) by (simp add: word_le_nat_alt)
    then show ?thesis using False lv le hkeeps_refl [of v] by (intro that [of v]) simp_all
  next
    case True
    then have ge: "K_LAST_ALLOC v \<ge> K_HEAP_TOP v" using L lv(3) by (simp add: word_le_nat_alt)
    let ?w = "(K_LAST_ALLOC v - K_HEAP_TOP v) + 0x1000"
    have "unat (K_LAST_ALLOC v - K_HEAP_TOP v) = ?L - ?T" using unat_sub [OF ge] L lv(3) by simp
    then have uw: "unat ?w = (?L - ?T) + 4096" using n(3) t(6) by (simp only: unat_word_add) simp
    then have wn: "?w \<noteq> 0" by (metis add_eq_0_iff_both_eq_0 unat_0 zero_neq_numeral)
    have bnd: "unat (K_HEAP_TOP v) + 4096 * pages_of (unat ?w) \<le> 0xFF800000" "unat ?w + unat (K_HEAP_TOP v) < 0xFFFFF000"
      unfolding uw unfolding lv(3) using pages_of_next [of "?L - ?T"] True n(3) t(6) by linarith+
    obtain w where w: "sbrk_with pf ?w v = Some (K_HEAP_TOP w, w)" "layout w" "hkeeps v w"
      "unat (K_HEAP_TOP w) = unat (K_HEAP_TOP v) + 4096 * pages_of (unat ?w)"
      using sbrk_ok [OF lv(1) wn bnd] by blast
    show ?thesis
    proof (rule that [OF _ w(2,3)])
      show "(if K_LAST_ALLOC v \<ge> K_HEAP_TOP v then do { (_, s) \<leftarrow> sbrk_with pf ?w v; Some s } else Some v) = Some w"
        using ge w(1) by simp
      show "?L \<le> unat (K_HEAP_TOP w)" unfolding w(4) uw unfolding lv(3) using pages_of_next [of "?L - ?T"] True by linarith
      show "unat (K_HEAP_TOP w) \<le> 0xFF800000" unfolding w(4) by (rule bnd(1))
      show "4096 dvd unat (K_HEAP_TOP w)" unfolding w(4) lv(3) using le(3) by (intro dvd_add) simp_all
    qed
  qed
  have Bv: "unat (BLOCKS_ALLOCATED v) \<le> 512" using u(5) B' by (simp add: v_def)
  have cw: "chain w = chain t @ [n OR 0x80000000]"
    using chain_keeps(2) [OF w(3) lv(2), of 0] Bv lv(4) u(7) by simp
  have kw: "BLOCKS_ALLOCATED w = BLOCKS_ALLOCATED v" "K_LAST_ALLOC w = K_LAST_ALLOC v" "memlock w = memlock v"
    "client w (BLOCKCHAIN_START w) 4096" using w(3) lv(2) by (simp_all add: hkeeps_def)
  have z: "\<forall>i. unat (BLOCKS_ALLOCATED w) \<le> i \<longrightarrow> i < 1024 \<longrightarrow> load32 (mem w) (c32.idx (BLOCKCHAIN_START w) i) = 0"
    using u(6) kw(1) chain_keeps(1) [OF w(3) lv(2)] by (simp add: v_def)
  have "heap_inv w"
    unfolding heap_inv_def using w kw z Bv cw L le(4) n(2) by (simp add: bsize_small)
  moreover have "malloc_a pf n s = Some (K_LAST_ALLOC t, w)"
    unfolding malloc_a_def Let_def [of "_ - _"] Let_def [of "_ + 0x1000"] d_def [symmetric] t(1)
    using u(1,8) w(1) unfolding v_def by (simp add: Let_def)
  moreover have "memlock w = 0" using kw(3) t(3) u(10) by (simp add: v_def)
  moreover have "unat (K_LAST_ALLOC w) = unat (K_LAST_ALLOC t) + unat n" using kw(2) L by simp
  ultimately show ?thesis
    using t(4,5,8) cw by (intro that [of "K_LAST_ALLOC t" w]) auto
qed

section \<open>Initialisation\<close>

lemma layout_extend:
  assumes lay: "layout s" and h: "unat h = unat (MM_HEAP s) + 0x4000" "unat h < 0xC0304000"
    and m: "\<And>c. 4096 \<le> off (MM_HEAP s) c \<Longrightarrow> m c = mem s c"
  defines "t \<equiv> s\<lparr>MM_HEAP := h, mem := m\<rparr>"
  shows "layout t" "client t (MM_HEAP s) 4096"
proof -
  let ?D = "CURRENT_PAGE_DIRECTORY s"
  have ok: "tables_ok (mem s) ?D (unat (MM_HEAP s))" using lay by (simp add: layout_def)
  have dj: "dj c n (MM_HEAP s) 4096" if "unat c + n \<le> unat (MM_HEAP s)" for c n
    using that h by (simp add: dj_def)
  have D: "m c = mem s c" if "off ?D c < 4096" for c
    using m [of c] dj_off [OF dj [of ?D 4096] that] ok by (simp add: tables_ok_def)
  have hle: "unat (MM_HEAP s) \<le> unat h" "unat h \<le> 0xC0400000" using h by simp_all
  note tk = tables_ok_cong [OF ok D hle]
  have tbl: "tbl m ?D i = tbl (mem s) ?D i" if "i < 1024" for i using tk(2) that by (simp add: tbl_def)
  have f: "MM_HEAP t = h" "mem t = m" "CURRENT_PAGE_DIRECTORY t = ?D" "MM_CURRENT_PD t = MM_CURRENT_PD s"
    "MM_CURRENT_PT t = MM_CURRENT_PT s" by (simp_all add: t_def)
  have "4096 dvd unat h" unfolding h(1) using lay by (intro dvd_add) (simp_all add: layout_def)
  then show "layout t" using lay h tk tbl by (simp add: layout_def f mm_inv_def)
  have "dj (MM_HEAP s) 4096 (tbl m ?D i) 4096" if "i < 1022" "pde m ?D i \<noteq> 0" for i
    using dj [of "tbl (mem s) ?D i" 4096] tables_okD(2) [OF ok that(1)] that tk(2) [of i] tbl [of i]
    by (simp add: dj_sym)
  then show "client t (MM_HEAP s) 4096"
    using lay h ok dj by (auto simp: client_def f layout_def mm_inv_def tables_ok_def dj_sym [of "MM_HEAP s"])
qed

lemma k_heap_init_ok:
  assumes lay: "layout s" and B: "BLOCKS_ALLOCATED s = 0" and room: "unat (MM_HEAP s) + 0x4000 < 0xC0300000"
  shows "\<exists>s'. k_heap_init pf s = Some s' \<and> heap_inv s' \<and> chain s' = [] \<and> K_LAST_ALLOC s' = K_HEAP_BOTTOM \<and>
    unat (K_HEAP_TOP s') = unat K_HEAP_BOTTOM + 0x10000 \<and> memlock s' = memlock s"
proof -
  define h where "h = MM_HEAP s + 0x4000"
  have h: "unat h = unat (MM_HEAP s) + 0x4000" "unat h < 0xC0304000"
    using room by (simp_all add: h_def unat_word_ariths)
  have nz: "MM_HEAP s \<noteq> 0" using lay by (auto simp: layout_def)
  have al: "mm_alloc (MAX_BLOCKS * 4) s = (MM_HEAP s, s\<lparr>MM_HEAP := h\<rparr>)"
    using room nz by (simp add: MAX_BLOCKS_def mm_alloc_def h_def MM_HEAP_MAX_def word_less_nat_alt unat_word_ariths)
  define m where "m = fst (memset (mem s) (MM_HEAP s) 0 4096)"
  have mat: "m c = (if off (MM_HEAP s) c < 4096 then 0 else mem s c)" for c by (simp add: m_def memset_at)
  define t where "t = s\<lparr>MM_HEAP := h, blockchain := MM_HEAP s, mem := m, BLOCKCHAIN_START := MM_HEAP s,
    K_HEAP_TOP := K_HEAP_BOTTOM, K_LAST_ALLOC := K_HEAP_BOTTOM\<rparr>"
  have lt: "layout t" "client t (MM_HEAP s) 4096"
    using layout_extend [OF lay h, of m] mat
      layout_cong [of t "s\<lparr>MM_HEAP := h, mem := m\<rparr>"]
    by (simp_all add: t_def)
  have p16: "pages_of 65536 = 16" by (simp add: pages_of_def)
  obtain u where u: "sbrk_with pf 0x10000 t = Some (K_HEAP_TOP u, u)" "layout u" "hkeeps t u"
    "unat (K_HEAP_TOP u) = unat (K_HEAP_TOP t) + 65536"
    using sbrk_ok [OF lt(1), of "0x10000" pf] by (auto simp: p16 t_def K_HEAP_BOTTOM_def)
  have init: "k_heap_init pf s = Some u"
    unfolding k_heap_init_def al using u(1) by (simp add: MAX_BLOCKS_def m_def t_def)
  have ku: "BLOCKS_ALLOCATED u = 0" "K_LAST_ALLOC u = K_HEAP_BOTTOM" "memlock u = memlock s"
    "client u (BLOCKCHAIN_START u) 4096" "BLOCKCHAIN_START u = MM_HEAP s"
    using u(3) lt B by (simp_all add: hkeeps_def t_def)
  have ch: "chain u = []" using ku(1) by (simp add: chain_def)
  have z: "load32 (mem u) (c32.idx (BLOCKCHAIN_START u) i) = 0" if "i < 1024" for i
  proof -
    have "load32 (mem u) (c32.idx (BLOCKCHAIN_START u) i) = load32 m (c32.idx (MM_HEAP s) i)"
      using chain_keeps(1) [OF u(3) _ that] lt(2) by (simp add: t_def)
    also have "\<dots> = load32 (\<lambda>_. 0) (c32.idx (MM_HEAP s) i)"
      using that by (intro c32.arr_cong [where n = 1024]) (auto simp: mat)
    finally show ?thesis by (simp add: load32_def)
  qed
  have top: "unat (K_HEAP_TOP u) = unat K_HEAP_BOTTOM + 0x10000" using u(4) by (simp add: t_def)
  have "heap_inv u"
    unfolding heap_inv_def using u(2) ku z ch top by (simp add: K_HEAP_BOTTOM_def)
  then show ?thesis using init ch ku top by (intro exI [of _ u]) simp
qed

section \<open>Properties\<close>

text \<open>A heap with no block yet, and one with a used and a free block, for the concrete instances.\<close>

definition hp0 :: heap_state where
  "hp0 = \<lparr>mem = (\<lambda>_. 0), indet = 7, MM_CURRENT_PD = 0xC0110000, MM_CURRENT_PT = 0xC0114000,
     MM_HEAP = 0xC0118000, KERNEL_PAGE_DIRECTORY = 0xC0108000, CURRENT_PAGE_DIRECTORY = 0xC0108000,
     cr3 = 0x108000, invlpg = [], BLOCKCHAIN_START = 0xC010A000, BLOCKS_ALLOCATED = 0, blockchain = 0,
     K_HEAP_TOP = 0xC0310000, K_LAST_ALLOC = 0xC0300000, memlock = 0\<rparr>"

lemma hp0_inv: "layout hp0" "heap_inv hp0" "memlock hp0 = 0" "chain hp0 = []" "live hp0 = {}"
proof -
  have p: "pde (mem hp0) D i = 0" for D i by (simp add: pde_def hp0_def load32_def)
  have "mm_inv hp0" by (simp add: mm_inv_def hp0_def)
  then show lay: "layout hp0" by (simp add: layout_def tables_ok_def p) (simp add: hp0_def dj_def)
  show ch: "chain hp0 = []" by (simp add: chain_def hp0_def)
  have "client hp0 (BLOCKCHAIN_START hp0) 4096" by (simp add: client_def p) (simp add: hp0_def dj_def)
  then show "heap_inv hp0"
    using lay ch by (simp add: heap_inv_def) (simp add: hp0_def load32_def K_HEAP_BOTTOM_def)
  show "live hp0 = {}" by (simp add: live_def ch)
qed (simp add: hp0_def)

text \<open>
  C1. \<^verbatim>\<open>malloc\<close> is safe: with room for \<open>n\<close> bytes it returns, growing the heap through the page
  allocator and the page tables when it has to, keeps the invariant of the heap, and the block it
  returns is at least \<open>n\<close> bytes long and overlaps no block handed out before and not freed.
\<close>

theorem malloc_safe:
  assumes "heap_inv s" "memlock s = 0" "n \<noteq> 0" "fits n s"
  shows "\<exists>p sz s'. malloc n s = Some (p, s') \<and> heap_inv s' \<and> memlock s' = 0 \<and> unat n \<le> sz \<and>
    (unat p, sz) \<in> live s' \<and> live s \<subseteq> live s' \<and> (\<forall>(a, i) \<in> live s. unat p + sz \<le> a \<or> a + i \<le> unat p)"
  using ha.alloc_apart [of s n] assms by auto

theorem malloc_safe_witness:
  "\<exists>p sz s'. malloc 16 hp0 = Some (p, s') \<and> heap_inv s' \<and> 16 \<le> sz \<and> (unat p, sz) \<in> live s'"
  using malloc_safe [OF hp0_inv(2,3), of 16] by (auto simp: fits_def hp0_def)

text \<open>
  C8. \<^verbatim>\<open>malloc\<close> followed by \<^verbatim>\<open>free\<close> of its result returns, gives the pointer back and leaves exactly the
  blocks live that were live before.
\<close>

theorem malloc_free:
  assumes "heap_inv s" "memlock s = 0" "n \<noteq> 0" "fits n s"
  shows "\<exists>p s' s''. malloc n s = Some (p, s') \<and> free p s' = Some (p, s'') \<and> heap_inv s'' \<and> live s'' = live s"
  using ha.alloc_release [of s n] assms by auto

theorem malloc_free_witness:
  "\<exists>p s' s''. malloc 100 hp0 = Some (p, s') \<and> free p s' = Some (p, s'') \<and> live s'' = {}"
  using malloc_free [OF hp0_inv(2,3), of 100] by (auto simp: fits_def hp0_def hp0_inv(5) [unfolded hp0_def])

text \<open>Two blocks taken from an empty heap and given back.\<close>

lemma best_fit_used: "(\<And>j. j < length ws \<Longrightarrow> bused (ws ! j)) \<Longrightarrow> best_fit ws n = None"
  using best_fit_Some(1,2) [of ws n] by (cases "best_fit ws n") (auto simp: cand_def)

lemma hp0_two_free: "\<exists>s :: heap_state. heap_inv s \<and> memlock s = 0 \<and> chain s = [24, 16] \<and> fits 8 s"
proof -
  have L: "unat (K_LAST_ALLOC hp0) = 0xC0300000" "unat (BLOCKS_ALLOCATED hp0) = 0" by (simp_all add: hp0_def)
  have p1: "(24 :: u32) \<noteq> 0" "unat (24 :: u32) < 2 ^ 30" "unat (BLOCKS_ALLOCATED hp0) < 512"
    "unat (K_LAST_ALLOC hp0) + 2 * unat (24 :: u32) + 0x1000 \<le> 0xFF800000" "best_fit (chain hp0) (unat (24 :: u32)) = None"
    using L best_fit_used [of "[]"] by (simp_all add: hp0_inv(4))
  obtain s1 :: heap_state where s1: "heap_inv s1" "memlock s1 = 0" "chain s1 = chain hp0 @ [24 OR 0x80000000]"
      "unat (K_LAST_ALLOC s1) = unat (K_LAST_ALLOC hp0) + unat (24 :: u32)"
    by (rule malloc_extend [OF hp0_inv(2,3) p1], rule that, assumption+)
  have c1: "chain s1 = [24 OR 0x80000000]" using s1(3) by (simp add: hp0_inv(4))
  have b1: "unat (BLOCKS_ALLOCATED s1) = 1" using length_chain [of s1] unfolding c1 by simp
  have n1: "best_fit (chain s1) (unat (16 :: u32)) = None" by (rule best_fit_used) (use bused_or [of 24] in \<open>simp add: c1 del: chain_nth\<close>)
  have p2: "(16 :: u32) \<noteq> 0" "unat (16 :: u32) < 2 ^ 30" "unat (BLOCKS_ALLOCATED s1) < 512"
    "unat (K_LAST_ALLOC s1) + 2 * unat (16 :: u32) + 0x1000 \<le> 0xFF800000"
    using b1 L(1) s1(4) by simp_all
  obtain s2 :: heap_state where s2: "heap_inv s2" "memlock s2 = 0" "chain s2 = chain s1 @ [16 OR 0x80000000]"
      "unat (K_LAST_ALLOC s2) = unat (K_LAST_ALLOC s1) + unat (16 :: u32)"
    by (rule malloc_extend [OF s1(1,2) p2 n1], rule that, assumption+)
  have c2: "chain s2 = [24 OR 0x80000000, 16 OR 0x80000000]" using s2(3) c1 by simp
  have f2: "0 < length (chain s2)" "0 < bsize (chain s2 ! 0)" by (simp_all add: c2 bsize_mod del: chain_nth length_chain)
  obtain s3 :: heap_state where s3: "heap_inv s3" "memlock s3 = 0" "chain s3 = (chain s2)[0 := block_size (chain s2 ! 0)]" "K_LAST_ALLOC s3 = K_LAST_ALLOC s2"
    by (rule free_ok [OF s2(1,2) f2], rule that, assumption+)
  have f3: "1 < length (chain s3)" "0 < bsize (chain s3 ! 1)" by (simp_all add: s3(3) c2 bsize_mod del: chain_nth length_chain)
  obtain s4 :: heap_state where s4: "heap_inv s4" "memlock s4 = 0" "chain s4 = (chain s3)[1 := block_size (chain s3 ! 1)]" "K_LAST_ALLOC s4 = K_LAST_ALLOC s3"
    by (rule free_ok [OF s3(1,2) f3], rule that, assumption+)
  have c: "chain s4 = [24, 16]" using c2 s3(3) s4(3) by (simp add: block_size_def del: chain_nth)
  moreover have "unat (BLOCKS_ALLOCATED s4) = 2" using length_chain [of s4] unfolding c by simp
  moreover have "unat (K_LAST_ALLOC s4) = 0xC0300028" using s1(4) s2(4) s3(4) s4(4) L(1) by simp
  ultimately have "fits 8 s4" by (simp add: fits_def)
  then show ?thesis using s4(1,2) c by blast
qed

text \<open>
  C7. Which block \<^verbatim>\<open>malloc\<close> takes: of the free blocks at least \<open>n\<close> and at most \<open>3 * n\<close> bytes long, one of the
  smallest, the last of those; when there is none, a new block of \<open>n\<close> bytes at the end.  No other
  block changes.
\<close>

theorem malloc_best_fit:
  assumes "heap_inv s" "memlock s = 0" "n \<noteq> 0" "fits n s"
    and "\<And>j. usable j \<longleftrightarrow> j < length (chain s) \<and> \<not> bused (chain s ! j) \<and>
      unat n \<le> bsize (chain s ! j) \<and> bsize (chain s ! j) \<le> 3 * unat n"
  shows "\<exists>p s'. malloc n s = Some (p, s') \<and>
    ((\<exists>k. usable k \<and> (\<forall>j. usable j \<longrightarrow> bsize (chain s ! k) \<le> bsize (chain s ! j) \<and>
          (k < j \<longrightarrow> bsize (chain s ! k) < bsize (chain s ! j))) \<and>
        p = of_nat (baddr (chain s) k) \<and> chain s' = (chain s)[k := chain s ! k OR 0x80000000]) \<or>
     (\<forall>j. \<not> usable j) \<and> p = K_LAST_ALLOC s \<and> chain s' = chain s @ [n OR 0x80000000])"
proof (cases "best_fit (chain s) (unat n)")
  case (Some k)
  have n: "unat n < 2 ^ 30" using assms(4) by (simp add: fits_def)
  have k: "usable k" "\<And>j. usable j \<Longrightarrow> bsize (chain s ! k) \<le> bsize (chain s ! j) \<and>
      (k < j \<longrightarrow> bsize (chain s ! k) < bsize (chain s ! j))"
    using best_fit_Some [OF Some] assms(5) by (auto simp: cand_def simp del: chain_nth)
  obtain s' where "malloc n s = Some (of_nat (baddr (chain s) k), s')"
    "chain s' = (chain s)[k := chain s ! k OR 0x80000000]"
    using malloc_reuse [OF assms(1-3) n Some] by metis
  with k show ?thesis by blast
next
  case None
  have n: "unat n < 2 ^ 30" "unat (BLOCKS_ALLOCATED s) < 512"
    "unat (K_LAST_ALLOC s) + 2 * unat n + 0x1000 \<le> 0xFF800000" using assms(4) by (auto simp: fits_def)
  have "\<not> usable j" for j
    using best_fit_None [OF None, of j] assms(5) [of j] by (auto simp: cand_def simp del: chain_nth)
  moreover obtain s' where "malloc n s = Some (K_LAST_ALLOC s, s')" "chain s' = chain s @ [n OR 0x80000000]"
    using malloc_extend [OF assms(1-3) n None] by metis
  ultimately show ?thesis by blast
qed

theorem malloc_best_fit_witness:
  "\<exists>s s' :: heap_state. chain s = [24, 16] \<and> malloc 8 s = Some (0xC0300018, s') \<and> chain s' = [24, 0x80000010]"
proof -
  obtain s :: heap_state where s: "heap_inv s" "memlock s = 0" "chain s = [24, 16]" "fits 8 s" using hp0_two_free by blast
  let ?u = "\<lambda>j. j < length (chain s) \<and> \<not> bused (chain s ! j) \<and> unat (8 :: u32) \<le> bsize (chain s ! j) \<and>
    bsize (chain s ! j) \<le> 3 * unat (8 :: u32)"
  have u: "?u 0" "?u 1" by (simp_all add: s(3) bused_def bsize_mod bit_iff_odd del: chain_nth)
  from malloc_best_fit [OF s(1,2) _ s(4), of ?u] obtain p s' where m: "malloc 8 s = Some (p, s')"
    "(\<exists>k. ?u k \<and> (\<forall>j. ?u j \<longrightarrow> bsize (chain s ! k) \<le> bsize (chain s ! j) \<and> (k < j \<longrightarrow> bsize (chain s ! k) < bsize (chain s ! j))) \<and>
        p = of_nat (baddr (chain s) k) \<and> chain s' = (chain s)[k := chain s ! k OR 0x80000000]) \<or> (\<forall>j. \<not> ?u j)"
    by auto
  then obtain k where k: "?u k" "bsize (chain s ! k) \<le> bsize (chain s ! 1)" "p = of_nat (baddr (chain s) k)"
      "chain s' = (chain s)[k := chain s ! k OR 0x80000000]"
    using u by blast
  from k(1) have "k = 0 \<or> k = 1" by (auto simp: s(3) simp del: chain_nth length_chain)
  then have "k = 1" using k(2) by (auto simp: s(3) bsize_mod simp del: chain_nth)
  then have "p = 0xC0300018" "chain s' = [24, 0x80000010]"
    using k(3,4) by (simp_all add: s(3) baddr_def bsize_mod K_HEAP_BOTTOM_def del: chain_nth)
  then show ?thesis using m(1) s(3) by blast
qed

text \<open>
  \<^verbatim>\<open>free\<close> of the address of a block that is not empty clears the block's used bit and nothing else:
  the search by address finds the block the address was computed from.
\<close>

lemma free_correct:
  assumes "heap_inv s" "memlock s = 0" "k < length (chain s)" "0 < bsize (chain s ! k)"
  shows "\<exists>s'. free (of_nat (baddr (chain s) k)) s = Some (of_nat (baddr (chain s) k), s') \<and>
    heap_inv s' \<and> memlock s' = 0 \<and> chain s' = (chain s)[k := block_size (chain s ! k)]"
  using free_ok [OF assms] by metis

text \<open>
  C20. \<^verbatim>\<open>malloc_a\<close> returns a page-aligned block of exactly \<open>n\<close> bytes at the end of the heap, after a free
  padding block when the end was not aligned, keeps the invariant, and no block before changes.
\<close>

theorem malloc_a_correct:
  assumes "heap_inv s" "memlock s = 0" "n \<noteq> 0" "unat n < 2 ^ 30" "unat (BLOCKS_ALLOCATED s) < 511"
    "unat (K_LAST_ALLOC s) + unat n + 0x2000 \<le> 0xFF800000"
  shows "\<exists>p s'. malloc_a pf n s = Some (p, s') \<and> heap_inv s' \<and> 4096 dvd unat p \<and> unat (K_LAST_ALLOC s) \<le> unat p \<and>
    unat (K_LAST_ALLOC s') = unat p + unat n \<and> (\<exists>pad. chain s' = chain s @ pad @ [n OR 0x80000000] \<and>
      length pad \<le> 1 \<and> (\<forall>v \<in> set pad. \<not> bused v))"
proof -
  obtain p s' where *: "malloc_a pf n s = Some (p, s')" "heap_inv s'" "4096 dvd unat p"
    "unat (K_LAST_ALLOC s) \<le> unat p" "unat (K_LAST_ALLOC s') = unat p + unat n"
    "chain s' = chain s @ [n OR 0x80000000] \<or> (\<exists>v. chain s' = chain s @ [v, n OR 0x80000000] \<and> \<not> bused v)"
    by (rule malloc_a_ok [OF assms(1,2,5,3,4,6)], rule that, assumption+)
  have "\<exists>pad. chain s' = chain s @ pad @ [n OR 0x80000000] \<and> length pad \<le> 1 \<and> (\<forall>v \<in> set pad. \<not> bused v)"
    using *(6)
  proof
    assume "chain s' = chain s @ [n OR 0x80000000]"
    then show ?thesis by (intro exI [of _ "[]"]) simp
  next
    assume "\<exists>v. chain s' = chain s @ [v, n OR 0x80000000] \<and> \<not> bused v"
    then obtain v where "chain s' = chain s @ [v, n OR 0x80000000]" "\<not> bused v" by blast
    then show ?thesis by (intro exI [of _ "[v]"]) simp
  qed
  with * show ?thesis by blast
qed

theorem malloc_a_correct_witness:
  "\<exists>p s'. malloc_a (\<lambda>_. None) 0x1000 hp0 = Some (p, s') \<and> 4096 dvd unat p"
  using malloc_a_correct [OF hp0_inv(2,3), of "0x1000" "\<lambda>_. None"] by (auto simp: hp0_def)

text \<open>
  C21. \<^verbatim>\<open>k_heap_init\<close> on laid-out paging structures and an unused early heap establishes the invariant:
  no block, and sixteen pages backed.
\<close>

theorem k_heap_init_correct:
  assumes "layout s" "BLOCKS_ALLOCATED s = 0" "unat (MM_HEAP s) + 0x4000 < 0xC0300000"
  shows "\<exists>s'. k_heap_init pf s = Some s' \<and> heap_inv s' \<and> chain s' = [] \<and>
    unat (K_HEAP_TOP s') = unat K_HEAP_BOTTOM + 0x10000 \<and> memlock s' = memlock s"
  using k_heap_init_ok [OF assms, of pf] by blast

theorem k_heap_init_correct_witness:
  "\<exists>s'. k_heap_init (\<lambda>_. None) hp0 = Some s' \<and> heap_inv s' \<and> chain s' = []"
proof -
  have "BLOCKS_ALLOCATED hp0 = 0" "unat (MM_HEAP hp0) + 0x4000 < 0xC0300000" by (simp_all add: hp0_def)
  from k_heap_init_correct [OF hp0_inv(1) this, of "\<lambda>_. None"] show ?thesis by blast
qed

text \<open>A full heap: \<^verbatim>\<open>sbrk\<close> prints its message while \<^verbatim>\<open>malloc\<close> holds the lock.\<close>

lemma malloc_full:
  assumes "heap_inv s" "memlock s = 0" "n \<noteq> 0" "unat n < 2 ^ 30" "unat (BLOCKS_ALLOCATED s) < 512"
    and "\<And>j. j < length (chain s) \<Longrightarrow> bused (chain s ! j)"
    and "unat (K_HEAP_TOP s) < unat (K_LAST_ALLOC s) + unat n" "unat (K_LAST_ALLOC s) + unat n < 2 ^ 32"
    and "0xFFFFF000 \<le> 2 * (unat (K_LAST_ALLOC s) + unat n) - unat (K_HEAP_TOP s)"
    "2 * (unat (K_LAST_ALLOC s) + unat n) - unat (K_HEAP_TOP s) < 2 ^ 32"
  shows "malloc n s = None"
proof -
  let ?s = "s\<lparr>memlock := 1\<rparr>" and ?L = "unat (K_LAST_ALLOC s)" and ?T = "unat (K_HEAP_TOP s)"
  have inv1: "heap_inv ?s" "unat (BLOCKS_ALLOCATED ?s) < 512" using assms by simp_all
  obtain t where t: "blockchain_add n ?s = (True, t)" "K_LAST_ALLOC t = K_LAST_ALLOC ?s" "K_HEAP_TOP t = K_HEAP_TOP ?s"
    by (rule heap_inv_add [OF inv1(1) assms(4) inv1(2)], rule that, assumption+)
  have "best_fit (chain s) (unat n) = None"
    using best_fit_Some(1,2) [of "chain s" "unat n"] assms(6) by (cases "best_fit (chain s) (unat n)") (auto simp: cand_def simp del: chain_nth)
  then have f: "find_best_free n ?s = Some 0" using find_best_free_ok [OF assms(1,3,4)] by simp
  have s: "unat (n + K_LAST_ALLOC t) = ?L + unat n" using t(2) assms(8) by (simp add: unat_word_ariths)
  then have ge: "K_LAST_ALLOC t + n \<ge> K_HEAP_TOP t" "K_HEAP_TOP t \<le> n + K_LAST_ALLOC t"
    using assms(7) t(3) by (simp_all add: word_le_nat_alt add.commute)
  let ?e = "(n + K_LAST_ALLOC t) - K_HEAP_TOP t"
  have ue: "unat ?e = ?L + unat n - ?T" using unat_sub [OF ge(2)] s t(3) by simp
  have u2: "unat (2 * e) = 2 * unat e" if "2 * unat e < 2 ^ 32" for e :: u32 using that by (simp add: unat_word_ariths)
  have w: "unat (2 * ?e) = 2 * (?L + unat n - ?T)" using u2 [of ?e] ue assms(7,10) by simp
  then have nz: "2 * ?e \<noteq> 0" using assms(7) by (metis diff_is_0_eq less_le_not_le mult_eq_0_iff unat_0 zero_neq_numeral)
  have "unat (2 * ?e + K_HEAP_TOP t) = 2 * (?L + unat n) - ?T"
    using w t(3) assms(7,10) by (simp only: unat_word_add) simp
  then have "2 * ?e + K_HEAP_TOP t \<ge> K_HEAP_MAX" using assms(9) by (simp only: word_le_nat_alt K_HEAP_MAX_def) simp
  then have "sbrk_with (\<lambda>_. None) (2 * ?e) t = None" using nz by (simp only: sbrk_with_def if_False if_True bind_eq_None_conv) simp
  then show ?thesis
    unfolding malloc_def malloc_with_def acquire_memlock_def using assms(2,3) f t(1) ge(1) by simp
qed

text \<open>A heap that one used block fills to 8 MB below the end of the address space.\<close>

definition hp1 :: heap_state where
  "hp1 = hp0\<lparr>mem := store32 (mem hp0) (c32.idx 0xC010A000 0) 0xBF500000, BLOCKS_ALLOCATED := 1,
     K_HEAP_TOP := 0xFF800000, K_LAST_ALLOC := 0xFF800000\<rparr>"

lemma hp1_inv: "heap_inv hp1" "memlock hp1 = 0" "chain hp1 = [0xBF500000]"
proof -
  have c: "client hp0 0xC010A000 4096" using hp0_inv(2) by (simp add: heap_inv_def) (simp add: hp0_def)
  note st = chain_store [OF hp0_inv(1) c, of 0, where v = "0xBF500000"]
  have f: "BLOCKCHAIN_START hp1 = 0xC010A000" "unat (BLOCKS_ALLOCATED hp1) = 1" "K_LAST_ALLOC hp1 = 0xFF800000"
    "K_HEAP_TOP hp1 = 0xFF800000" "mem hp1 = mem (hp0\<lparr>mem := store32 (mem hp0) (c32.idx 0xC010A000 0) 0xBF500000\<rparr>)"
    by (simp_all add: hp1_def hp0_def)
  show ch: "chain hp1 = [0xBF500000]" using st(3) [of 0] by (simp add: chain_def f(1,2)) (simp add: f(5))
  have lay: "layout hp1" "client hp1 0xC010A000 4096"
    using layout_cong [of hp1 "hp0\<lparr>mem := store32 (mem hp0) (c32.idx 0xC010A000 0) 0xBF500000\<rparr>"] st(1,2) c
    by (simp_all add: hp1_def)
  have z: "load32 (mem hp1) (c32.idx 0xC010A000 i) = 0" if "1 \<le> i" "i < 1024" for i
    using st(3) [of i] that by (simp only: f(5)) (simp add: hp0_def load32_def)
  show "heap_inv hp1"
    unfolding heap_inv_def using lay z by (simp add: f(1-4) ch bsize_mod K_HEAP_BOTTOM_def)
qed (simp add: hp1_def hp0_def)

text \<open>States of different records that agree on the fields of the heap.\<close>

lemma heap_inv_cong:
  assumes "mem t = mem s" "MM_HEAP t = MM_HEAP s" "MM_CURRENT_PD t = MM_CURRENT_PD s" "MM_CURRENT_PT t = MM_CURRENT_PT s"
    "CURRENT_PAGE_DIRECTORY t = CURRENT_PAGE_DIRECTORY s" "BLOCKCHAIN_START t = BLOCKCHAIN_START s"
    "BLOCKS_ALLOCATED t = BLOCKS_ALLOCATED s" "K_HEAP_TOP t = K_HEAP_TOP s" "K_LAST_ALLOC t = K_LAST_ALLOC s"
  shows "chain t = chain s" "heap_inv t = heap_inv s"
proof -
  show c: "chain t = chain s" using assms by (simp add: chain_def)
  show "heap_inv t = heap_inv s"
    unfolding heap_inv_def c layout_cong [OF assms(1-5)] using assms by simp
qed

text \<open>Messages that do not come back while the lock is held are never printed and survived.\<close>

lemma blockchain_add_memlock: "memlock (snd (blockchain_add n s)) = memlock s"
  by (simp add: blockchain_add_def Let_def)

lemma malloc_with_locked:
  assumes "\<And>s. memlock s \<noteq> 0 \<Longrightarrow> tf s = None" "\<And>s. memlock s \<noteq> 0 \<Longrightarrow> pf s = None"
  shows "malloc_with tf pf n s = malloc n s"
proof -
  have tr: "translate tf b t = translate (\<lambda>_. None) b t" if "memlock t \<noteq> 0" for b t
    using assms(1) [OF that] by (simp add: translate_def Let_def cong: if_cong)
  have sb: "sbrk_with pf k t = sbrk_with (\<lambda>_. None) k t" if "memlock t \<noteq> 0" for k t
    using assms(2) [OF that] by (simp add: sbrk_with_def)
  show ?thesis
  proof (cases "n = 0 \<or> memlock s \<noteq> 0")
    case True
    then show ?thesis by (auto simp: malloc_def malloc_with_def acquire_memlock_def)
  next
    case False
    let ?s = "s\<lparr>memlock := 1\<rparr>"
    obtain r t where t: "blockchain_add n ?s = (r, t)" by (cases "blockchain_add n ?s")
    then have "memlock t \<noteq> 0" using blockchain_add_memlock [of n ?s] by simp
    then show ?thesis
      using False t by (simp add: malloc_def malloc_with_def acquire_memlock_def tr sb Let_def split del: if_split cong: if_cong bind_option_cong)
  qed
qed

end
