(* ===== verification/Ports.thy ===== *)
theory Ports
  imports Malloc
begin

text \<open>
  Port input and output, the wrappers of \<^verbatim>\<open>arch/x86.c\<close>.  What a device answers is not known to the
  kernel: the state carries the answers to come, and the accesses in the order they happen.
\<close>

section \<open>State\<close>

datatype io_event =
    Outb u16 u8
  | Outw u16 u16
  | Outl u16 u32
  | Inb u16 u8
  | Inw u16 u16
  | Inl u16 u32

text \<open>\<open>io_in n\<close> is the value the \<open>n\<close>-th read from now on brings.\<close>

record io_state = heap_state +
  io_log :: "io_event list"
  io_in :: "nat \<Rightarrow> u32"

definition io_read :: "'a io_state_scheme \<Rightarrow> u32 \<times> 'a io_state_scheme" where
  "io_read s = (io_in s 0, s\<lparr>io_in := \<lambda>n. io_in s (Suc n)\<rparr>)"

definition io_event :: "io_event \<Rightarrow> 'a io_state_scheme \<Rightarrow> 'a io_state_scheme" where
  "io_event e s = s\<lparr>io_log := io_log s @ [e]\<rparr>"

section \<open>Operations\<close>

definition inb :: "u16 \<Rightarrow> 'a io_state_scheme \<Rightarrow> u8 \<times> 'a io_state_scheme" where
  "inb port s = (let (v, s) = io_read s in (ucast v, io_event (Inb port (ucast v)) s))"

definition outb :: "u16 \<Rightarrow> u16 \<Rightarrow> 'a io_state_scheme \<Rightarrow> 'a io_state_scheme" where
  "outb port data s = io_event (Outb port (ucast data)) s"

definition inw :: "u16 \<Rightarrow> 'a io_state_scheme \<Rightarrow> u16 \<times> 'a io_state_scheme" where
  "inw port s = (let (v, s) = io_read s in (ucast v, io_event (Inw port (ucast v)) s))"

definition outw :: "u16 \<Rightarrow> u16 \<Rightarrow> 'a io_state_scheme \<Rightarrow> 'a io_state_scheme" where
  "outw port data s = io_event (Outw port data) s"

definition outl :: "u16 \<Rightarrow> u32 \<Rightarrow> 'a io_state_scheme \<Rightarrow> 'a io_state_scheme" where
  "outl port data s = io_event (Outl port data) s"

text \<open>\<^verbatim>\<open>inl\<close> reads the port and ends without returning what it read.\<close>

definition inl :: "u16 \<Rightarrow> 'a io_state_scheme \<Rightarrow> u64 \<times> 'a io_state_scheme" where
  "inl port s = (let (v, s) = io_read s in (ucast (indet s), io_event (Inl port v) s))"

text \<open>The repeated string instructions: \<open>cnt\<close> double words from or to consecutive addresses.\<close>

fun outsl :: "u16 \<Rightarrow> u32 \<Rightarrow> nat \<Rightarrow> 'a io_state_scheme \<Rightarrow> 'a io_state_scheme" where
  "outsl port addr 0 s = s"
| "outsl port addr (Suc cnt) s = outsl port (addr + 4) cnt (io_event (Outl port (load32 (mem s) addr)) s)"

fun insl :: "u16 \<Rightarrow> u32 \<Rightarrow> nat \<Rightarrow> 'a io_state_scheme \<Rightarrow> 'a io_state_scheme" where
  "insl port addr 0 s = s"
| "insl port addr (Suc cnt) s =
    (let (v, s) = io_read s; s = io_event (Inl port v) s in
     insl port (addr + 4) cnt (s\<lparr>mem := store32 (mem s) addr v\<rparr>))"

section \<open>What they leave unchanged\<close>

lemma io_event_simps [simp]:
  "mem (io_event e s) = mem s" "io_log (io_event e s) = io_log s @ [e]" "io_in (io_event e s) = io_in s"
  "indet (io_event e s) = indet s"
  by (simp_all add: io_event_def)

lemma outb_simps [simp]:
  "mem (outb p d s) = mem s" "io_log (outb p d s) = io_log s @ [Outb p (ucast d)]" "io_in (outb p d s) = io_in s"
  by (simp_all add: outb_def)

lemma inb_value [simp]: "fst (inb p s) = ucast (io_in s 0)"
  by (simp add: inb_def io_read_def)

lemma inb_state [simp]:
  "mem (snd (inb p s)) = mem s" "io_log (snd (inb p s)) = io_log s @ [Inb p (ucast (io_in s 0))]"
  "io_in (snd (inb p s)) = (\<lambda>n. io_in s (Suc n))"
  by (simp_all add: inb_def io_read_def)

lemma outsl_log:
  "io_log (outsl port addr cnt s) = io_log s @ map (\<lambda>i. Outl port (load32 (mem s) (addr + of_nat (4 * i)))) [0..<cnt]"
proof (induction cnt arbitrary: addr s)
  case (Suc cnt)
  have "[0..<Suc cnt] = 0 # map Suc [0..<cnt]" by (simp add: map_Suc_upt upt_conv_Cons)
  then show ?case by (simp del: upt_Suc add: Suc comp_def algebra_simps)
qed simp

lemma outsl_mem [simp]: "mem (outsl port addr cnt s) = mem s"
  by (induction cnt arbitrary: addr s) simp_all

text \<open>A block read fills the buffer with the words the device sends, in order, and nothing else.\<close>

lemma insl_array:
  assumes "k + cnt \<le> N" "4 * N \<le> 2 ^ 32"
  shows "(\<forall>i<N. load32 (mem (insl port (c32.idx addr k) cnt s)) (c32.idx addr i) =
      (if k \<le> i \<and> i < k + cnt then io_in s (i - k) else load32 (mem s) (c32.idx addr i))) \<and>
    (\<forall>b. 4 * N \<le> off addr b \<longrightarrow> mem (insl port (c32.idx addr k) cnt s) b = mem s b)"
  using assms(1)
proof (induction cnt arbitrary: k s)
  case (Suc cnt)
  define t where "t = (io_event (Inl port (io_in s 0)) (s\<lparr>io_in := \<lambda>n. io_in s (Suc n)\<rparr>))
    \<lparr>mem := store32 (mem s) (c32.idx addr k) (io_in s 0)\<rparr>"
  have step: "insl port (c32.idx addr k) (Suc cnt) s = insl port (c32.idx addr (Suc k)) cnt t"
    by (simp add: t_def io_read_def Let_def c32.idx_def algebra_simps)
  have t: "io_in t n = io_in s (Suc n)" "mem t = store32 (mem s) (c32.idx addr k) (io_in s 0)" for n
    by (simp_all add: t_def)
  have k: "k < N" using Suc.prems by simp
  note IH = Suc.IH [of "Suc k" t]
  show ?case unfolding step
  proof (intro conjI allI impI)
    fix i assume i: "i < N"
    have "load32 (mem t) (c32.idx addr i) = (if k = i then io_in s 0 else load32 (mem s) (c32.idx addr i))"
      unfolding t by (rule c32.ld_st_idx [OF k i]) (use assms(2) in simp)
    then show "load32 (mem (insl port (c32.idx addr (Suc k)) cnt t)) (c32.idx addr i) =
      (if k \<le> i \<and> i < k + Suc cnt then io_in s (i - k) else load32 (mem s) (c32.idx addr i))"
      using IH Suc.prems i by (auto simp: t(1) Suc_diff_Suc Suc_le_eq)
  next
    fix b assume b: "4 * N \<le> off addr b"
    have "store32 (mem s) (c32.idx addr k) (io_in s 0) b = mem s b"
      by (rule c32.st_idx_frame [OF k]) (use assms(2) b in simp_all)
    then show "mem (insl port (c32.idx addr (Suc k)) cnt t) b = mem s b"
      using IH Suc.prems b by (simp add: t(2))
  qed
qed auto

lemma insl_mem:
  assumes "4 * cnt \<le> 2 ^ 32"
  shows "i < cnt \<Longrightarrow> load32 (mem (insl port addr cnt s)) (c32.idx addr i) = io_in s i"
    and "4 * cnt \<le> off addr b \<Longrightarrow> mem (insl port addr cnt s) b = mem s b"
  using insl_array [of 0 cnt cnt port addr s] assms by (simp_all add: c32.idx_def)

end
