(* ===== verification/Vga.thy ===== *)
theory Vga
  imports Ports
begin

text \<open>
  The text console, \<^verbatim>\<open>drivers/vga.c\<close>: 25 lines of 80 cells of two bytes in video memory, the cursor
  (\<^verbatim>\<open>CURRENT_X\<close> counts bytes, so a line is 160 wide) and scrolling.
\<close>

section \<open>State and operations\<close>

record vga_state = io_state +
  CURRENT_X :: c_int
  CURRENT_Y :: c_int
  CURRENT_ATTRIB :: c_int

definition VGA_MEMORY :: u32 where
  "VGA_MEMORY = 0xC00B8000"

definition VGA_COLOR :: "u32 \<Rightarrow> u32 \<Rightarrow> u32" where
  "VGA_COLOR f b = push_bit 4 b OR (f AND 0xF)"

definition VGA_BLACK :: u32 where "VGA_BLACK = 0"
definition VGA_WHITE :: u32 where "VGA_WHITE = 0xF"

definition vga_current_x :: "'a vga_state_scheme \<Rightarrow> c_int" where
  "vga_current_x s = CURRENT_X s"

definition vga_current_y :: "'a vga_state_scheme \<Rightarrow> c_int" where
  "vga_current_y s = CURRENT_Y s"

definition vga_move_cursor :: "u16 \<Rightarrow> u16 \<Rightarrow> 'a vga_state_scheme \<Rightarrow> 'a vga_state_scheme" where
  "vga_move_cursor x y s =
    (let temp = (ucast y * 80 + ucast x :: u32);
         s = outb 0x3D4 14 s;
         s = outb 0x3D5 (ucast (drop_bit 8 temp)) s;
         s = outb 0x3D4 15 s
     in outb 0x3D5 (ucast temp) s)"

definition vga_update_cursor :: "'a vga_state_scheme \<Rightarrow> 'a vga_state_scheme" where
  "vga_update_cursor s = vga_move_cursor (word_of_int (sint (CURRENT_X s) sdiv 2)) (ucast (CURRENT_Y s)) s"

definition vga_setcolor :: "c_int \<Rightarrow> 'a vga_state_scheme \<Rightarrow> 'a vga_state_scheme" where
  "vga_setcolor color s = s\<lparr>CURRENT_ATTRIB := color\<rparr>"

text \<open>\<open>k\<close> counts the cells left.\<close>

fun vga_clear_loop :: "nat \<Rightarrow> u32 \<Rightarrow> 'a vga_state_scheme \<Rightarrow> 'a vga_state_scheme" where
  "vga_clear_loop 0 vga_address s = s"
| "vga_clear_loop (Suc k) vga_address s =
    vga_clear_loop k (vga_address + 2)
      (s\<lparr>mem := (mem s)(vga_address := 0, vga_address + 1 := ucast (CURRENT_ATTRIB s))\<rparr>)"

definition vga_clear :: "'a vga_state_scheme \<Rightarrow> 'a vga_state_scheme" where
  "vga_clear s =
    (let s = vga_clear_loop (80 * 25) VGA_MEMORY s in s\<lparr>CURRENT_Y := 0, CURRENT_X := 0\<rparr>)"

definition vga_scroll :: "'a vga_state_scheme \<Rightarrow> 'a vga_state_scheme" where
  "vga_scroll s =
    (let s = (if 25 \<le>s CURRENT_Y s
              then let temp = (ucast (CURRENT_Y s - 24) :: u8);
                       m = fst (memcpy (mem s) VGA_MEMORY (VGA_MEMORY + ucast temp * 160) ((25 - ucast temp) * 160 * 2));
                       m = memsetw m (VGA_MEMORY + 24 * 160) (push_bit 8 (CURRENT_ATTRIB s)) 160
                   in s\<lparr>mem := m, CURRENT_Y := 24\<rparr>
              else s)
     in vga_update_cursor s)"

function overwrite_loop :: "c_int \<Rightarrow> int \<Rightarrow> int \<Rightarrow> mem \<Rightarrow> mem" where
  "overwrite_loop color i sizeend m =
    (if i < sizeend then overwrite_loop color (i + 2) sizeend (m(VGA_MEMORY + word_of_int i := ucast color)) else m)"
  by auto
termination by (relation "measure (\<lambda>(color, i, sizeend, m). nat (sizeend - i))") auto

declare overwrite_loop.simps [simp del]

definition vga_overwrite_color :: "c_int \<Rightarrow> c_int \<Rightarrow> c_int \<Rightarrow> c_int \<Rightarrow> c_int \<Rightarrow> 'a vga_state_scheme \<Rightarrow> 'a vga_state_scheme" where
  "vga_overwrite_color color start_x start_y end_x end_y s =
    (let sizeend = 2 * end_x + 160 * end_y in
     s\<lparr>mem := overwrite_loop color (sint (start_x + 1 + 160 * start_y)) (sint sizeend) (mem s)\<rparr>)"

text \<open>\<^verbatim>\<open>isascii\<close> of a signed \<^verbatim>\<open>char\<close>.\<close>

definition vga_kputc :: "u8 \<Rightarrow> c_int \<Rightarrow> c_int \<Rightarrow> 'a vga_state_scheme \<Rightarrow> 'a vga_state_scheme" where
  "vga_kputc c x y s =
    (let vga_address = VGA_MEMORY + (x + y * 160) in
     if sint c \<ge> 0 \<and> sint c \<le> 127
     then s\<lparr>mem := store16 (mem s) vga_address (ucast (scast c OR push_bit 8 (CURRENT_ATTRIB s)))\<rparr>
     else s)"

partial_function (option) vga_kputs :: "u32 \<Rightarrow> c_int \<Rightarrow> c_int \<Rightarrow> 'a vga_state_scheme \<Rightarrow> 'a vga_state_scheme option" where
  "vga_kputs p x y s =
    (if mem s p \<noteq> 0 then vga_kputs (p + 1) (x + 2) y (vga_kputc (mem s p) (x + 2) y s) else Some s)"

text \<open>\<^verbatim>\<open>while (CURRENT_X % 16) CURRENT_X++\<close>.\<close>

function tab_loop :: "c_int \<Rightarrow> c_int" where
  "tab_loop x = (if unat x mod 16 \<noteq> 0 then tab_loop (x + 1) else x)"
  by auto
termination
proof (relation "measure (\<lambda>x. (16 - unat x mod 16) mod 16)", goal_cases)
  case (2 x)
  have "unat (x + 1) mod 16 = Suc (unat x) mod 16"
    using mod_mod_cancel [of 16 "2 ^ 32" "Suc (unat x)"] by (simp add: unat_word_ariths)
  also have "\<dots> = (if Suc (unat x mod 16) = 16 then 0 else Suc (unat x mod 16))" by (rule mod_Suc)
  finally show ?case using 2 mod_less_divisor [of 16 "unat x"] by (simp del: mod_less_divisor) linarith
qed simp

declare tab_loop.simps [simp del]

definition vga_putc :: "u8 \<Rightarrow> 'a vga_state_scheme \<Rightarrow> 'a vga_state_scheme" where
  "vga_putc c s =
    (if c = 10 then vga_scroll (s\<lparr>CURRENT_Y := CURRENT_Y s + 1, CURRENT_X := 0\<rparr>)
     else if c = 8 then let s = s\<lparr>CURRENT_X := CURRENT_X s - 2\<rparr> in vga_kputc 32 (CURRENT_X s) (CURRENT_Y s) s
     else if c = 9 then
       let s = s\<lparr>CURRENT_X := tab_loop (CURRENT_X s) + 2\<rparr> in
       if 160 \<le>s CURRENT_X s then s\<lparr>CURRENT_X := 0, CURRENT_Y := CURRENT_Y s + 1\<rparr> else s
     else
       let s = vga_kputc c (CURRENT_X s) (CURRENT_Y s) s;
           s = s\<lparr>CURRENT_X := CURRENT_X s + 2\<rparr>;
           s = (if 160 \<le>s CURRENT_X s then s\<lparr>CURRENT_X := 0, CURRENT_Y := CURRENT_Y s + 1\<rparr> else s)
       in vga_scroll s)"

partial_function (option) vga_puts :: "u32 \<Rightarrow> 'a vga_state_scheme \<Rightarrow> 'a vga_state_scheme option" where
  "vga_puts p s = (if mem s p \<noteq> 0 then vga_puts (p + 1) (vga_putc (mem s p) s) else Some s)"

definition vga_pretty :: "u32 \<Rightarrow> c_int \<Rightarrow> 'a vga_state_scheme \<Rightarrow> 'a vga_state_scheme option" where
  "vga_pretty p color s =
    (let start_x = CURRENT_X s; start_y = CURRENT_Y s in do {
       s \<leftarrow> vga_puts p s;
       Some (vga_overwrite_color color start_x start_y 80 (CURRENT_Y s) s) })"

definition vga_init :: "'a vga_state_scheme \<Rightarrow> 'a vga_state_scheme" where
  "vga_init s = vga_clear (vga_setcolor (VGA_COLOR VGA_WHITE VGA_BLACK) s)"

section \<open>Copies and fills\<close>

text \<open>A forward copy to a lower address is exact although the two ranges overlap.\<close>

lemma memcpy_loop_down:
  assumes "\<And>k. k < unat n \<Longrightarrow> k \<le> off d (s + of_nat k)"
  shows "memcpy_loop m d s n i b = (if unat i \<le> off d b \<and> off d b < unat n
    then m (s + (b - d)) else m b)"
  using assms
proof (induction m d s n i rule: memcpy_loop.induct)
  case (1 m d s n i)
  show ?case
  proof (cases "i < n")
    case True
    have di: "(b = d + i) \<longleftrightarrow> off d b = unat i"
      by (metis off_add off_eq_iff)
    have src: "s + (b - d) \<noteq> d + i" if "off d b < unat n" "unat i < off d b"
    proof
      assume "s + (b - d) = d + i"
      then have "off d (s + of_nat (off d b)) = unat i"
        by (simp add: off_def)
      with "1.prems" [OF that(1)] that(2) show False by simp
    qed
    have "memcpy_loop m d s n i b = memcpy_loop (m(d + i := m (s + i))) d s n (i + 1) b"
      using True by (subst memcpy_loop.simps) simp
    with di src show ?thesis
      using True
      by (simp only: "1.IH" [OF True "1.prems"] unat_add_one_less [OF True] fun_upd_apply)
        (auto simp: word_less_nat_alt)
  next
    case False
    then show ?thesis
      by (auto simp: memcpy_loop.simps [of m d s n i] word_less_nat_alt)
  qed
qed

lemma memcpy_down:
  assumes "unat n + k \<le> 2 ^ 32"
  shows "fst (memcpy m d (d + of_nat k) n) b = (if off d b < unat n then m (b + of_nat k) else m b)"
proof -
  have "j \<le> off d (d + of_nat k + of_nat j)" if "j < unat n" for j
  proof -
    have "d + of_nat k + of_nat j = d + of_nat (k + j)" by simp
    moreover have "k + j < 2 ^ 32" using that assms by simp
    ultimately show ?thesis using off_add_nat [of "k + j" d] by (simp only:)
  qed
  then show ?thesis
    using memcpy_loop_down [of n d "d + of_nat k" m 0 b] by (simp add: memcpy_def algebra_simps)
qed

lemma memsetw_loop_array:
  assumes "unat i \<le> unat n" "2 * unat n \<le> 2 ^ 32"
  shows "(\<forall>j<unat n. load16 (memsetw_loop m (c16.idx d (unat i)) c n i) (c16.idx d j) =
      (if unat i \<le> j then ucast c else load16 m (c16.idx d j))) \<and>
    (\<forall>b. 2 * unat n \<le> off d b \<longrightarrow> memsetw_loop m (c16.idx d (unat i)) c n i b = m b)"
  using assms(1)
proof (induction "unat n - unat i" arbitrary: m i)
  case 0
  then have "\<not> i < n" by (simp add: word_less_nat_alt)
  then show ?case using 0 by (simp add: memsetw_loop.simps)
next
  case (Suc u)
  then have lt: "i < n" by (simp add: word_less_nat_alt)
  have i1: "unat (i + 1) = Suc (unat i)" using unat_add_one_less [OF lt] by simp
  define m1 where "m1 = store16 m (c16.idx d (unat i)) (ucast c)"
  have step: "memsetw_loop m (c16.idx d (unat i)) c n i = memsetw_loop m1 (c16.idx d (unat (i + 1))) c n (i + 1)"
    using lt by (subst memsetw_loop.simps) (simp add: i1 m1_def c16.idx_def algebra_simps)
  have in1: "unat i < unat n" using lt by (simp add: word_less_nat_alt)
  have IH: "(\<forall>j<unat n. load16 (memsetw_loop m1 (c16.idx d (unat (i + 1))) c n (i + 1)) (c16.idx d j) =
      (if unat (i + 1) \<le> j then ucast c else load16 m1 (c16.idx d j))) \<and>
    (\<forall>b. 2 * unat n \<le> off d b \<longrightarrow> memsetw_loop m1 (c16.idx d (unat (i + 1))) c n (i + 1) b = m1 b)"
    by (rule Suc.hyps) (use Suc.hyps(2) i1 in1 in simp_all)
  show ?case unfolding step
  proof (intro conjI allI impI)
    fix j assume j: "j < unat n"
    have "load16 m1 (c16.idx d j) = (if unat i = j then ucast c else load16 m (c16.idx d j))"
      unfolding m1_def by (rule c16.ld_st_idx [OF in1 j]) (use assms(2) in simp)
    then show "load16 (memsetw_loop m1 (c16.idx d (unat (i + 1))) c n (i + 1)) (c16.idx d j) =
      (if unat i \<le> j then ucast c else load16 m (c16.idx d j))"
      using IH j by (auto simp: i1)
  next
    fix b assume b: "2 * unat n \<le> off d b"
    have "m1 b = m b" unfolding m1_def by (rule c16.st_idx_frame [OF in1]) (use assms(2) b in simp_all)
    then show "memsetw_loop m1 (c16.idx d (unat (i + 1))) c n (i + 1) b = m b" using IH b by simp
  qed
qed

lemma memsetw_array:
  assumes "2 * unat n \<le> 2 ^ 32"
  shows "j < unat n \<Longrightarrow> load16 (memsetw m d c n) (c16.idx d j) = ucast c"
    and "2 * unat n \<le> off d b \<Longrightarrow> memsetw m d c n b = m b"
  using memsetw_loop_array [of 0 n m d c] assms by (simp_all add: memsetw_def c16.idx_def)

section \<open>The cursor\<close>

definition cursor_ok :: "'a vga_state_scheme \<Rightarrow> bool" where
  "cursor_ok s \<longleftrightarrow> unat (CURRENT_X s) < 160 \<and> even (unat (CURRENT_X s)) \<and> unat (CURRENT_Y s) < 25"

text \<open>
  The bytes printing may touch: scrolling copies twice as many bytes as the screen below the first line
  holds.
\<close>

definition vga_frame :: "mem \<Rightarrow> mem \<Rightarrow> bool" where
  "vga_frame m m' \<longleftrightarrow> (\<forall>b. 7680 \<le> off VGA_MEMORY b \<longrightarrow> m' b = m b)"

lemma update_cursor_simps [simp]:
  "mem (vga_update_cursor s) = mem s" "CURRENT_X (vga_update_cursor s) = CURRENT_X s"
  "CURRENT_Y (vga_update_cursor s) = CURRENT_Y s" "CURRENT_ATTRIB (vga_update_cursor s) = CURRENT_ATTRIB s"
  by (simp_all add: vga_update_cursor_def vga_move_cursor_def Let_def outb_def io_event_def)

lemma uint_small: "unat (w :: u32) < n \<Longrightarrow> uint w < int n"
proof -
  assume "unat w < n"
  then have "int (unat w) < int n" by (simp only: of_nat_less_iff)
  then show ?thesis by simp
qed

lemma sint_small:
  assumes "unat (w :: u32) < 2 ^ 31"
  shows "sint w = uint w"
proof -
  have "uint w < 2 ^ 31" using uint_small [OF assms] by simp
  then have "signed_take_bit 31 (uint w) = uint w"
    by (subst signed_take_bit_int_eq_self_iff) (use uint_ge_0 [of w] in linarith)
  then show ?thesis by (simp add: sint_uint)
qed

lemma scroll_none:
  assumes "unat (CURRENT_Y s) < 25"
  shows "vga_scroll s = vga_update_cursor s"
proof -
  have "\<not> 25 \<le>s CURRENT_Y s" using assms uint_small [OF assms] by (simp add: word_sle_eq sint_small)
  then show ?thesis by (simp add: vga_scroll_def)
qed

lemma scroll_one:
  assumes "CURRENT_Y s = 25"
  defines "m \<equiv> fst (memcpy (mem s) VGA_MEMORY (VGA_MEMORY + 160) 7680)"
  defines "m' \<equiv> memsetw m (VGA_MEMORY + 3840) (push_bit 8 (CURRENT_ATTRIB s)) 160"
  shows "vga_scroll s = vga_update_cursor (s\<lparr>mem := m', CURRENT_Y := 24\<rparr>)"
  using assms by (simp add: vga_scroll_def Let_def word_sle_eq)

lemma scroll_screen:
  assumes "CURRENT_Y s = 25"
  shows "j < 3840 \<Longrightarrow> mem (vga_scroll s) (VGA_MEMORY + of_nat j) = mem s (VGA_MEMORY + of_nat (j + 160))"
    and "i < 80 \<Longrightarrow> load16 (mem (vga_scroll s)) (VGA_MEMORY + of_nat (3840 + 2 * i)) = ucast (push_bit 8 (CURRENT_ATTRIB s))"
    and "vga_frame (mem s) (mem (vga_scroll s))" "CURRENT_Y (vga_scroll s) = 24" "CURRENT_X (vga_scroll s) = CURRENT_X s"
proof -
  let ?m = "fst (memcpy (mem s) VGA_MEMORY (VGA_MEMORY + 160) 7680)"
  note sc = scroll_one [OF assms]
  have mc: "?m b = (if off VGA_MEMORY b < 7680 then mem s (b + 160) else mem s b)" for b
    using memcpy_down [of 7680 160 "mem s" VGA_MEMORY b] by simp
  show "CURRENT_Y (vga_scroll s) = 24" "CURRENT_X (vga_scroll s) = CURRENT_X s" by (simp_all add: sc)
  have ms: "mem (vga_scroll s) b = ?m b" if "320 \<le> off (VGA_MEMORY + 3840) b" for b
    using memsetw_array(2) [of 160 "VGA_MEMORY + 3840" b ?m] that by (simp add: sc)
  have lo: "320 \<le> off (VGA_MEMORY + 3840) (VGA_MEMORY + of_nat j)" if "j < 3840" for j
  proof -
    have "unat (VGA_MEMORY + of_nat j) = 0xC00B8000 + j"
      using that by (simp add: VGA_MEMORY_def unat_word_ariths unat_of_nat)
    then show ?thesis using that by (simp add: off_unat VGA_MEMORY_def)
  qed
  show "mem (vga_scroll s) (VGA_MEMORY + of_nat j) = mem s (VGA_MEMORY + of_nat (j + 160))" if "j < 3840" for j
    using ms [OF lo [OF that]] mc [of "VGA_MEMORY + of_nat j"] that off_add_nat [of j VGA_MEMORY] by (simp add: algebra_simps)
  show "load16 (mem (vga_scroll s)) (VGA_MEMORY + of_nat (3840 + 2 * i)) = ucast (push_bit 8 (CURRENT_ATTRIB s))" if "i < 80" for i
  proof -
    have "load16 (memsetw ?m (VGA_MEMORY + 3840) (push_bit 8 (CURRENT_ATTRIB s)) 160) (c16.idx (VGA_MEMORY + 3840) i) =
        ucast (push_bit 8 (CURRENT_ATTRIB s))"
      by (rule memsetw_array(1)) (use that in simp_all)
    moreover have "c16.idx (VGA_MEMORY + 3840) i = VGA_MEMORY + of_nat (3840 + 2 * i)" by (simp add: c16.idx_def)
    moreover have "mem (vga_scroll s) = memsetw ?m (VGA_MEMORY + 3840) (push_bit 8 (CURRENT_ATTRIB s)) 160" by (simp add: sc)
    ultimately show ?thesis by (simp only:)
  qed
  show "vga_frame (mem s) (mem (vga_scroll s))"
    unfolding vga_frame_def
  proof (intro allI impI)
    fix b assume b: "7680 \<le> off VGA_MEMORY b"
    have "off (VGA_MEMORY + 3840) b = off VGA_MEMORY b - 3840"
      using off_rebase [of 3840 VGA_MEMORY b] b by simp
    with b ms [of b] mc [of b] show "mem (vga_scroll s) b = mem s b" by simp
  qed
qed

lemma kputc_frame_at:
  assumes "x + y * 160 = of_nat k" "k < 7678"
  shows "vga_frame (mem s) (mem (vga_kputc c x y s))"
  unfolding vga_frame_def
proof (intro allI impI)
  fix b assume b: "7680 \<le> off VGA_MEMORY b"
  have "2 \<le> off (VGA_MEMORY + of_nat k) b"
    by (subst off_rebase) (use b assms(2) in simp_all)
  then show "mem (vga_kputc c x y s) b = mem s b"
    by (simp only: vga_kputc_def Let_def assms(1)) (simp add: c16.st_frame)
qed

lemma kputc_frame:
  assumes "cursor_ok s"
  shows "vga_frame (mem s) (mem (vga_kputc c (CURRENT_X s) (CURRENT_Y s) s))"
  by (rule kputc_frame_at [of _ _ "unat (CURRENT_X s) + unat (CURRENT_Y s) * 160"]) (use assms in \<open>simp_all add: cursor_ok_def\<close>)

lemma kputc_simps [simp]:
  "CURRENT_X (vga_kputc c x y s) = CURRENT_X s" "CURRENT_Y (vga_kputc c x y s) = CURRENT_Y s"
  "CURRENT_ATTRIB (vga_kputc c x y s) = CURRENT_ATTRIB s"
  by (simp_all add: vga_kputc_def Let_def)

text \<open>Scrolling brings a cursor that has just left the screen back.\<close>

lemma scroll_ok:
  assumes "unat (CURRENT_X s) < 160" "even (unat (CURRENT_X s))" "unat (CURRENT_Y s) \<le> 25"
  shows "cursor_ok (vga_scroll s) \<and> vga_frame (mem s) (mem (vga_scroll s))"
proof (cases "CURRENT_Y s = 25")
  case True
  then show ?thesis using scroll_screen [OF True] assms by (simp add: cursor_ok_def)
next
  case False
  then have "unat (CURRENT_Y s) \<noteq> unat (25 :: u32)" by (metis word_unat_eq_iff)
  then have "unat (CURRENT_Y s) < 25" using assms(3) by simp
  then show ?thesis using assms by (simp add: scroll_none cursor_ok_def vga_frame_def)
qed

text \<open>A character that is neither a backspace nor a tab leaves the cursor on the screen.\<close>

lemma putc_plain:
  assumes "cursor_ok s" "c \<noteq> 8" "c \<noteq> 9"
  shows "cursor_ok (vga_putc c s) \<and> vga_frame (mem s) (mem (vga_putc c s))"
proof -
  have y: "unat (CURRENT_Y s + 1) = unat (CURRENT_Y s) + 1" "unat (CURRENT_X s + 2) = unat (CURRENT_X s) + 2"
    using assms(1) by (simp_all add: cursor_ok_def unat_word_ariths)
  have u: "uint (CURRENT_X s + 2) < 162" using uint_small [of "CURRENT_X s + 2" 162] y(2) assms(1) by (simp add: cursor_ok_def)
  show ?thesis
  proof (cases "c = 10")
    case True
    then show ?thesis using scroll_ok [of "s\<lparr>CURRENT_Y := CURRENT_Y s + 1, CURRENT_X := 0\<rparr>"] y assms(1)
      by (simp add: vga_putc_def cursor_ok_def)
  next
    case False
    define t where "t = vga_kputc c (CURRENT_X s) (CURRENT_Y s) s"
    have t: "CURRENT_X t = CURRENT_X s" "CURRENT_Y t = CURRENT_Y s" "vga_frame (mem s) (mem t)"
      using kputc_frame [OF assms(1)] by (simp_all add: t_def)
    define w where "w = (let t = t\<lparr>CURRENT_X := CURRENT_X t + 2\<rparr> in
      if 160 \<le>s CURRENT_X t then t\<lparr>CURRENT_X := 0, CURRENT_Y := CURRENT_Y t + 1\<rparr> else t)"
    have p: "vga_putc c s = vga_scroll w" using False assms(2,3) by (simp add: vga_putc_def Let_def w_def t_def)
    have w: "mem w = mem t" "unat (CURRENT_X w) < 160" "even (unat (CURRENT_X w))" "unat (CURRENT_Y w) \<le> 25"
    proof -
      have "160 \<le>s CURRENT_X s + 2 \<longleftrightarrow> 160 \<le> unat (CURRENT_X s) + 2"
      proof -
        have "sint (CURRENT_X s + 2) = uint (CURRENT_X s + 2)" by (rule sint_small) (use y assms(1) in \<open>simp add: cursor_ok_def\<close>)
        moreover have "uint (CURRENT_X s + 2) = int (unat (CURRENT_X s) + 2)" unfolding y(2) [symmetric] by simp
        moreover have "int 160 \<le> int (unat (CURRENT_X s) + 2) \<longleftrightarrow> 160 \<le> unat (CURRENT_X s) + 2" by (simp only: of_nat_le_iff)
        ultimately show ?thesis unfolding word_sle_eq by simp
      qed
      then show "mem w = mem t" "unat (CURRENT_X w) < 160" "even (unat (CURRENT_X w))" "unat (CURRENT_Y w) \<le> 25"
        using assms(1) y t(1,2) by (auto simp: w_def Let_def cursor_ok_def)
    qed
    show ?thesis using scroll_ok [OF w(2-4)] t(3) w(1) unfolding p by (simp add: vga_frame_def)
  qed
qed

text \<open>A backspace moves the cursor back one cell; there is no test for the start of the line.\<close>

lemma putc_backspace_X: "CURRENT_X (vga_putc 8 s) = CURRENT_X s - 2" "CURRENT_Y (vga_putc 8 s) = CURRENT_Y s"
  by (simp_all add: vga_putc_def Let_def)

lemma putc_backspace:
  assumes "cursor_ok s"
  shows "cursor_ok (vga_putc 8 s) \<longleftrightarrow> CURRENT_X s \<noteq> 0"
    and "CURRENT_X s \<noteq> 0 \<or> CURRENT_Y s \<noteq> 0 \<Longrightarrow> vga_frame (mem s) (mem (vga_putc 8 s))"
proof -
  have u: "unat (CURRENT_X s - 2) = unat (CURRENT_X s) - 2" "2 \<le> unat (CURRENT_X s)" if "CURRENT_X s \<noteq> 0"
  proof -
    have "unat (CURRENT_X s) \<noteq> 0" using that by (simp add: unat_eq_0)
    moreover have "unat (CURRENT_X s) \<noteq> 1" using assms by (auto simp: cursor_ok_def)
    ultimately show "2 \<le> unat (CURRENT_X s)" by linarith
    then show "unat (CURRENT_X s - 2) = unat (CURRENT_X s) - 2" by (simp add: unat_sub word_le_nat_alt)
  qed
  show "cursor_ok (vga_putc 8 s) \<longleftrightarrow> CURRENT_X s \<noteq> 0"
  proof (cases "CURRENT_X s = 0")
    case False
    then show ?thesis using u assms by (auto simp: cursor_ok_def putc_backspace_X)
  qed (simp add: cursor_ok_def putc_backspace_X)
  assume a: "CURRENT_X s \<noteq> 0 \<or> CURRENT_Y s \<noteq> 0"
  let ?s = "s\<lparr>CURRENT_X := CURRENT_X s - 2\<rparr>" let ?k = "unat (CURRENT_X s) + unat (CURRENT_Y s) * 160"
  have "2 \<le> ?k"
  proof (cases "CURRENT_X s = 0")
    case True
    then have "unat (CURRENT_Y s) \<noteq> 0" using a by (simp add: unat_eq_0)
    then show ?thesis by simp
  qed (use u(2) in simp)
  then have k: "(of_nat (?k - 2) :: u32) = CURRENT_X s - 2 + CURRENT_Y s * 160" by (simp add: of_nat_diff)
  have "vga_frame (mem ?s) (mem (vga_kputc 32 (CURRENT_X s - 2) (CURRENT_Y s) ?s))"
    by (rule kputc_frame_at [OF k [symmetric]]) (use assms in \<open>unfold cursor_ok_def, linarith\<close>)
  then show "vga_frame (mem s) (mem (vga_putc 8 s))" by (simp add: vga_putc_def Let_def)
qed

text \<open>A tab goes one cell beyond the next multiple of sixteen bytes, and to the next line behind the last.\<close>

lemma tab_loop_round: "unat x \<le> 160 \<Longrightarrow> unat (tab_loop x) = (unat x + 15) div 16 * 16"
proof (induction x rule: tab_loop.induct)
  case (1 x)
  show ?case
  proof (cases "unat x mod 16 = 0")
    case True
    then have "(unat x + 15) div 16 * 16 = unat x" by presburger
    then show ?thesis using True by (subst tab_loop.simps) simp
  next
    case False
    then have "unat x < 160" using "1.prems" by (cases "unat x = 160") auto
    then have u: "unat (x + 1) = unat x + 1" by (simp add: unat_word_ariths)
    have "(unat x + 1 + 15) div 16 = (unat x + 15) div 16" using False by presburger
    then show ?thesis using "1.IH" [OF False] u \<open>unat x < 160\<close> False by (subst tab_loop.simps) (simp only: if_True simp_thms)
  qed
qed

lemma putc_tab:
  assumes "cursor_ok s"
  shows "CURRENT_Y (vga_putc 9 s) = (if 144 < unat (CURRENT_X s) then CURRENT_Y s + 1 else CURRENT_Y s)"
    and "unat (CURRENT_X (vga_putc 9 s)) < 160" "even (unat (CURRENT_X (vga_putc 9 s)))" "mem (vga_putc 9 s) = mem s"
proof -
  define n where "n = unat (CURRENT_X s)"
  let ?x = "tab_loop (CURRENT_X s) + 2"
  have n: "n < 160" using assms by (simp add: cursor_ok_def n_def)
  have t: "unat (tab_loop (CURRENT_X s)) = (n + 15) div 16 * 16" using tab_loop_round [of "CURRENT_X s"] n by (simp add: n_def)
  then have x: "unat ?x = (n + 15) div 16 * 16 + 2" using n by (simp add: unat_word_ariths)
  have "unat ?x < 2 ^ 31" using x n by simp
  then have "sint ?x = int (unat ?x)" using sint_small by simp
  moreover have "int 160 \<le> int (unat ?x) \<longleftrightarrow> 160 \<le> unat ?x" by (simp only: of_nat_le_iff)
  ultimately have le: "160 \<le>s ?x \<longleftrightarrow> 160 \<le> unat ?x" by (simp add: word_sle_eq)
  have c: "160 \<le> unat ?x \<longleftrightarrow> 144 < n" unfolding x using n by presburger
  show "CURRENT_Y (vga_putc 9 s) = (if 144 < unat (CURRENT_X s) then CURRENT_Y s + 1 else CURRENT_Y s)"
    "mem (vga_putc 9 s) = mem s"
    using le c by (simp_all add: vga_putc_def Let_def n_def)
  have "even (unat ?x)" unfolding x by simp
  then show "even (unat (CURRENT_X (vga_putc 9 s)))" by (simp add: vga_putc_def Let_def)
  have "\<not> 160 \<le> unat ?x \<Longrightarrow> unat ?x < 160" by simp
  then show "unat (CURRENT_X (vga_putc 9 s)) < 160" using le by (simp add: vga_putc_def Let_def)
qed

section \<open>Properties\<close>

text \<open>
  C26. When printing keeps the cursor on the screen: always, except for a backspace at the start of a line, which
  puts it at column -2, and a tab behind column 144 on the last line, which puts it on line 25.  Nothing outside the
  7680 bytes from the start of video memory is written, except by a backspace at the first cell of the screen.
\<close>

theorem vga_putc_cursor:
  assumes "cursor_ok s"
  shows "(cursor_ok (vga_putc c s) \<longleftrightarrow> \<not> (c = 8 \<and> CURRENT_X s = 0) \<and> \<not> (c = 9 \<and> 144 < unat (CURRENT_X s) \<and> CURRENT_Y s = 24)) \<and>
    (c = 8 \<and> CURRENT_X s = 0 \<longrightarrow> sint (CURRENT_X (vga_putc c s)) = - 2) \<and>
    (c = 9 \<and> 144 < unat (CURRENT_X s) \<and> CURRENT_Y s = 24 \<longrightarrow> CURRENT_Y (vga_putc c s) = 25) \<and>
    (\<not> (c = 8 \<and> CURRENT_X s = 0 \<and> CURRENT_Y s = 0) \<longrightarrow> vga_frame (mem s) (mem (vga_putc c s)))"
proof -
  consider "c = 8" | "c = 9" | "c \<noteq> 8" "c \<noteq> 9" by blast
  then show ?thesis
  proof cases
    case 1
    then show ?thesis using putc_backspace [OF assms] by (auto simp: putc_backspace_X)
  next
    case 2
    have "unat (CURRENT_Y s + 1) = unat (CURRENT_Y s) + 1" using assms by (simp add: cursor_ok_def unat_word_ariths)
    moreover have "CURRENT_Y s = 24 \<longleftrightarrow> unat (CURRENT_Y s) = 24" by (simp add: word_unat_eq_iff)
    ultimately show ?thesis using 2 putc_tab [OF assms] assms by (auto simp: cursor_ok_def vga_frame_def)
  next
    case 3
    then show ?thesis using putc_plain [OF assms] by simp
  qed
qed

definition vga0 :: vga_state where
  "vga0 = \<lparr>mem = (\<lambda>a. if a = 0xC00B80A0 then 65 else 0), indet = 0, MM_CURRENT_PD = 0, MM_CURRENT_PT = 0, MM_HEAP = 0,
     KERNEL_PAGE_DIRECTORY = 0, CURRENT_PAGE_DIRECTORY = 0, cr3 = 0, invlpg = [],
     BLOCKCHAIN_START = 0, BLOCKS_ALLOCATED = 0, blockchain = 0, K_HEAP_TOP = 0, K_LAST_ALLOC = 0, memlock = 0,
     io_log = [], io_in = (\<lambda>_. 0), CURRENT_X = 8, CURRENT_Y = 24, CURRENT_ATTRIB = 15\<rparr>"

theorem vga_putc_cursor_witness:
  "cursor_ok vga0 \<and> cursor_ok (vga_putc 72 vga0) \<and> sint (CURRENT_X (vga_putc 8 (vga0\<lparr>CURRENT_X := 0\<rparr>))) = - 2 \<and>
   CURRENT_Y (vga_putc 9 (vga0\<lparr>CURRENT_X := 146\<rparr>)) = 25"
proof -
  have c: "cursor_ok vga0" "cursor_ok (vga0\<lparr>CURRENT_X := 0\<rparr>)" "cursor_ok (vga0\<lparr>CURRENT_X := 146\<rparr>)"
    by (simp_all add: cursor_ok_def vga0_def)
  have "CURRENT_Y vga0 = 24" by (simp add: vga0_def)
  then show ?thesis
    using c vga_putc_cursor [OF c(1), of 72] vga_putc_cursor [OF c(2), of 8] vga_putc_cursor [OF c(3), of 9] by simp
qed

text \<open>
  C27. A line feed on the last line scrolls: every line takes the content of the line below it, the last
  line becomes blank in the current colour and the cursor stands at its start.
\<close>

theorem vga_newline_scrolls:
  assumes "CURRENT_Y s = 24"
  shows "(\<forall>r<24. \<forall>k<160. mem (vga_putc 10 s) (VGA_MEMORY + of_nat (160 * r + k)) = mem s (VGA_MEMORY + of_nat (160 * (r + 1) + k))) \<and>
    (\<forall>i<80. load16 (mem (vga_putc 10 s)) (VGA_MEMORY + of_nat (160 * 24 + 2 * i)) = ucast (push_bit 8 (CURRENT_ATTRIB s))) \<and>
    CURRENT_X (vga_putc 10 s) = 0 \<and> CURRENT_Y (vga_putc 10 s) = 24"
proof -
  let ?s = "s\<lparr>CURRENT_Y := CURRENT_Y s + 1, CURRENT_X := 0\<rparr>"
  have p: "vga_putc 10 s = vga_scroll ?s" by (simp add: vga_putc_def)
  have y: "CURRENT_Y ?s = 25" using assms by simp
  have "mem (vga_putc 10 s) (VGA_MEMORY + of_nat (160 * r + k)) = mem s (VGA_MEMORY + of_nat (160 * (r + 1) + k))" if "r < 24" "k < 160" for r k
  proof -
    have "160 * r + k < 3840" using that by linarith
    moreover have "160 * r + k + 160 = 160 * (r + 1) + k" by simp
    ultimately show ?thesis using scroll_screen(1) [OF y, of "160 * r + k"] unfolding p by (simp only:) simp
  qed
  then show ?thesis using scroll_screen(2,4,5) [OF y] unfolding p by simp
qed

theorem vga_newline_scrolls_witness: "mem (vga_putc 10 vga0) 0xC00B8000 = 65"
  using vga_newline_scrolls [of vga0, THEN conjunct1, rule_format, of 0 0] by (simp add: vga0_def VGA_MEMORY_def)

end
