(* ===== verification/Kstdlib.thy ===== *)
theory Kstdlib
  imports Kstring Complex_Main
begin

text \<open>
  Number conversion of the kernel library, \<^verbatim>\<open>lib/stdlib.c\<close>.  The conversions write their digits in
  reverse order into the buffer, end it and call \<^verbatim>\<open>strrev\<close>.  A division by a zero base is \<open>None\<close>.
  \<^verbatim>\<open>ftoa\<close> computes with floating-point numbers and is not modelled; \<^verbatim>\<open>dlog10\<close> only compares its argument.
\<close>

section \<open>Small functions\<close>

definition dlog10 :: "real \<Rightarrow> c_int" where
  "dlog10 v =
    (if v \<ge> 1000000000 then 9 else if v \<ge> 100000000 then 8 else
     if v \<ge> 10000000 then 7 else if v \<ge> 1000000 then 6 else
     if v \<ge> 100000 then 5 else if v \<ge> 10000 then 4 else
     if v \<ge> 1000 then 3 else if v \<ge> 100 then 2 else if v \<ge> 10 then 1 else 0)"

text \<open>The constants are unsigned, so the comparisons are.\<close>

definition log10_int :: "c_int \<Rightarrow> c_int" where
  "log10_int v =
    (if v \<ge> 1000000000 then 9 else if v \<ge> 100000000 then 8 else
     if v \<ge> 10000000 then 7 else if v \<ge> 1000000 then 6 else
     if v \<ge> 100000 then 5 else if v \<ge> 10000 then 4 else
     if v \<ge> 1000 then 3 else if v \<ge> 100 then 2 else if v \<ge> 10 then 1 else 0)"

definition abs_int :: "c_int \<Rightarrow> u32" where
  "abs_int x = (if x <s 0 then x * - 1 else x)"

text \<open>\<^verbatim>\<open>if (x = 0)\<close> assigns: the loop that follows starts with \<^verbatim>\<open>x\<close> at zero.\<close>

function pow_loop :: "c_int \<Rightarrow> int \<Rightarrow> c_int" where
  "pow_loop n x = (if x > 1 then pow_loop (n * n) (x - 1) else n)"
  by auto
termination by (relation "measure (\<lambda>(n, x). nat x)") auto

declare pow_loop.simps [simp del]

definition pow_int :: "c_int \<Rightarrow> c_int \<Rightarrow> c_int" where
  "pow_int n x = (let x = 0 in if x \<noteq> (0 :: c_int) then 1 else pow_loop n (sint x))"

section \<open>String to number\<close>

definition digit_at :: "u8 \<Rightarrow> bool" where
  "digit_at c \<longleftrightarrow> 48 \<le> sint c \<and> sint c \<le> 57"

text \<open>\<open>k\<close> counts the characters left.\<close>

fun atoi_loop :: "mem \<Rightarrow> u32 \<Rightarrow> nat \<Rightarrow> u32 \<Rightarrow> c_int \<Rightarrow> c_int" where
  "atoi_loop m s 0 i num = num"
| "atoi_loop m s (Suc k) i num =
    (if m (s + i) \<noteq> 0
     then atoi_loop m s k (i + 1) (if digit_at (m (s + i)) then num * 10 + (scast (m (s + i)) - 48) else num)
     else num)"

definition atoi :: "mem \<Rightarrow> u32 \<Rightarrow> c_int option" where
  "atoi m s = do {
     n \<leftarrow> strlen m s;
     Some ((if m s = 45 then - 1 else 1) * atoi_loop m s (unat n) 0 0) }"

section \<open>Number to string\<close>

definition digit_char :: "c_int \<Rightarrow> u8" where
  "digit_char r = (if 9 <s r then ucast (r - 10 + 65) else ucast (r + 48))"

text \<open>
  \<^verbatim>\<open>while (num != 0 && len--)\<close>: the result is the memory and the values of \<^verbatim>\<open>i\<close> and \<^verbatim>\<open>len\<close> behind the
  loop.  A loop that runs out of digits with \<^verbatim>\<open>num\<close> not zero leaves \<open>- 1\<close> in \<^verbatim>\<open>len\<close>.
\<close>

fun itoa_digits :: "mem \<Rightarrow> u32 \<Rightarrow> u32 \<Rightarrow> u32 \<Rightarrow> u32 \<Rightarrow> nat \<Rightarrow> mem \<times> u32 \<times> u32" where
  "itoa_digits m buffer base num i 0 = (m, i, if num \<noteq> 0 then - 1 else 0)"
| "itoa_digits m buffer base num i (Suc len) =
    (if num \<noteq> 0
     then itoa_digits (m(buffer + i := digit_char (num mod base))) buffer base (num div base) (i + 1) len
     else (m, i, of_nat (Suc len)))"

text \<open>\<^verbatim>\<open>while (len-- && base != 10)\<close>.\<close>

function itoa_pad :: "mem \<Rightarrow> u32 \<Rightarrow> u32 \<Rightarrow> u32 \<Rightarrow> u32 \<Rightarrow> mem \<times> u32" where
  "itoa_pad m buffer base i len =
    (if len \<noteq> 0 \<and> base \<noteq> 10 then itoa_pad (m(buffer + i := 48)) buffer base (i + 1) (len - 1) else (m, i))"
  by auto
termination by (relation "measure (\<lambda>(m, buffer, base, i, len). unat len)") (auto intro: measure_unat)

declare itoa_pad.simps [simp del]

definition itoa :: "mem \<Rightarrow> u32 \<Rightarrow> u32 \<Rightarrow> c_int \<Rightarrow> (mem \<times> u32) option" where
  "itoa m num buffer base =
    (let len = (if base = 2 then 32 else 8) in
     if num = 0 \<and> base = 2
     then let (m, i) = itoa_pad m buffer 2 0 32 in Some (m(buffer + i := 0), buffer)
     else if num \<noteq> 0 \<and> base = 0 then None
     else let (m, i, len) = itoa_digits m buffer base num 0 len;
              (m, i) = itoa_pad m buffer base i len
       in strrev (m(buffer + i := 0)) buffer)"

text \<open>\<^verbatim>\<open>num\<close> and \<^verbatim>\<open>base\<close> are signed here; \<open>sdiv\<close> and \<open>smod\<close> truncate.\<close>

fun sitoa_digits :: "mem \<Rightarrow> u32 \<Rightarrow> int \<Rightarrow> int \<Rightarrow> u32 \<Rightarrow> nat \<Rightarrow> mem \<times> u32" where
  "sitoa_digits m buffer base num i 0 = (m, i)"
| "sitoa_digits m buffer base num i (Suc len) =
    (if num \<noteq> 0
     then sitoa_digits (m(buffer + i := digit_char (word_of_int (num smod base)))) buffer base (num sdiv base) (i + 1) len
     else (m, i))"

definition sitoa :: "mem \<Rightarrow> c_int \<Rightarrow> u32 \<Rightarrow> c_int \<Rightarrow> (mem \<times> u32) option" where
  "sitoa m num buffer base =
    (if num = 0 \<or> base = 0 then Some (m(buffer := 48, buffer + 1 := 0), buffer)
     else let num = (if num <s 0 then abs_int num else num);
              (m, i) = sitoa_digits m buffer (sint base) (sint num) 0 8
       in strrev (m(buffer + i := 0)) buffer)"

section \<open>Digits\<close>

text \<open>Storing a list of bytes.\<close>

fun put :: "mem \<Rightarrow> u32 \<Rightarrow> u8 list \<Rightarrow> mem" where
  "put m a [] = m"
| "put m a (b # bs) = put (m(a := b)) (a + 1) bs"

lemma put_at: "length bs < 2 ^ 32 \<Longrightarrow> put m a bs b = (if off a b < length bs then bs ! off a b else m b)"
proof (induction bs arbitrary: m a)
  case (Cons x bs)
  show ?case
  proof (cases "b = a")
    case True
    have "off (a + 1) a = 2 ^ 32 - 1" by (simp add: off_def)
    then show ?thesis using True Cons by simp
  next
    case False
    then have "off a b \<noteq> 0" using off_eq_iff [of a b a] by simp
    moreover have "off (a + 1) b = off a b - 1"
      using unat_minus_one [of "b - a"] False by (simp add: off_def diff_diff_add)
    moreover have "put (m(a := x)) (a + 1) bs b = (if off (a + 1) b < length bs then bs ! off (a + 1) b else m b)"
      using Cons.IH [of "m(a := x)" "a + 1"] Cons.prems False by (simp add: fun_upd_def)
    ultimately show ?thesis by (simp only: put.simps) (auto simp: nth_Cons')
  qed
qed simp

text \<open>The digits of a number, least first, at most \<open>k\<close> of them.\<close>

fun lits :: "nat \<Rightarrow> nat \<Rightarrow> nat \<Rightarrow> u8 list" where
  "lits base n 0 = []"
| "lits base n (Suc k) = (if n = 0 then [] else digit_char (of_nat (n mod base)) # lits base (n div base) k)"

lemma lits_length: "length (lits base n k) \<le> k"
  by (induction k arbitrary: n) auto

lemma itoa_digits_put:
  "itoa_digits m buffer base num i len =
    (put m (buffer + i) (lits (unat base) (unat num) len), i + of_nat (length (lits (unat base) (unat num) len)),
     if unat num < unat base ^ len then of_nat (len - length (lits (unat base) (unat num) len)) else - 1)"
  if "1 < unat base"
proof (induction len arbitrary: m num i)
  case (Suc len)
  have "unat (num div base) = unat num div unat base" "unat (num mod base) = unat num mod unat base"
    by (simp_all add: unat_div unat_mod)
  moreover have "unat num div unat base < unat base ^ len \<longleftrightarrow> unat num < unat base * unat base ^ len"
    using that by (simp add: div_less_iff_less_mult mult.commute)
  moreover have "(of_nat (unat num mod unat base) :: u32) = num mod base"
    by (simp flip: unat_mod)
  ultimately show ?case
    using that by (simp add: Suc.IH unat_eq_0 add.assoc fun_upd_def)
qed (auto simp: unat_eq_0)

lemma put_append: "put m a (xs @ ys) = put (put m a xs) (a + of_nat (length xs)) ys"
  by (induction xs arbitrary: m a) (simp_all add: add.assoc)

lemma put_single: "m(a := b) = put m a [b]"
  by simp

lemma cstr_put: "0 \<notin> set xs \<Longrightarrow> Suc (length xs) < 2 ^ 32 \<Longrightarrow> cstr (put m a (xs @ [0])) a xs"
  by (rule cstrI) (simp_all add: put_at nth_append)

lemma itoa_pad_put:
  assumes "base \<noteq> 10"
  shows "itoa_pad m buffer base i len = (put m (buffer + i) (replicate (unat len) 48), i + len)"
proof (induction "unat len" arbitrary: m i len)
  case 0
  then have "len = 0" by (simp add: unat_eq_0)
  then show ?case by (simp add: itoa_pad.simps)
next
  case (Suc k)
  then have "len \<noteq> 0" by auto
  moreover from this have k: "unat (len - 1) = k" using Suc(2) by (simp add: unat_minus_one)
  ultimately show ?case
    using assms Suc(1) [OF k [symmetric]] by (subst itoa_pad.simps) (simp add: k Suc(2) [symmetric] add.assoc)
qed

lemma itoa_pad_10: "itoa_pad m buffer 10 i len = (m, i)"
  by (simp add: itoa_pad.simps)

lemma digit_char_0: "digit_char 0 = 48"
  by (simp add: digit_char_def word_sless_alt)

lemma nat_less_16: "d < (16 :: nat) \<longleftrightarrow> d \<in> {0, 1, 2, 3, 4, 5, 6, 7, 8, 9, 10, 11, 12, 13, 14, 15}"
  by (simp only: insert_iff empty_iff) presburger

lemma digit_char_cases:
  "d < 16 \<Longrightarrow> digit_char (of_nat d) \<noteq> 0 \<and> (d < 10 \<longrightarrow> digit_char (of_nat d) = 48 + of_nat d)"
  unfolding nat_less_16 by (elim insertE emptyE) (simp_all add: digit_char_def word_sless_alt)

lemma lits_nonzero: "0 < base \<Longrightarrow> base \<le> 16 \<Longrightarrow> 0 \<notin> set (lits base n k)"
proof (induction k arbitrary: n)
  case (Suc k)
  moreover have "n mod base < 16" using Suc.prems mod_less_divisor [of base n] by linarith
  ultimately show ?case using digit_char_cases [of "n mod base"] by auto
qed simp

text \<open>Padded with zeros, the digits are those of the positional notation.\<close>

lemma lits_pad:
  assumes "0 < base" "n < base ^ k"
  shows "lits base n k @ replicate (k - length (lits base n k)) 48 = map (\<lambda>j. digit_char (of_nat (n div base ^ j mod base))) [0..<k]"
  using assms(2)
proof (induction k arbitrary: n)
  case (Suc k)
  have "n div base < base ^ k" using Suc.prems assms(1) by (simp add: div_less_iff_less_mult mult.commute)
  note IH = Suc.IH [OF this]
  have map: "map (\<lambda>j. digit_char (of_nat (n div base ^ j mod base))) [0..<Suc k] =
      digit_char (of_nat (n mod base)) # map (\<lambda>j. digit_char (of_nat (n div base div base ^ j mod base))) [0..<k]"
    by (simp only: upt_conv_Cons zero_less_Suc list.map power_0 div_by_1 map_Suc_upt [symmetric] map_map comp_def power_Suc div_mult2_eq)
  show ?case
  proof (cases "n = 0")
    case True
    then show ?thesis by (simp only: map) (simp add: digit_char_0 map_replicate_const)
  next
    case False
    then show ?thesis using IH by (simp only: map) simp
  qed
qed simp

lemma itoa_written:
  assumes "1 < unat base" "unat base \<le> 16" "base = 2 \<longrightarrow> num \<noteq> 0" "unat num < unat base ^ (if base = 2 then 32 else 8) \<or> base = 10"
  defines "k \<equiv> if base = 2 then 32 else 8"
  defines "l \<equiv> lits (unat base) (unat num) k @ (if base = 10 then [] else replicate (k - length (lits (unat base) (unat num) k)) 48)"
  shows "itoa m num buffer base = strrev (put m buffer (l @ [0])) buffer"
proof -
  let ?d = "lits (unat base) (unat num) k"
  have b: "base \<noteq> 0" using assms(1) by auto
  have len: "length ?d \<le> k" by (rule lits_length)
  obtain r where dg: "itoa_digits m buffer base num 0 k = (put m buffer ?d, of_nat (length ?d), r)"
      "base \<noteq> 10 \<Longrightarrow> r = of_nat (k - length ?d)"
    using itoa_digits_put [OF assms(1), of m buffer num 0 k] assms(4) [folded k_def] by auto
  have "k \<le> 32" by (simp add: k_def)
  then have "k - length ?d < 2 ^ 32" by simp
  then have u: "base \<noteq> 10 \<Longrightarrow> unat r = k - length ?d" using dg(2) by (simp add: unat_of_nat)
  have "itoa m num buffer base =
      (let (m, i) = itoa_pad (put m buffer ?d) buffer base (of_nat (length ?d)) r in strrev (m(buffer + i := 0)) buffer)"
    unfolding itoa_def Let_def k_def [symmetric] dg(1) using assms(3) b by (simp only: prod.case) auto
  also have "\<dots> = strrev (put m buffer (l @ [0])) buffer"
  proof (cases "base = 10")
    case True
    then show ?thesis by (simp add: itoa_pad_10 l_def put_append)
  next
    case False
    then show ?thesis using dg(2) u
      by (simp add: itoa_pad_put l_def put_append add.assoc)
  qed
  finally show ?thesis .
qed

section \<open>Reading a number back\<close>

definition atoi_char :: "c_int \<Rightarrow> u8 \<Rightarrow> c_int" where
  "atoi_char num c = (if digit_at c then num * 10 + (scast c - 48) else num)"

lemma atoi_loop_cstr: "cstr m (s + i) xs \<Longrightarrow> atoi_loop m s (length xs) i num = foldl atoi_char num xs"
proof (induction xs arbitrary: i num)
  case (Cons x xs)
  then show ?case using Cons.IH [of "i + 1"] by (simp add: atoi_char_def add.assoc)
qed simp

lemma atoi_cstr:
  assumes "cstr m s xs"
  shows "atoi m s = Some ((if m s = 45 then - 1 else 1) * foldl atoi_char 0 xs)"
  using atoi_loop_cstr [of m s 0 xs 0] assms by (simp add: atoi_def strlen_cstr unat_cstr_len)

lemma nat_less_10: "d < (10 :: nat) \<longleftrightarrow> d \<in> {0, 1, 2, 3, 4, 5, 6, 7, 8, 9}"
  by (simp only: insert_iff empty_iff) presburger

lemma atoi_char_digit: "d < 10 \<Longrightarrow> atoi_char n (digit_char (of_nat d)) = n * 10 + of_nat d \<and> digit_char (of_nat d) \<noteq> 45"
  unfolding nat_less_10
  by (elim insertE emptyE) (simp_all add: atoi_char_def digit_char_def digit_at_def word_sless_alt)

lemma atoi_lits: "foldl atoi_char 0 (rev (lits 10 n k)) = of_nat (n mod 10 ^ k)"
proof (induction k arbitrary: n)
  case (Suc k)
  have e: "n mod 10 ^ Suc k = 10 * (n div 10 mod 10 ^ k) + n mod 10" by (simp add: mod_mult2_eq)
  show ?case
  proof (cases "n = 0")
    case False
    then show ?thesis unfolding e using Suc.IH [of "n div 10"] by (simp add: atoi_char_digit algebra_simps)
  qed simp
qed simp

lemma lits_digits: "x \<in> set (lits 10 n k) \<Longrightarrow> x \<noteq> 45"
proof (induction k arbitrary: n)
  case (Suc k)
  then show ?case using atoi_char_digit [of "n mod 10"] by (auto split: if_splits)
qed simp

section \<open>Properties\<close>

text \<open>
  \<^verbatim>\<open>itoa\<close> in base 16 writes exactly the eight hexadecimal digits of the number, most significant
  first, ends the string behind them and touches no byte beyond.
\<close>

lemma itoa_hex:
  "\<exists>m'. itoa m num buffer 16 = Some (m', buffer) \<and>
     cstr m' buffer (rev (map (\<lambda>j. digit_char (of_nat (unat num div 16 ^ j mod 16))) [0..<8])) \<and>
     (\<forall>b. 9 \<le> off buffer b \<longrightarrow> m' b = m b)"
proof -
  let ?l = "map (\<lambda>j. digit_char (of_nat (unat num div 16 ^ j mod 16))) [0..<8]"
  have n: "unat num < 16 ^ 8" using unsigned_less [of num, where ?'a = nat] by simp
  have l: "lits 16 (unat num) 8 @ replicate (8 - length (lits 16 (unat num) 8)) 48 = ?l"
    by (rule lits_pad) (use n in simp_all)
  have "0 \<notin> set ?l"
    unfolding l [symmetric] using lits_nonzero [of 16 "unat num" 8] by simp
  then have c: "cstr (put m buffer (?l @ [0])) buffer ?l" by (rule cstr_put) simp
  have i: "itoa m num buffer 16 = strrev (put m buffer (?l @ [0])) buffer"
    using itoa_written [of 16 num m buffer] n by (simp add: l [symmetric])
  have f: "put m buffer (?l @ [0]) b = m b" if "9 \<le> off buffer b" for b using that by (simp add: put_at)
  show ?thesis
    unfolding i using strrev_cstr [OF c] f by fastforce
qed

text \<open>
  C13. What \<^verbatim>\<open>atoi\<close> reads back from the string \<^verbatim>\<open>itoa\<close> leaves in base 10: the last eight digits of the number.  The
  round trip is exact for the numbers from one to eight digits and loses the rest of a longer one.  Zero is left out:
  \<^verbatim>\<open>itoa\<close> writes no digit for it.
\<close>

theorem atoi_itoa:
  assumes "0 < num"
  shows "\<exists>m'. itoa m num buffer 10 = Some (m', buffer) \<and> atoi m' buffer = Some (num mod 100000000)"
proof -
  let ?l = "lits 10 (unat num) 8"
  have n: "unat num \<noteq> 0" using assms by (auto simp: word_less_nat_alt unat_eq_0)
  have nz: "0 \<notin> set ?l" by (rule lits_nonzero) simp_all
  have len: "length ?l \<le> 8" by (rule lits_length)
  have ne: "?l \<noteq> []" using n lits.simps(2) [of 10 "unat num" 7] by simp
  have c: "cstr (put m buffer (?l @ [0])) buffer ?l" by (rule cstr_put [OF nz]) (use len in simp)
  have i: "itoa m num buffer 10 = strrev (put m buffer (?l @ [0])) buffer"
    using itoa_written [of 10 num m buffer] by simp
  obtain m' where m': "strrev (put m buffer (?l @ [0])) buffer = Some (m', buffer)" "cstr m' buffer (rev ?l)"
    using strrev_cstr [OF c ne] len by fastforce
  have "m' buffer \<noteq> 45"
  proof -
    have "m' buffer = rev ?l ! 0" using cstr_nth [OF m'(2), of 0] ne by simp
    also have "rev ?l ! 0 \<in> set ?l" using ne by (metis length_greater_0_conv nth_mem rev_is_Nil_conv set_rev)
    finally show ?thesis using lits_digits by blast
  qed
  moreover have "of_nat (unat num mod 10 ^ 8) = num mod 100000000" by (simp add: word_unat_eq_iff unat_mod unat_of_nat)
  ultimately show ?thesis unfolding i using m' by (simp add: atoi_cstr atoi_lits)
qed

theorem atoi_itoa_witness:
  "(\<exists>m'. itoa (\<lambda>_. 0) 2016 0x1000 10 = Some (m', 0x1000) \<and> atoi m' 0x1000 = Some 2016) \<and>
   (\<exists>m'. itoa (\<lambda>_. 0) 1234567890 0x1000 10 = Some (m', 0x1000) \<and> atoi m' 0x1000 = Some 34567890)"
  using atoi_itoa [of 2016 "\<lambda>_. 0" "0x1000"] atoi_itoa [of 1234567890 "\<lambda>_. 0" "0x1000"] by simp

text \<open>
  C23. \<^verbatim>\<open>itoa\<close> of zero in base 10 leaves the buffer without a digit and, by reversing the empty
  string, moves the byte in front of the buffer into it and clears that byte.
\<close>

theorem itoa_zero_corrupts:
  "itoa m 0 buffer 10 = Some (m(buffer := m (buffer - 1), buffer - 1 := 0), buffer)"
proof -
  let ?m = "m(buffer := 0)"
  have "strlen ?m buffer = Some 0" using strlen_cstr [of ?m buffer "[]"] by simp
  moreover have "strrev_loop ?m buffer (- 1) 0 = m(buffer := m (buffer - 1), buffer - 1 := 0)"
    by (subst strrev_loop.simps, subst strrev_loop.simps)
      (auto simp: Let_def fun_eq_iff signed_divide_int_def)
  moreover have "itoa_digits m buffer 10 0 0 8 = (m, 0, 8)" using itoa_digits.simps(2) [of m buffer 10 0 0 7] by simp
  ultimately show ?thesis
    by (simp add: itoa_def Let_def itoa_pad_10 strrev_def)
qed

end
