(* ===== verification/Kprintf.thy ===== *)
theory Kprintf
  imports Vga Kstdlib
begin

text \<open>
  Formatted output, \<^verbatim>\<open>lib/printf.c\<close>, and the serial port it can go to, \<^verbatim>\<open>drivers/uart.c\<close>.  The variable
  arguments are the words in memory from the address \<open>ap\<close> on, as the macros of \<^verbatim>\<open>stdarg.h\<close> read them;
  the buffers of \<^verbatim>\<open>printf\<close> and its relatives live on the stack at an address that is an argument here.
\<close>

section \<open>Conversions\<close>

definition PREFIX :: u32 where "PREFIX = 1"
definition ALWAYS_SIGN :: u32 where "ALWAYS_SIGN = 2"
definition PAD :: u32 where "PAD = 4"
definition LONG :: u32 where "LONG = 8"
definition NOTNUM :: u32 where "NOTNUM = 0x10"

text \<open>The digit loop of \<^verbatim>\<open>ltoa\<close> and \<^verbatim>\<open>ctoa\<close>; a zero base divides by zero, a base of one never ends.\<close>

partial_function (option) digits_loop :: "u32 \<Rightarrow> u64 \<Rightarrow> u64 \<Rightarrow> u32 \<Rightarrow> mem \<Rightarrow> (mem \<times> u32) option" where
  "digits_loop buffer base num i m =
    (if num \<noteq> 0
     then if base = 0 then None
       else digits_loop buffer base (num div base) (i + 1) (m(buffer + i := digit_char (ucast (num mod base))))
     else Some (m, i))"

definition ltoa :: "mem \<Rightarrow> u64 \<Rightarrow> u32 \<Rightarrow> c_int \<Rightarrow> (mem \<times> u32) option" where
  "ltoa m num buffer base = do {
     (m, i) \<leftarrow> digits_loop buffer (scast base) num 0 m;
     (m, _) \<leftarrow> strrev (m(buffer + i := 0)) buffer;
     Some (m, buffer) }"

definition ctoa :: "mem \<Rightarrow> u8 \<Rightarrow> u32 \<Rightarrow> c_int \<Rightarrow> (mem \<times> u32) option" where
  "ctoa m num buffer base = do {
     (m, i) \<leftarrow> digits_loop buffer (scast base) (ucast num) 0 m;
     (m, _) \<leftarrow> strrev (m(buffer + i := 0)) buffer;
     Some (m, buffer) }"

section \<open>Formatting\<close>

text \<open>The local variables of \<^verbatim>\<open>vsnprintf\<close> that change, and memory.\<close>

record vsn =
  vformat :: u32
  vap :: u32
  vn :: u32
  vpad :: u32
  vflags :: u32
  vmem :: mem

definition va_int :: "vsn \<Rightarrow> u32 \<times> vsn" where
  "va_int v = (load32 (vmem v) (vap v), v\<lparr>vap := vap v + 4\<rparr>)"

definition va_long :: "vsn \<Rightarrow> u64 \<times> vsn" where
  "va_long v = (ucast (load32 (vmem v) (vap v)) OR push_bit 32 (ucast (load32 (vmem v) (vap v + 4))), v\<lparr>vap := vap v + 8\<rparr>)"

definition va_char :: "vsn \<Rightarrow> u8 \<times> vsn" where
  "va_char v = (vmem v (vap v), v\<lparr>vap := vap v + 4\<rparr>)"

text \<open>\<^verbatim>\<open>str[n++] = c\<close>.\<close>

definition emit_char :: "u32 \<Rightarrow> u8 \<Rightarrow> vsn \<Rightarrow> vsn" where
  "emit_char str c v = v\<lparr>vmem := (vmem v)(str + vn v := c), vn := vn v + 1\<rparr>"

definition in_buf :: "(mem \<Rightarrow> (mem \<times> u32) option) \<Rightarrow> vsn \<Rightarrow> vsn option" where
  "in_buf f v = do { (m, _) \<leftarrow> f (vmem v); Some (v\<lparr>vmem := m\<rparr>) }"

definition emit_0x :: "u32 \<Rightarrow> u32 \<Rightarrow> vsn \<Rightarrow> vsn" where
  "emit_0x str sz v =
    (if vflags v AND PREFIX \<noteq> 0 \<and> vn v + 2 < sz then emit_char str 120 (emit_char str 48 v) else v)"

text \<open>The padding digits.\<close>

partial_function (option) pad_digits :: "vsn \<Rightarrow> vsn option" where
  "pad_digits v =
    (let c = vmem v (vformat v) in
     if digit_at c
     then pad_digits (v\<lparr>vflags := vflags v OR PAD, vpad := vpad v * 10 + (scast c - 48), vformat := vformat v + 1\<rparr>)
     else Some v)"

text \<open>The conversion at \<^verbatim>\<open>next_format\<close>; a character it does not know sends it back there.\<close>

partial_function (option) vsn_conv :: "u32 \<Rightarrow> u32 \<Rightarrow> u32 \<Rightarrow> vsn \<Rightarrow> vsn option" where
  "vsn_conv str sz buf v =
    (let c = vmem v (vformat v) in
     if c = 37 then Some (v\<lparr>vmem := (vmem v)(buf := 37, buf + 1 := 0)\<rparr>)
     else if c = 35 then vsn_conv str sz buf (v\<lparr>vflags := vflags v OR PREFIX, vformat := vformat v + 1\<rparr>)
     else if c = 43 then vsn_conv str sz buf (v\<lparr>vflags := vflags v OR ALWAYS_SIGN, vformat := vformat v + 1\<rparr>)
     else if c = 120 then
       let (d, v) = va_int v in do { v \<leftarrow> in_buf (\<lambda>m. itoa m d buf 16) v; Some (emit_0x str sz v) }
     else if c = 88 then
       let (d, v) = va_int v in do { v \<leftarrow> in_buf (\<lambda>m. ctoa m (ucast d) buf 16) v; Some (emit_0x str sz v) }
     else if c = 100 then
       let (d, v) = va_int v;
           v = (if vflags v AND ALWAYS_SIGN \<noteq> 0 \<and> vn v + 1 < sz then emit_char str (if 0 <s d then 43 else 45) v else v)
       in in_buf (\<lambda>m. sitoa m d buf 10) v
     else if c = 105 then
       let (d, v) = va_int v;
           v = (if vn v + 1 < sz \<and> d <s 0 then emit_char str 45 v else v)
       in in_buf (\<lambda>m. sitoa m d buf 10) v
     else if c = 117 then let (d, v) = va_int v in in_buf (\<lambda>m. itoa m d buf 10) v
     else if c = 108 then
       let (d, v) = va_long v in in_buf (\<lambda>m. ltoa m d buf 16) (v\<lparr>vflags := vflags v OR LONG\<rparr>)
     else if c = 111 then
       let (d, v) = va_int v in do {
         v \<leftarrow> in_buf (\<lambda>m. itoa m d buf 8) v;
         Some (if vflags v AND PREFIX \<noteq> 0 \<and> vn v + 2 < sz then emit_char str 48 v else v) }
     else if c = 98 then let (d, v) = va_int v in in_buf (\<lambda>m. itoa m d buf 2) v
     else if c = 115 then
       let (tmp, v) = va_int v in do {
         v \<leftarrow> in_buf (\<lambda>m. strcpy m buf tmp) v; Some (v\<lparr>vflags := vflags v OR NOTNUM\<rparr>) }
     else if c = 99 then
       let (d, v) = va_char v in
       Some (v\<lparr>vmem := (vmem v)(buf := d, buf + 1 := 0), vflags := vflags v OR NOTNUM\<rparr>)
     else if c = 119 then Some (v\<lparr>vflags := vflags v OR PAD, vmem := (vmem v)(buf := 32)\<rparr>)
     else do { v \<leftarrow> pad_digits (v\<lparr>vpad := 0\<rparr>); vsn_conv str sz buf v })"

text \<open>The two output loops; both move \<^verbatim>\<open>n\<close> and \<^verbatim>\<open>i\<close>, and test their sum.\<close>

partial_function (option) pad_loop :: "u32 \<Rightarrow> u32 \<Rightarrow> u32 \<Rightarrow> u32 \<Rightarrow> vsn \<Rightarrow> vsn option" where
  "pad_loop str sz buf i v = do {
     len \<leftarrow> strlen (vmem v) buf;
     if i < vpad v - len \<and> i + vn v < sz
     then pad_loop str sz buf (i + 1) (emit_char str (if vflags v AND NOTNUM \<noteq> 0 then 32 else 48) v)
     else Some v }"

partial_function (option) copy_loop :: "u32 \<Rightarrow> u32 \<Rightarrow> u32 \<Rightarrow> u32 \<Rightarrow> vsn \<Rightarrow> vsn option" where
  "copy_loop str sz buf i v = do {
     len \<leftarrow> strlen (vmem v) buf;
     if i < len \<and> i + vn v < sz then copy_loop str sz buf (i + 1) (emit_char str (vmem v (buf + i)) v) else Some v }"

definition vsn_percent :: "u32 \<Rightarrow> u32 \<Rightarrow> u32 \<Rightarrow> vsn \<Rightarrow> vsn option" where
  "vsn_percent str sz buf v = do {
     v \<leftarrow> vsn_conv str sz buf (v\<lparr>vformat := vformat v + 1\<rparr>);
     len \<leftarrow> strlen (vmem v) buf;
     v \<leftarrow> (if vflags v AND PAD \<noteq> 0 \<and> vpad v > len then pad_loop str sz buf 0 v else Some v);
     v \<leftarrow> copy_loop str sz buf 0 v;
     len \<leftarrow> strlen (vmem v) buf;
     Some (v\<lparr>vmem := fst (memset (vmem v) buf 0 len)\<rparr>) }"

partial_function (option) vsn_loop :: "u32 \<Rightarrow> u32 \<Rightarrow> u32 \<Rightarrow> vsn \<Rightarrow> vsn option" where
  "vsn_loop str sz buf v =
    (let c = vmem v (vformat v) in
     if c \<noteq> 0 \<and> vn v < sz
     then do {
       v \<leftarrow> (if c = 37 then vsn_percent str sz buf v else Some ((emit_char str c v)\<lparr>vflags := 0\<rparr>));
       vsn_loop str sz buf (v\<lparr>vformat := vformat v + 1\<rparr>) }
     else Some v)"

definition vsnprintf :: "u32 \<Rightarrow> u32 \<Rightarrow> u32 \<Rightarrow> u32 \<Rightarrow> 'a heap_state_scheme \<Rightarrow> (c_int \<times> 'a heap_state_scheme) option" where
  "vsnprintf str sz format ap s = do {
     (buf, s) \<leftarrow> malloc sz s;
     let m = fst (memset (mem s) str 0 sz); m = fst (memset m buf 0 sz) in do {
       v \<leftarrow> vsn_loop str sz buf \<lparr>vformat = format, vap = ap, vn = 0, vpad = 0, vflags = 0, vmem = m\<rparr>;
       (_, s) \<leftarrow> free buf (s\<lparr>mem := vmem v\<rparr>);
       Some (vn v, s) } }"

section \<open>Output\<close>

definition printf :: "u32 \<Rightarrow> u32 \<Rightarrow> u32 \<Rightarrow> 'a vga_state_scheme \<Rightarrow> (c_int \<times> 'a vga_state_scheme) option" where
  "printf buf fmt ap s = do {
     (i, s) \<leftarrow> vsnprintf buf 256 fmt ap s;
     s \<leftarrow> vga_puts buf s;
     Some (i, s) }"

subsection \<open>The serial port\<close>

definition COM1 :: u16 where "COM1 = 0x3F8"

definition uart_init :: "'a io_state_scheme \<Rightarrow> 'a io_state_scheme" where
  "uart_init s =
    (let s = outb (COM1 + 1) 0x00 s; s = outb (COM1 + 3) 0x80 s; s = outb (COM1 + 0) 0x03 s; s = outb (COM1 + 1) 0x00 s;
         s = outb (COM1 + 3) 0x03 s; s = outb (COM1 + 2) 0xC7 s
     in outb (COM1 + 4) 0x00 s)"

text \<open>
  \<^verbatim>\<open>inb(COM1 + 5) & 0x20 == 0\<close> compares first: the status is masked with zero and the wait ends at once.
\<close>

definition uart_putc :: "u8 \<Rightarrow> 'a io_state_scheme \<Rightarrow> 'a io_state_scheme" where
  "uart_putc c s = (let (_, s) = inb (COM1 + 5) s in outb COM1 (scast c) s)"

partial_function (option) uart_write :: "u32 \<Rightarrow> 'a io_state_scheme \<Rightarrow> 'a io_state_scheme option" where
  "uart_write p s = (if mem s p \<noteq> 0 then uart_write (p + 1) (uart_putc (mem s p) s) else Some s)"

definition dprintf :: "u32 \<Rightarrow> u32 \<Rightarrow> u32 \<Rightarrow> 'a io_state_scheme \<Rightarrow> (c_int \<times> 'a io_state_scheme) option" where
  "dprintf buf fmt ap s = do {
     (i, s) \<leftarrow> vsnprintf buf 256 fmt ap s;
     s \<leftarrow> uart_write buf s;
     Some (i, s) }"

subsection \<open>Status messages\<close>

text \<open>\<open>lit\<close> gives the address of a string constant.\<close>

definition init_message :: "(string \<Rightarrow> u32) \<Rightarrow> u32 \<Rightarrow> c_int \<Rightarrow> u32 \<Rightarrow> u32 \<Rightarrow> 'a vga_state_scheme \<Rightarrow> 'a vga_state_scheme option" where
  "init_message lit buf status fmt ap s = do {
     s \<leftarrow> vga_puts (lit ''['') s;
     let (color, message) =
       (if status = 0 then (0xC, ''FAIL'') else if status = 1 then (0xA, '' OK '')
        else if status = 2 then (0xE, ''WAIT'') else (0xB, ''????'')) in do {
       s \<leftarrow> vga_puts (lit message) (vga_setcolor color s);
       s \<leftarrow> vga_puts (lit ''] '') (vga_setcolor (VGA_COLOR VGA_WHITE VGA_BLACK) s);
       (_, s) \<leftarrow> vsnprintf buf 256 fmt ap s;
       vga_puts buf s } }"

section \<open>Behaviour of the format loop\<close>

definition known_conv :: "u8 set" where
  "known_conv = {37, 35, 43, 120, 88, 100, 105, 117, 108, 111, 98, 115, 99, 119}"

text \<open>A character that is neither a conversion nor a digit: the parse comes back to it for ever.\<close>

lemma vsn_conv_unknown:
  assumes "vsn_conv str sz buf v = Some w"
  shows "vmem v (vformat v) \<in> known_conv \<or> digit_at (vmem v (vformat v))"
proof (induction rule: vsn_conv.raw_induct [OF _ assms, consumes 0])
  case (1 f str sz buf v w)
  show ?case
  proof (rule ccontr)
    let ?c = "vmem v (vformat v)"
    assume n: "\<not> (?c \<in> known_conv \<or> digit_at ?c)"
    then have "pad_digits (v\<lparr>vpad := 0\<rparr>) = Some (v\<lparr>vpad := 0\<rparr>)" by (subst pad_digits.simps) simp
    then have "f str sz buf (v\<lparr>vpad := 0\<rparr>) = Some w"
      using 1(2) n unfolding known_conv_def Let_def by simp
    from 1(1) [OF this] n show False by simp
  qed
qed

lemma emit_char_simps [simp]:
  "vn (emit_char str c v) = vn v + 1" "vmem (emit_char str c v) = (vmem v)(str + vn v := c)"
  "vformat (emit_char str c v) = vformat v" "vflags (emit_char str c v) = vflags v" "vpad (emit_char str c v) = vpad v"
  "vap (emit_char str c v) = vap v"
  by (simp_all add: emit_char_def)

text \<open>Text without a percent sign is copied byte by byte.\<close>

lemma vsn_loop_text:
  assumes "cstr (vmem v) (vformat v) xs" "37 \<notin> set xs" "unat (vn v) + length xs \<le> unat sz"
    and "\<And>k. k \<le> length xs \<Longrightarrow> unat sz \<le> off str (vformat v + of_nat k)"
  shows "\<exists>w. vsn_loop str sz buf v = Some w \<and> vn w = vn v + of_nat (length xs) \<and> vmem w = put (vmem v) (str + vn v) xs"
  using assms
proof (induction xs arbitrary: v)
  case Nil
  then show ?case by (subst vsn_loop.simps) simp
next
  case (Cons x xs)
  let ?v = "(emit_char str x v)\<lparr>vflags := 0, vformat := vformat v + 1\<rparr>"
  have n: "vn v < sz" using Cons.prems(3) by (simp add: word_less_nat_alt)
  then have n1: "unat (vn v + 1) = unat (vn v) + 1" by (rule unat_add_one_less)
  have step: "vsn_loop str sz buf v = vsn_loop str sz buf ?v"
    using Cons.prems(1,2) n by (subst vsn_loop.simps) (simp add: Let_def emit_char_def)
  have sep: "vformat v + of_nat k \<noteq> str + vn v" if "k \<le> Suc (length xs)" for k
  proof
    assume "vformat v + of_nat k = str + vn v"
    then have "off str (vformat v + of_nat k) = unat (vn v)" by (simp add: off_add)
    with Cons.prems(4) [of k] that n show False by (simp add: word_less_nat_alt)
  qed
  have c: "cstr (vmem ?v) (vformat ?v) xs"
  proof (rule cstrI)
    fix i assume i: "i < length xs"
    have "vmem v (vformat v + of_nat (Suc i)) = xs ! i" using cstr_nth [OF Cons.prems(1), of "Suc i"] i by simp
    then show "vmem ?v (vformat ?v + of_nat i) = xs ! i" using sep [of "Suc i"] i by (simp add: algebra_simps)
  next
    show "0 \<notin> set xs" using cstr_nonzero [OF Cons.prems(1)] by simp
  next
    have "vmem v (vformat v + of_nat (Suc (length xs))) = 0" using cstr_end [OF Cons.prems(1)] by simp
    then show "vmem ?v (vformat ?v + of_nat (length xs)) = 0" using sep [of "Suc (length xs)"] by (simp add: algebra_simps)
  qed
  have "\<exists>w. vsn_loop str sz buf ?v = Some w \<and> vn w = vn ?v + of_nat (length xs) \<and> vmem w = put (vmem ?v) (str + vn ?v) xs"
  proof (rule Cons.IH [OF c])
    show "37 \<notin> set xs" using Cons.prems(2) by simp
    show "unat (vn ?v) + length xs \<le> unat sz" using Cons.prems(3) n1 by simp
    show "unat sz \<le> off str (vformat ?v + of_nat k)" if "k \<le> length xs" for k
      using Cons.prems(4) [of "Suc k"] that by (simp add: algebra_simps)
  qed
  then show ?case unfolding step by (simp add: algebra_simps)
qed

section \<open>Properties\<close>

lemma malloc_hp0:
  "malloc 16 (hp0\<lparr>mem := m\<rparr>) = Some (0xC0300000,
    hp0\<lparr>mem := store32 m 0xC010A000 0x80000010, BLOCKS_ALLOCATED := 1, blockchain := 0xC010A000, K_LAST_ALLOC := 0xC0300010\<rparr>)"
  by (simp add: malloc_def malloc_with_def hp0_def acquire_memlock_def release_memlock_def find_best_free_def best_free_loop.simps
      blockchain_add_def Let_def MAX_BLOCKS_def)

text \<open>
  C29. A percent sign followed by a character that is no conversion, flag or digit hangs the kernel:
  \<^verbatim>\<open>vsnprintf\<close> never returns, so neither does \<^verbatim>\<open>printf\<close>.
\<close>

theorem vsnprintf_unknown_hangs:
  assumes "\<And>buf t. malloc sz s = Some (buf, t) \<Longrightarrow>
      (let m = fst (memset (fst (memset (mem t) str 0 sz)) buf 0 sz) in m format = 37 \<and> m (format + 1) = c)"
    and "c \<notin> known_conv" "\<not> digit_at c" "sz \<noteq> 0"
  shows "vsnprintf str sz format ap s = None"
proof (cases "malloc sz s")
  case (Some a)
  obtain buf t where a: "a = (buf, t)" by force
  define m where "m = fst (memset (fst (memset (mem t) str 0 sz)) buf 0 sz)"
  have m: "m format = 37" "m (format + 1) = c" using assms(1) Some a by (simp_all add: m_def Let_def)
  let ?v = "\<lparr>vformat = format, vap = ap, vn = 0, vpad = 0, vflags = 0, vmem = m\<rparr>"
  have "vsn_conv str sz buf (?v\<lparr>vformat := format + 1\<rparr>) = None"
    using vsn_conv_unknown [of str sz buf "?v\<lparr>vformat := format + 1\<rparr>"] m(2) assms(2,3)
    by (cases "vsn_conv str sz buf (?v\<lparr>vformat := format + 1\<rparr>)") auto
  then have "vsn_loop str sz buf ?v = None"
    using m(1) assms(4) by (subst vsn_loop.simps) (simp add: Let_def vsn_percent_def word_neq_0_conv)
  then show ?thesis using Some a by (simp add: vsnprintf_def Let_def m_def)
qed (simp add: vsnprintf_def)

theorem vsnprintf_unknown_hangs_witness:
  "vsnprintf 0x2000 16 0x1000 0x3000 (hp0\<lparr>mem := (\<lambda>_. 0)(0x1000 := 37, 0x1001 := 107)\<rparr>) = None"
  by (rule vsnprintf_unknown_hangs [where c = 107])
    (auto simp: malloc_hp0 Let_def memset_at off_def store32_def known_conv_def digit_at_def)

text \<open>
  C28. Formatting text without a percent sign copies it: \<^verbatim>\<open>vsnprintf\<close> returns its length and, apart from
  the cleared buffers, changes exactly the bytes of the text in the output, before it frees its scratch
  buffer.
\<close>

theorem vsnprintf_text:
  assumes "malloc sz s = Some (buf, t)" "cstr (mem t) format xs" "37 \<notin> set xs" "length xs \<le> unat sz"
    and "region str (unat sz) \<inter> region format (Suc (length xs)) = {}" "region buf (unat sz) \<inter> region format (Suc (length xs)) = {}"
  shows "vsnprintf str sz format ap s = do {
    (_, u) \<leftarrow> free buf (t\<lparr>mem := put (fst (memset (fst (memset (mem t) str 0 sz)) buf 0 sz)) str xs\<rparr>);
    Some (of_nat (length xs), u) }"
proof -
  define m where "m = fst (memset (fst (memset (mem t) str 0 sz)) buf 0 sz)"
  let ?v = "\<lparr>vformat = format, vap = ap, vn = 0, vpad = 0, vflags = 0, vmem = m\<rparr>"
  have len: "Suc (length xs) \<le> 2 ^ 32" using cstr_length [OF assms(2)] by simp
  have o: "unat sz \<le> off str (format + of_nat k)" "unat sz \<le> off buf (format + of_nat k)" if "k \<le> length xs" for k
    by (rule disjoint_off [OF assms(5) _ len] disjoint_off [OF assms(6) _ len], use that in simp)+
  have mf: "m (format + of_nat k) = mem t (format + of_nat k)" if "k \<le> length xs" for k
    using o [OF that] by (simp add: m_def memset_at)
  have "cstr m format xs"
    by (rule cstrI) (use mf cstr_nth [OF assms(2)] cstr_nonzero [OF assms(2)] cstr_end [OF assms(2)] in auto)
  then obtain w where w: "vsn_loop str sz buf ?v = Some w" "vn w = of_nat (length xs)" "vmem w = put m str xs"
    using vsn_loop_text [of ?v xs sz str buf] assms(3,4) o(1) by auto
  show ?thesis
    unfolding vsnprintf_def using assms(1) w by (simp add: Let_def m_def)
qed

theorem vsnprintf_text_witness:
  "\<exists>t. malloc 16 (hp0\<lparr>mem := (\<lambda>_. 0)(0x1000 := 72, 0x1001 := 105)\<rparr>) = Some (0xC0300000, t) \<and>
    vsnprintf 0x2000 16 0x1000 0x3000 (hp0\<lparr>mem := (\<lambda>_. 0)(0x1000 := 72, 0x1001 := 105)\<rparr>) = do {
      (_, u) \<leftarrow> free 0xC0300000 (t\<lparr>mem := put (fst (memset (fst (memset (mem t) 0x2000 0 16)) 0xC0300000 0 16)) 0x2000 [72, 105]\<rparr>);
      Some (2, u) }"
proof -
  let ?s = "hp0\<lparr>mem := (\<lambda>_. 0)(0x1000 := 72, 0x1001 := 105)\<rparr>"
  obtain t where t: "malloc 16 ?s = Some (0xC0300000, t)" "mem t = store32 (mem ?s) 0xC010A000 0x80000010"
    by (simp add: malloc_hp0)
  have c: "cstr (mem t) 0x1000 [72, 105]" unfolding t(2) by (simp add: store32_def)
  have d: "region 0x2000 16 \<inter> region 0x1000 3 = {}" "region 0xC0300000 16 \<inter> region 0x1000 3 = {}"
    by (auto simp: off_unat split: if_splits)
  show ?thesis using vsnprintf_text [OF t(1) c, of "0x2000" "0x3000"] t(1) d by (simp add: numeral_3_eq_3)
qed

end
