(* ===== verification/Diag.thy ===== *)
theory Diag
  imports Kprintf
begin

text \<open>
  Messages of the kernel: a call of \<^verbatim>\<open>printf\<close> with a literal format and its arguments, and the two macros
  made of it, \<^verbatim>\<open>assert\<close> of \<^verbatim>\<open>assert.h\<close> and \<^verbatim>\<open>panic\<close> of \<^verbatim>\<open>types.h\<close>.  Neither stops the kernel: both print and
  go on.  The drivers take the effect of printing as an argument \<open>pf\<close>; \<open>print\<close> is what the kernel has there.
\<close>

section \<open>Printing\<close>

text \<open>An argument of a variadic call: a word, or the address of a string constant.\<close>

datatype parg = PW u32 | PS string

type_synonym 's printer = "string \<Rightarrow> parg list \<Rightarrow> 's \<Rightarrow> 's option"

primrec parg_word :: "(string \<Rightarrow> u32) \<Rightarrow> parg \<Rightarrow> u32" where
  "parg_word lit (PW w) = w"
| "parg_word lit (PS str) = lit str"

fun push_args :: "mem \<Rightarrow> u32 \<Rightarrow> u32 list \<Rightarrow> mem" where
  "push_args m ap [] = m"
| "push_args m ap (w # ws) = push_args (store32 m ap w) (ap + 4) ws"

text \<open>\<open>lit\<close> places string constants, \<open>buf\<close> is the local buffer of \<^verbatim>\<open>printf\<close> and \<open>ap\<close> its argument area.\<close>

definition print :: "(string \<Rightarrow> u32) \<Rightarrow> u32 \<Rightarrow> u32 \<Rightarrow> 'a vga_state_scheme printer" where
  "print lit buf ap fmt args s = do {
     (_, s) \<leftarrow> printf buf (lit fmt) ap (s\<lparr>mem := push_args (mem s) ap (map (parg_word lit) args)\<rparr>);
     Some s }"

definition newline :: string where "newline = [CHR 0x0A]"

text \<open>\<open>loc\<close> holds what the preprocessor fills in: the file, the line and the function.\<close>

definition assert :: "'s printer \<Rightarrow> parg list \<Rightarrow> string \<Rightarrow> bool \<Rightarrow> 's \<Rightarrow> 's option" where
  "assert pf loc txt e s = (if e then Some s else pf (''ASSERT FAILED: %s %s:%d:%s'' @ newline) (PS txt # loc) s)"

definition panic :: "'s printer \<Rightarrow> parg list \<Rightarrow> string \<Rightarrow> 's \<Rightarrow> 's option" where
  "panic pf loc a s = pf (''PANIC: %s (%s:%d:%s)'' @ newline) (PS a # loc) s"

definition at_line :: "string \<Rightarrow> u32 \<Rightarrow> string \<Rightarrow> parg list" where
  "at_line file line func = [PS file, PW line, PS func]"

text \<open>A printer that does not come back: runs in which no message is printed.\<close>

definition silent :: "'s printer" where
  "silent fmt args s = None"


lemma assert_true [simp]: "assert pf loc txt True s = Some s"
  by (simp add: assert_def)

lemma assert_silent [simp]: "assert silent loc txt e s = (if e then Some s else None)"
  by (simp add: assert_def silent_def)

lemma panic_silent [simp]: "panic silent loc a s = None"
  by (simp add: panic_def silent_def)

section \<open>Printing under the lock of the heap\<close>



section \<open>What printing leaves alone\<close>

text \<open>Allocating changes only the fields of the memory components, printing also those of ports and console.\<close>

lemma mm_alloc_more: "mm_state.more (snd (mm_alloc n s)) = mm_state.more s"
  by (simp add: mm_alloc_def Let_def)

lemma mm_bitmap_init_more: "mm_state.more (snd (mm_bitmap_init s)) = mm_state.more s"
  using mm_alloc_more [of 128 s] by (simp add: mm_bitmap_init_def Let_def split_beta)

lemma mm_page_alloc_more:
  assumes "mm_page_alloc PD PT s = Some (a, t)"
  shows "mm_state.more t = mm_state.more s"
proof -
  have "mm_state.more (snd r) = mm_state.more s" if "mm_page_alloc PD PT s = Some r" for r
  proof (induction rule: mm_page_alloc.raw_induct [OF _ that, consumes 0])
    case (1 f PD PT s r)
    then show ?case using mm_bitmap_init_more [of s]
      by (auto simp: Let_def split_beta split: if_splits bind_splits)
  qed
  then show ?thesis using assms by auto
qed

lemma paging_map_more: "mm_state.more (paging_map dir phys virt fl s) = mm_state.more s"
  using mm_alloc_more [of "0x1000" s] by (simp add: paging_map_def Let_def split_beta)

lemma mm_heap_more:
  fixes s t :: "'a heap_state_scheme"
  shows "mm_state.more t = mm_state.more s \<Longrightarrow> heap_state.more t = heap_state.more s"
  by (cases s; cases t) simp

lemma sbrk_page_more:
  assumes "sbrk_page s = Some t"
  shows "heap_state.more t = heap_state.more s"
proof (cases "k_virt_to_phys (K_HEAP_TOP s) s = 0")
  case True
  then obtain a u where u: "k_page_alloc s = Some (a, u)" "t = (k_paging_map a (K_HEAP_TOP u) 3 u)\<lparr>K_HEAP_TOP := K_HEAP_TOP (k_paging_map a (K_HEAP_TOP u) 3 u) + 0x1000\<rparr>"
    using assms by (auto simp: sbrk_page_def split: bind_splits)
  have "mm_state.more u = mm_state.more s" using u(1) mm_page_alloc_more unfolding k_page_alloc_def by blast
  then have "mm_state.more (k_paging_map a (K_HEAP_TOP u) 3 u) = mm_state.more s" by (simp add: k_paging_map_def paging_map_more)
  from mm_heap_more [OF this] show ?thesis by (simp add: u(2))
next
  case False
  then show ?thesis using assms by (auto simp: sbrk_page_def)
qed

lemma sbrk_loop_more: "sbrk_loop n s = Some t \<Longrightarrow> heap_state.more t = heap_state.more s"
  by (induction n arbitrary: s) (auto split: bind_splits dest: sbrk_page_more)

lemma sbrk_more: "sbrk_with (\<lambda>_. None) n s = Some (p, t) \<Longrightarrow> heap_state.more t = heap_state.more s"
  by (auto simp: sbrk_with_def Let_def simp del: sbrk_loop.simps split: if_splits bind_splits dest!: sbrk_loop_more)

lemma translate_same: "translate (\<lambda>_. None) b s = Some (p, t) \<Longrightarrow> t = s"
  by (auto simp: translate_def Let_def split: if_splits bind_splits)

lemma malloc_more:
  assumes "malloc n s = Some (p, t)"
  shows "heap_state.more t = heap_state.more s"
proof (cases "n = 0")
  case True
  then show ?thesis using assms by (simp add: malloc_def malloc_with_def)
next
  case False
  then have l: "memlock s = 0" using assms by (simp add: malloc_def malloc_with_def acquire_memlock_def split: if_splits)
  let ?s = "s\<lparr>memlock := 1\<rparr>"
  obtain r u where u: "blockchain_add n ?s = (r, u)" by (cases "blockchain_add n ?s")
  have um: "heap_state.more u = heap_state.more s" using u by (auto simp: blockchain_add_def Let_def split: if_splits)
  show ?thesis using assms False l um
    by (auto simp: malloc_def malloc_with_def acquire_memlock_def release_memlock_def u Let_def
        split: if_splits bind_splits dest!: translate_same sbrk_more)
qed

lemma free_more: "free p s = Some (q, t) \<Longrightarrow> heap_state.more t = heap_state.more s"
  by (auto simp: free_def Let_def acquire_memlock_def release_memlock_def split: if_splits bind_splits)

lemma vsnprintf_more: "vsnprintf str sz fmt ap s = Some (i, t) \<Longrightarrow> heap_state.more t = heap_state.more s"
  by (auto simp: vsnprintf_def Let_def split: bind_splits dest!: malloc_more free_more)

lemma vga_putc_more:
  fixes s :: "'a vga_state_scheme"
  shows "vga_state.more (vga_putc c s) = vga_state.more s"
proof -
  have k: "vga_state.more (vga_kputc c x y s) = vga_state.more s" for c x y and s :: "'a vga_state_scheme" by (simp add: vga_kputc_def Let_def)
  have u: "vga_state.more (vga_update_cursor s) = vga_state.more s" for s :: "'a vga_state_scheme"
    by (simp add: vga_update_cursor_def vga_move_cursor_def outb_def io_event_def Let_def)
  have "vga_state.more (vga_scroll s) = vga_state.more s" for s :: "'a vga_state_scheme" by (simp add: vga_scroll_def Let_def u)
  with k show ?thesis by (simp add: vga_putc_def Let_def)
qed

lemma vga_puts_more:
  assumes "vga_puts p s = Some t"
  shows "vga_state.more t = vga_state.more s"
proof (induction rule: vga_puts.raw_induct [OF _ assms, consumes 0])
  case (1 f p s t)
  then show ?case by (auto simp: vga_putc_more split: if_splits)
qed

lemma heap_vga_more:
  fixes s t :: "'a vga_state_scheme"
  shows "heap_state.more t = heap_state.more s \<Longrightarrow> vga_state.more t = vga_state.more s"
  by (cases s; cases t) simp

lemma print_more: "print lit buf ap fmt args s = Some t \<Longrightarrow> vga_state.more t = vga_state.more s"
  by (auto simp: print_def printf_def split: bind_splits dest!: vsnprintf_more heap_vga_more vga_puts_more)

section \<open>Properties\<close>




end
