(* ===== verification/Pic.thy ===== *)
theory Pic
  imports Diag
begin

text \<open>The 8259A interrupt controllers, \<^verbatim>\<open>arch/pic.c\<close>: the mask the driver keeps and what it programs.\<close>

section \<open>State and operations\<close>

definition PIC1_CMD :: u16 where "PIC1_CMD = 0x20"
definition PIC1_DATA :: u16 where "PIC1_DATA = 0x21"
definition PIC2_CMD :: u16 where "PIC2_CMD = 0xA0"
definition PIC2_DATA :: u16 where "PIC2_DATA = 0xA1"
definition IRQ_SLAVE :: nat where "IRQ_SLAVE = 2"
definition IRQ0 :: u16 where "IRQ0 = 32"
definition IRQ_IDE :: nat where "IRQ_IDE = 14"

record pic_state = vga_state +
  irqmask :: u16

definition irqmask_init :: u16 where
  "irqmask_init = 0xFFFF AND NOT (push_bit IRQ_SLAVE 1)"

definition pic_setmask :: "u16 \<Rightarrow> 'a pic_state_scheme \<Rightarrow> 'a pic_state_scheme" where
  "pic_setmask msk s =
    (let s = s\<lparr>irqmask := msk\<rparr>; s = outb PIC1_DATA msk s in outb PIC2_DATA (drop_bit 8 msk) s)"

definition pic_enable :: "nat \<Rightarrow> 'a pic_state_scheme \<Rightarrow> 'a pic_state_scheme" where
  "pic_enable irq s = pic_setmask (irqmask s AND NOT (push_bit irq 1)) s"

definition pic_disable :: "'a pic_state_scheme \<Rightarrow> 'a pic_state_scheme" where
  "pic_disable s = pic_setmask 0xFFFF s"

definition pic_init :: "'a pic_state_scheme \<Rightarrow> 'a pic_state_scheme" where
  "pic_init s =
    (let s = outb PIC1_DATA 0xFF s; s = outb PIC2_DATA 0xFF s;
         s = outb PIC1_CMD 0x11 s; s = outb PIC1_DATA IRQ0 s; s = outb PIC1_DATA (push_bit IRQ_SLAVE 1) s; s = outb PIC1_DATA 0x3 s;
         s = outb PIC2_CMD 0x11 s; s = outb PIC2_DATA (IRQ0 + 8) s; s = outb PIC2_DATA (of_nat IRQ_SLAVE) s; s = outb PIC2_DATA 0x3 s;
         s = outb PIC1_CMD 0x68 s; s = outb PIC1_CMD 0x0a s; s = outb PIC2_CMD 0x68 s; s = outb PIC2_CMD 0x0a s
     in if irqmask s \<noteq> 0xFFFF then pic_setmask (irqmask s) s else s)"

section \<open>The programmed mask\<close>

text \<open>The last byte an access log sends to a port.\<close>

fun last_out :: "u16 \<Rightarrow> io_event list \<Rightarrow> u8 option" where
  "last_out p [] = None"
| "last_out p (Outb q d # es) = (case last_out p es of None \<Rightarrow> if p = q then Some d else None | Some e \<Rightarrow> Some e)"
| "last_out p (_ # es) = last_out p es"

lemma last_out_append: "last_out p (es @ fs) = (case last_out p fs of None \<Rightarrow> last_out p es | Some d \<Rightarrow> Some d)"
  by (induction p es rule: last_out.induct) (auto split: option.splits)

text \<open>The controllers hold the mask of the driver: the low byte in the first, the high byte in the second.\<close>

definition pic_synced :: "'a pic_state_scheme \<Rightarrow> bool" where
  "pic_synced s \<longleftrightarrow> last_out PIC1_DATA (io_log s) = Some (ucast (irqmask s)) \<and>
    last_out PIC2_DATA (io_log s) = Some (ucast (drop_bit 8 (irqmask s)))"

lemma outb_irqmask [simp]: "irqmask (outb p d s) = irqmask s"
  by (simp add: outb_def io_event_def)

lemma pic_setmask_synced: "pic_synced (pic_setmask msk s)" "irqmask (pic_setmask msk s) = msk"
  by (simp_all add: pic_synced_def pic_setmask_def last_out_append PIC1_DATA_def PIC2_DATA_def)

end
