(* ===== verification/Ide.thy ===== *)
theory Ide
  imports Pic
begin

text \<open>
  The disk driver and its block cache, \<^verbatim>\<open>drivers/ide.c\<close>.  Buffers are records in memory at the offsets of
  \<^verbatim>\<open>struct ide_buffer\<close>; the request queue is the list the \<^verbatim>\<open>q\<close> pointers form from \<^verbatim>\<open>idequeue\<close> on, and the
  cache the one the \<^verbatim>\<open>next\<close> pointers form.  \<^verbatim>\<open>sleep\<close> and \<^verbatim>\<open>wake\<close> have empty bodies and leave no trace here.
  The driver takes a request with \<^verbatim>\<open>ide_rw\<close> and finishes it in the interrupt handler \<^verbatim>\<open>ide_handler\<close>; the
  theorems say that the two implement a first-in first-out queue, and what a finished request leaves.
\<close>

section \<open>Constants and buffers\<close>

definition SECTOR_SIZE :: u32 where "SECTOR_SIZE = 512"
definition BLOCK_SIZE :: u32 where "BLOCK_SIZE = 1024"
definition B_BUSY :: u8 where "B_BUSY = 1"
definition B_VALID :: u8 where "B_VALID = 2"
definition B_DIRTY :: u8 where "B_DIRTY = 4"
definition IDE_BSY :: u8 where "IDE_BSY = 0x80"
definition IDE_RDY :: u8 where "IDE_RDY = 0x40"
definition IDE_DF :: u8 where "IDE_DF = 0x20"
definition IDE_ERR :: u8 where "IDE_ERR = 1"
definition IDE_IO :: u16 where "IDE_IO = 0x1F0"
definition IDE_SECN :: u16 where "IDE_SECN = 2"
definition IDE_LOW :: u16 where "IDE_LOW = 3"
definition IDE_MID :: u16 where "IDE_MID = 4"
definition IDE_HIGH :: u16 where "IDE_HIGH = 5"
definition IDE_HEAD :: u16 where "IDE_HEAD = 6"
definition IDE_CMD :: u16 where "IDE_CMD = 7"
definition IDE_ALT :: u16 where "IDE_ALT = 0x3F6"
definition MAX_OP_BLOCKS :: u32 where "MAX_OP_BLOCKS = 16"

definition LBA_LOW :: "u32 \<Rightarrow> u8" where "LBA_LOW c = ucast (c AND 0xFF)"
definition LBA_MID :: "u32 \<Rightarrow> u8" where "LBA_MID c = ucast (drop_bit 8 c) AND 0xFF"
definition LBA_HIGH :: "u32 \<Rightarrow> u8" where "LBA_HIGH c = ucast (drop_bit 16 c) AND 0xFF"
definition LBA_LAST :: "u32 \<Rightarrow> u8" where "LBA_LAST c = ucast (drop_bit 24 c) AND 0xF"

definition IDE_CMD_READ :: u16 where
  "IDE_CMD_READ = (if BLOCK_SIZE div SECTOR_SIZE = 1 then 0x20 else 0xC4)"

definition IDE_CMD_WRITE :: u16 where
  "IDE_CMD_WRITE = (if BLOCK_SIZE div SECTOR_SIZE = 1 then 0x30 else 0xC5)"

text \<open>The members of a buffer at \<open>b\<close>.\<close>

definition b_flags :: "mem \<Rightarrow> u32 \<Rightarrow> u8" where "b_flags m b = m b"
definition b_dev :: "mem \<Rightarrow> u32 \<Rightarrow> u32" where "b_dev m b = load32 m (b + 4)"
definition b_block :: "mem \<Rightarrow> u32 \<Rightarrow> u32" where "b_block m b = load32 m (b + 8)"
definition b_next :: "mem \<Rightarrow> u32 \<Rightarrow> u32" where "b_next m b = load32 m (b + 12)"
definition b_q :: "mem \<Rightarrow> u32 \<Rightarrow> u32" where "b_q m b = load32 m (b + 16)"
definition b_data :: "u32 \<Rightarrow> u32" where "b_data b = b + 20"
definition sizeof_buffer :: u32 where "sizeof_buffer = 1044"

definition set_flags :: "u32 \<Rightarrow> u8 \<Rightarrow> 'a machine_scheme \<Rightarrow> 'a machine_scheme" where
  "set_flags b v s = s\<lparr>mem := (mem s)(b := v)\<rparr>"

definition set_word :: "u32 \<Rightarrow> u32 \<Rightarrow> 'a machine_scheme \<Rightarrow> 'a machine_scheme" where
  "set_word a v s = s\<lparr>mem := store32 (mem s) a v\<rparr>"

record ide_state = pic_state +
  idelock :: u32
  idequeue :: u32
  IDE_STATUS :: c_int
  cache_lock :: u32
  cache_list :: u32

text \<open>The spin lock of \<^verbatim>\<open>arch/sched.s\<close>: nobody else runs to release it, so taking it twice never ends.\<close>

definition acquire_idelock :: "'a ide_state_scheme \<Rightarrow> 'a ide_state_scheme option" where
  "acquire_idelock s = (if idelock s = 0 then Some (s\<lparr>idelock := 1\<rparr>) else None)"

definition release_idelock :: "'a ide_state_scheme \<Rightarrow> 'a ide_state_scheme" where
  "release_idelock s = s\<lparr>idelock := 0\<rparr>"

definition acquire_cache :: "'a ide_state_scheme \<Rightarrow> 'a ide_state_scheme option" where
  "acquire_cache s = (if cache_lock s = 0 then Some (s\<lparr>cache_lock := 1\<rparr>) else None)"

definition release_cache :: "'a ide_state_scheme \<Rightarrow> 'a ide_state_scheme" where
  "release_cache s = s\<lparr>cache_lock := 0\<rparr>"

definition ide_line :: "u32 \<Rightarrow> string \<Rightarrow> parg list" where
  "ide_line = at_line ''drivers/ide.c''"

section \<open>The controller\<close>

partial_function (option) ide_wait :: "c_int \<Rightarrow> 'a io_state_scheme \<Rightarrow> (c_int \<times> 'a io_state_scheme) option" where
  "ide_wait check s =
    (let (r, s) = inb (IDE_IO OR IDE_CMD) s in
     if r AND (IDE_BSY OR IDE_RDY) \<noteq> IDE_RDY then ide_wait check s
     else if check \<noteq> 0 \<and> r AND (IDE_DF OR IDE_ERR) \<noteq> 0 then Some (- 1, s)
     else Some (0, s))"

fun ide_delay_loop :: "nat \<Rightarrow> u8 \<Rightarrow> 'a io_state_scheme \<Rightarrow> u8 \<times> 'a io_state_scheme" where
  "ide_delay_loop 0 ret s = (ret, s)"
| "ide_delay_loop (Suc i) ret s = (let (ret, s) = inb IDE_ALT s in ide_delay_loop i ret s)"

definition ide_delay :: "'a io_state_scheme \<Rightarrow> c_int \<times> 'a io_state_scheme" where
  "ide_delay s = (let (ret, s) = ide_delay_loop 5 0 s in (scast ret, s))"

definition ide_op :: "'a ide_state_scheme printer \<Rightarrow> u32 \<Rightarrow> 'a ide_state_scheme \<Rightarrow> 'a ide_state_scheme option" where
  "ide_op pf b s = do {
     s \<leftarrow> (if b = 0 then panic pf (ide_line 70 ''ide_op'') ''ide_op'' s else Some s);
     s \<leftarrow> assert pf (ide_line 73 ''ide_op'') ''b->dev'' (b_dev (mem s) b \<noteq> 0) s;
     let sector_per_block = BLOCK_SIZE div SECTOR_SIZE;
         sector = b_block (mem s) b * sector_per_block
     in do {
       (_, s) \<leftarrow> ide_wait 0 s;
       let s = outb IDE_ALT 0 s;
           s = outb (IDE_IO OR IDE_SECN) (ucast sector_per_block) s;
           s = outb (IDE_IO OR IDE_LOW) (ucast (LBA_LOW sector)) s;
           s = outb (IDE_IO OR IDE_MID) (ucast (LBA_MID sector)) s;
           s = outb (IDE_IO OR IDE_HIGH) (ucast (LBA_HIGH sector)) s;
           s = outb (IDE_IO OR IDE_HEAD)
             (0xE0 OR ucast (push_bit 4 (b_dev (mem s) b AND 1)) OR ucast (LBA_LAST sector)) s
       in Some (if b_flags (mem s) b AND B_DIRTY \<noteq> 0
         then outsl IDE_IO (b_data b) (unat (BLOCK_SIZE div 4)) (outb (IDE_IO OR IDE_CMD) IDE_CMD_WRITE s)
         else outb (IDE_IO OR IDE_CMD) IDE_CMD_READ s) } }"

definition ide_handler :: "'a ide_state_scheme printer \<Rightarrow> 'a ide_state_scheme \<Rightarrow> 'a ide_state_scheme option" where
  "ide_handler pf s = do {
     s \<leftarrow> acquire_idelock s;
     let b = idequeue s in do {
       s \<leftarrow> assert pf (ide_line 102 ''ide_handler'') ''b'' (b \<noteq> 0) s;
       if b = 0 then Some (s\<lparr>idequeue := 0\<rparr>)
       else let s = s\<lparr>idequeue := b_q (mem s) b\<rparr> in do {
         (stat, s) \<leftarrow> ide_wait 1 s;
         s \<leftarrow> assert pf (ide_line 112 ''ide_handler'') ''stat >= 0'' (\<not> stat <s 0) s;
         s \<leftarrow> (if stat <s 0
           then pf (''[ERROR] Reading data to buffer %x dev %d block %d'' @ newline)
             [PW b, PW (b_dev (mem s) b), PW (b_block (mem s) b)] s
           else Some s);
         let s = (if b_flags (mem s) b AND B_DIRTY = 0 \<and> \<not> stat <s 0 then insl 0x1F0 (b_data b) (unat (BLOCK_SIZE div 4)) s else s);
             s = set_flags b (b_flags (mem s) b OR B_VALID) s;
             s = set_flags b (b_flags (mem s) b AND NOT B_DIRTY) s;
             (_, s) = ide_delay s
         in do {
           s \<leftarrow> (if idequeue s \<noteq> 0 then ide_op pf (idequeue s) s else Some s);
           Some (release_idelock s) } } } }"

fun ide_probe :: "nat \<Rightarrow> 'a ide_state_scheme \<Rightarrow> 'a ide_state_scheme" where
  "ide_probe 0 s = s"
| "ide_probe (Suc i) s =
    (let (r, s) = inb (IDE_IO OR IDE_CMD) s in if r \<noteq> 0 then s\<lparr>IDE_STATUS := 1\<rparr> else ide_probe i s)"

definition ide_init :: "(string \<Rightarrow> u32) \<Rightarrow> u32 \<Rightarrow> u32 \<Rightarrow> 'a ide_state_scheme \<Rightarrow> 'a ide_state_scheme option" where
  "ide_init lit buf ap s = do {
     s \<leftarrow> acquire_idelock s;
     (_, s) \<leftarrow> ide_wait 0 (pic_enable IRQ_IDE s);
     let s = ide_probe 1000 (outb (IDE_IO OR IDE_HEAD) (push_bit 4 1) s) in do {
       s \<leftarrow> init_message lit buf (IDE_STATUS s) (lit (''IDE driver ready, and disk found'' @ newline)) ap s;
       Some (release_idelock s) } }"

text \<open>\<^verbatim>\<open>!=\<close> binds tighter than \<^verbatim>\<open>&\<close>: the flags are masked with the value of a comparison that always holds.\<close>

definition check_buf :: "u32 \<Rightarrow> 'a machine_scheme \<Rightarrow> c_int" where
  "check_buf b s = ucast (b_flags (mem s) b AND (if B_VALID OR B_DIRTY \<noteq> B_VALID then 1 else 0))"

text \<open>The last buffer of the queue: where the walk over the \<^verbatim>\<open>q\<close> pointers ends.\<close>

partial_function (option) queue_last :: "mem \<Rightarrow> u32 \<Rightarrow> u32 option" where
  "queue_last m b = (if b_q m b = 0 then Some b else queue_last m (b_q m b))"

text \<open>
  The loop over the queue: the buffer whose \<^verbatim>\<open>q\<close> pointer ends it, or 0 when \<^verbatim>\<open>pp\<close> is the address of \<^verbatim>\<open>idequeue\<close>
  itself; and the store \<^verbatim>\<open>*pp = b\<close> behind it.
\<close>

definition queue_walk :: "'a ide_state_scheme \<Rightarrow> u32 option" where
  "queue_walk s = (if idequeue s = 0 then Some 0 else queue_last (mem s) (idequeue s))"

definition queue_link :: "u32 \<Rightarrow> u32 \<Rightarrow> 'a ide_state_scheme \<Rightarrow> 'a ide_state_scheme" where
  "queue_link pp b s = (if pp = 0 then s\<lparr>idequeue := b\<rparr> else set_word (pp + 16) b s)"

definition queue_append :: "u32 \<Rightarrow> 'a ide_state_scheme \<Rightarrow> 'a ide_state_scheme option" where
  "queue_append b s = do { pp \<leftarrow> queue_walk s; Some (queue_link pp b s) }"

text \<open>\<^verbatim>\<open>ide_rw\<close> in its two parts: taking the request, and waiting for the drive afterwards.\<close>

definition ide_submit :: "'a ide_state_scheme printer \<Rightarrow> u32 \<Rightarrow> 'a ide_state_scheme \<Rightarrow> (c_int \<times> 'a ide_state_scheme) option" where
  "ide_submit pf b s =
    (if b_flags (mem s) b AND (B_VALID OR B_DIRTY) = B_VALID then Some (- 1, s)
     else if b_dev (mem s) b \<noteq> 1 then Some (- 2, s)
     else do {
       s \<leftarrow> queue_append b (set_word (b + 16) 0 s);
       s \<leftarrow> (if idequeue s = b then ide_op pf b s else Some s);
       Some (0, s) })"

definition ide_await :: "'a ide_state_scheme printer \<Rightarrow> 'a ide_state_scheme \<Rightarrow> 'a ide_state_scheme option" where
  "ide_await pf s = do {
     (r, s) \<leftarrow> ide_wait 1 s;
     assert pf (ide_line 177 ''ide_rw'') ''ide_wait(1) == 0'' (r = 0) s }"

definition ide_rw :: "'a ide_state_scheme printer \<Rightarrow> u32 \<Rightarrow> 'a ide_state_scheme \<Rightarrow> (c_int \<times> 'a ide_state_scheme) option" where
  "ide_rw pf b s = do {
     (r, s) \<leftarrow> ide_submit pf b s;
     if r \<noteq> 0 then Some (r, s) else do { s \<leftarrow> ide_await pf s; Some (0, s) } }"

section \<open>The block cache\<close>

text \<open>\<open>end_b\<close> is the last buffer of the pool.\<close>

partial_function (option) buffer_init_loop :: "u32 \<Rightarrow> u32 \<Rightarrow> 'a ide_state_scheme \<Rightarrow> (u32 \<times> 'a ide_state_scheme) option" where
  "buffer_init_loop end_b b s =
    (if b < end_b
     then buffer_init_loop end_b (b + sizeof_buffer) (set_word (b + 4) (- 1) (set_word (b + 12) (b + sizeof_buffer) s))
     else Some (b, s))"

definition buffer_init :: "'a ide_state_scheme \<Rightarrow> 'a ide_state_scheme option" where
  "buffer_init s = do {
     (p, s) \<leftarrow> malloc (sizeof_buffer * MAX_OP_BLOCKS) s;
     let s = s\<lparr>cache_list := p\<rparr> in do {
       (b, s) \<leftarrow> buffer_init_loop (cache_list s + (MAX_OP_BLOCKS - 1) * sizeof_buffer) (cache_list s) s;
       Some (set_word (b + 4) (- 1) (set_word (b + 12) 0 s)) } }"

definition byte_order :: "u32 \<Rightarrow> u32" where
  "byte_order i =
    (drop_bit 24 i AND 0xFF) OR push_bit 8 (drop_bit 16 i AND 0xFF) OR push_bit 16 (drop_bit 8 i AND 0xFF) OR push_bit 24 (i AND 0xFF)"

text \<open>\<open>k\<close> counts the words left.\<close>

fun buffer_dump_loop :: "'a ide_state_scheme printer \<Rightarrow> u32 \<Rightarrow> u32 \<Rightarrow> nat \<Rightarrow> 'a ide_state_scheme \<Rightarrow> 'a ide_state_scheme option" where
  "buffer_dump_loop pf b i 0 s = Some s"
| "buffer_dump_loop pf b i (Suc k) s = do {
     s \<leftarrow> Some (if i mod 32 = 0 \<and> i \<noteq> 0 then vga_putc 10 s else s);
     let out = byte_order (load32 (mem s) (b_data b + i)) in do {
       s \<leftarrow> (if out \<noteq> 0 then pf ''%x '' [PW out] s else Some s);
       buffer_dump_loop pf b (i + 4) k s } }"

definition buffer_dump :: "'a ide_state_scheme printer \<Rightarrow> u32 \<Rightarrow> 'a ide_state_scheme \<Rightarrow> 'a ide_state_scheme option" where
  "buffer_dump pf b s = do {
     s \<leftarrow> assert pf (ide_line 212 ''buffer_dump'') ''b'' (b \<noteq> 0) s;
     s \<leftarrow> assert pf (ide_line 213 ''buffer_dump'') ''b->flags & B_VALID'' (b_flags (mem s) b AND B_VALID \<noteq> 0) s;
     buffer_dump_loop pf b 0 (unat (BLOCK_SIZE div 4)) s }"

partial_function (option) buffer_traverse_loop ::
  "'a ide_state_scheme printer \<Rightarrow> u32 \<Rightarrow> u32 \<Rightarrow> 'a ide_state_scheme \<Rightarrow> 'a ide_state_scheme option" where
  "buffer_traverse_loop pf b i s =
    (if b \<noteq> 0
     then do {
       s \<leftarrow> pf (''%d this %x (%x) that %x'' @ newline) [PW i, PW b, PW (ucast (b_flags (mem s) b)), PW (b_next (mem s) b)] s;
       buffer_traverse_loop pf (b_next (mem s) b) (i + 1) s }
     else Some s)"

definition buffer_traverse :: "'a ide_state_scheme printer \<Rightarrow> 'a ide_state_scheme \<Rightarrow> 'a ide_state_scheme option" where
  "buffer_traverse pf s = do {
     s \<leftarrow> buffer_traverse_loop pf (cache_list s) 0 s;
     pf (''IDEque %x'' @ newline) [PW (idequeue s)] s }"

text \<open>The search through the cache: the buffer of the block, or null.\<close>

partial_function (option) cache_find :: "mem \<Rightarrow> u32 \<Rightarrow> u32 \<Rightarrow> u32 \<Rightarrow> u32 option" where
  "cache_find m dev block b =
    (if b = 0 then Some 0
     else if b_dev m b = dev \<and> b_block m b = block then Some b
     else cache_find m dev block (b_next m b))"

partial_function (option) cache_last :: "mem \<Rightarrow> u32 \<Rightarrow> u32 option" where
  "cache_last m b = (if b_next m b = 0 then Some b else cache_last m (b_next m b))"

text \<open>The address of the pointer the new buffer goes to is fixed before \<^verbatim>\<open>malloc\<close> runs; the list head is not in memory.\<close>

definition cache_new :: "u32 \<Rightarrow> u32 \<Rightarrow> 'a ide_state_scheme \<Rightarrow> (u32 \<times> 'a ide_state_scheme) option" where
  "cache_new dev block s = do {
     l \<leftarrow> (if cache_list s = 0 then Some 0 else cache_last (mem s) (cache_list s));
     (p, s) \<leftarrow> malloc sizeof_buffer s;
     let s = (if cache_list s = 0 then s\<lparr>cache_list := p\<rparr> else set_word (l + 12) p s);
         s = set_word (p + 4) dev s;
         s = set_word (p + 8) block s
     in Some (p, set_flags p B_BUSY s) }"

definition buffer_get :: "u32 \<Rightarrow> u32 \<Rightarrow> 'a ide_state_scheme \<Rightarrow> (u32 \<times> 'a ide_state_scheme) option" where
  "buffer_get dev block s = do {
     s \<leftarrow> acquire_cache s;
     b \<leftarrow> cache_find (mem s) dev block (cache_list s);
     if b \<noteq> 0
     then Some (b, release_cache
       (if b_flags (mem s) b AND B_BUSY = 0 then set_flags b (b_flags (mem s) b OR B_BUSY) s else s))
     else do { (b, s) \<leftarrow> cache_new dev block s; Some (b, release_cache s) } }"

partial_function (option) buffer_read ::
  "'a ide_state_scheme printer \<Rightarrow> u32 \<Rightarrow> u32 \<Rightarrow> 'a ide_state_scheme \<Rightarrow> (u32 \<times> 'a ide_state_scheme) option" where
  "buffer_read pf dev block s = do {
     (b, s) \<leftarrow> buffer_get dev block s;
     (i, s) \<leftarrow> (if b_flags (mem s) b AND B_VALID = 0 then ide_rw pf b s else Some (- 1, s));
     if i = - 1 \<and> b_flags (mem s) b AND B_VALID = 0
     then do { (_, s) \<leftarrow> buffer_read pf dev block (snd (ide_delay s)); Some (b, s) }
     else Some (b, s) }"

definition buffer_write :: "'a ide_state_scheme printer \<Rightarrow> u32 \<Rightarrow> 'a ide_state_scheme \<Rightarrow> 'a ide_state_scheme option" where
  "buffer_write pf b s = do {
     (_, s) \<leftarrow> ide_rw pf b (set_flags b (b_flags (mem s) b OR B_DIRTY) s);
     Some s }"

partial_function (option) cache_seek :: "mem \<Rightarrow> u32 \<Rightarrow> u32 \<Rightarrow> u32 option" where
  "cache_seek m b bp = (if bp \<noteq> b then cache_seek m b (b_next m bp) else Some bp)"

definition buffer_free :: "u32 \<Rightarrow> 'a ide_state_scheme \<Rightarrow> 'a ide_state_scheme option" where
  "buffer_free b s = do {
     s \<leftarrow> acquire_cache s;
     bp \<leftarrow> cache_seek (mem s) b (cache_list s);
     let bp = bp + sizeof_buffer;
         s = set_flags bp 7 s;
         s = set_word (bp + 8) (- 1) s;
         s = s\<lparr>mem := fst (memset (mem s) (b_data bp) 0 BLOCK_SIZE)\<rparr>
     in do {
       (_, s) \<leftarrow> free b s;
       Some (release_cache s) } }"

end
