(* ===== verification/Rtc.thy ===== *)
theory Rtc
  imports Ports
begin

text \<open>
  The real time clock, \<^verbatim>\<open>drivers/rtc.c\<close>: reading a register and computing the time in seconds.  The theorem
  compares the result with the days of the Gregorian calendar.
\<close>

section \<open>Operations\<close>

definition RTC_BASE :: u16 where "RTC_BASE = 0x70"
definition RTC_DATA :: u16 where "RTC_DATA = 0x71"
definition RTC_SEC :: u8 where "RTC_SEC = 0x00"
definition RTC_MIN :: u8 where "RTC_MIN = 0x02"
definition RTC_HOUR :: u8 where "RTC_HOUR = 0x04"
definition RTC_DAY :: u8 where "RTC_DAY = 0x07"
definition RTC_MON :: u8 where "RTC_MON = 0x08"
definition RTC_YEAR :: u8 where "RTC_YEAR = 0x09"

definition rtc_read :: "u8 \<Rightarrow> 'a io_state_scheme \<Rightarrow> u32 \<times> 'a io_state_scheme" where
  "rtc_read b s =
    (let s = outb RTC_BASE (ucast b) s; (v, s) = inb RTC_DATA s; v = ucast v :: u32 in
     ((drop_bit 4 v AND 0x0F) * 10 + (v AND 0x0F), s))"

text \<open>The array of names and what follows it in memory: an index behind the twelve is not defined.\<close>

definition month_names :: "string list" where
  "month_names = [''January'', ''February'', ''March'', ''April'', ''May'', ''June'', ''July'', ''August'',
     ''September'', ''October'', ''November'', ''December'']"

definition rtc_month :: "(string \<Rightarrow> u32) \<Rightarrow> u32 \<Rightarrow> 'a machine_scheme \<Rightarrow> u32" where
  "rtc_month lit month s = (if unat (month - 1) < 12 then lit (month_names ! unat (month - 1)) else indet s)"

text \<open>\<^verbatim>\<open>months\<close> has eleven values for twelve elements: October is missing, December is zero.\<close>

definition months :: "u32 list" where
  "months = [0, 31, 59, 90, 120, 151, 181, 212, 243, 304, 334, 0]"

function year_loop :: "u32 \<Rightarrow> u32 \<Rightarrow> u32 \<Rightarrow> u32" where
  "year_loop i year day =
    (if i < year
     then year_loop (i + 1) year
       (if i mod 4 \<noteq> 0 then day + 365
        else if i mod 400 \<noteq> 0 then day + 366
        else if i mod 100 \<noteq> 0 then day + 365
        else day + 366)
     else day)"
  by pat_completeness auto
termination by (relation "measure (\<lambda>(i, year, _). unat (year - i))") simp_all

declare year_loop.simps [simp del]

text \<open>\<^verbatim>\<open>ctime\<close> computes local variables and ends without returning a value.\<close>

definition ctime :: "u32 \<Rightarrow> 'a machine_scheme \<Rightarrow> u32" where
  "ctime t s = indet s"

text \<open>A month outside the array reads whatever is there.\<close>

definition time :: "'a io_state_scheme \<Rightarrow> u32 \<times> 'a io_state_scheme" where
  "time s =
    (let (sec, s) = rtc_read RTC_SEC s; (min, s) = rtc_read RTC_MIN s; (hour, s) = rtc_read RTC_HOUR s;
         (day, s) = rtc_read RTC_DAY s; (mon, s) = rtc_read RTC_MON s; (year, s) = rtc_read RTC_YEAR s;
         year = (if year < 70 then year + 100 else year);
         year = year + 1900;
         day = year_loop 1970 year day;
         day = day + (if unat (mon - 1) < 12 then months ! unat (mon - 1) else indet s);
         day = day + 1;
         t = day * 24;
         t = t + hour;
         t = t * 60;
         t = t + min;
         t = t * 60;
         t = t + sec
     in (t, s))"

section \<open>The calendar\<close>

definition leap :: "nat \<Rightarrow> bool" where
  "leap y \<longleftrightarrow> 4 dvd y \<and> (\<not> 100 dvd y \<or> 400 dvd y)"

definition days_in_year :: "nat \<Rightarrow> nat" where
  "days_in_year y = (if leap y then 366 else 365)"

definition month_days :: "nat list" where
  "month_days = [31, 28, 31, 30, 31, 30, 31, 31, 30, 31, 30, 31]"

text \<open>Days from 1 January 1970 to a date.\<close>

definition epoch_days :: "nat \<Rightarrow> nat \<Rightarrow> nat \<Rightarrow> nat" where
  "epoch_days y m d = sum_list (map days_in_year [1970..<y]) + sum_list (take (m - 1) month_days) +
    (if leap y \<and> 2 < m then 1 else 0) + (d - 1)"

definition epoch_secs :: "nat \<Rightarrow> nat \<Rightarrow> nat \<Rightarrow> nat \<Rightarrow> nat \<Rightarrow> nat \<Rightarrow> nat" where
  "epoch_secs y m d h mi s = ((epoch_days y m d * 24 + h) * 60 + mi) * 60 + s"

text \<open>A number below one hundred in the format of the registers.\<close>

definition bcd :: "nat \<Rightarrow> u32" where
  "bcd n = of_nat (n div 10 * 16 + n mod 10)"

lemma bcd_digits:
  assumes "n < 100"
  shows "(drop_bit 4 (ucast (ucast (bcd n) :: u8)) AND 0x0F) * 10 + (ucast (ucast (bcd n) :: u8) AND 0x0F) = (of_nat n :: u32)"
proof -
  let ?v = "ucast (ucast (bcd n) :: u8) :: u32"
  have lt: "n div 10 * 16 + n mod 10 < 256" "n div 10 < 16" "n mod 10 < 16" using assms by auto
  have "unat (bcd n) = n div 10 * 16 + n mod 10" unfolding bcd_def by (rule unat_of_nat32) (use lt(1) in simp)
  moreover have "unat (ucast (bcd n) :: u8) = unat (bcd n) mod 256" by (simp add: unsigned_ucast_eq take_bit_eq_mod)
  ultimately have v: "unat ?v = n div 10 * 16 + n mod 10" using lt(1) by simp
  have m: "(0x0F :: u32) = mask 4" by (simp add: mask_eq_exp_minus_1)
  have hi: "unat (drop_bit 4 ?v AND 0x0F) = n div 10" unfolding m using lt(2,3) by (simp only: unat_and_mask unat_drop_bit v) simp
  have lo: "unat (?v AND 0x0F) = n mod 10" unfolding m using lt(3) by (simp only: unat_and_mask v) simp
  have "drop_bit 4 ?v AND 0x0F = of_nat (n div 10)" "?v AND 0x0F = of_nat (n mod 10)"
    by (simp_all only: flip: hi lo) simp_all
  then have "(drop_bit 4 ?v AND 0x0F) * 10 + (?v AND 0x0F) = of_nat (n div 10 * 10 + n mod 10)"
    by (simp only: of_nat_add of_nat_mult of_nat_numeral)
  then show ?thesis by (simp only: div_mult_mod_eq)
qed

lemma rtc_read_bcd:
  assumes "io_in s 0 = bcd n" "n < 100"
  shows "fst (rtc_read r s) = of_nat n"
  using bcd_digits [OF assms(2)] assms(1) by (simp add: rtc_read_def Let_def split_beta)

lemma rtc_read_pair: "io_in s 0 = bcd n \<Longrightarrow> n < 100 \<Longrightarrow> rtc_read r s = (of_nat n, snd (rtc_read r s))"
  by (rule prod_eqI) (simp_all add: rtc_read_bcd)

lemma rtc_read_io_in: "io_in (snd (rtc_read r s)) = (\<lambda>k. io_in s (Suc k))"
  by (simp add: rtc_read_def Let_def split_beta)

text \<open>The accesses of a read: the number of the register goes out on one port, its value comes in on the other.\<close>

lemma rtc_read_log: "io_log (snd (rtc_read r s)) = io_log s @ [Outb 0x70 r, Inb 0x71 (ucast (io_in s 0))]"
proof -
  have "ucast (ucast r :: u16) = r" by (rule bit_word_eqI) (simp add: bit_simps)
  then show ?thesis by (simp add: rtc_read_def Let_def split_beta RTC_BASE_def RTC_DATA_def)
qed

lemma of_nat_mod_u32: "i < 2 ^ 32 \<Longrightarrow> 0 < k \<Longrightarrow> k < 2 ^ 32 \<Longrightarrow> (of_nat i :: u32) mod of_nat k = 0 \<longleftrightarrow> i mod k = 0"
  by (simp add: word_unat_eq_iff unat_mod)

lemma year_step:
  assumes "1970 \<le> i" "i < 2100"
  shows "(if (of_nat i :: u32) mod 4 \<noteq> 0 then day + 365 else if (of_nat i :: u32) mod 400 \<noteq> 0 then day + 366
      else if (of_nat i :: u32) mod 100 \<noteq> 0 then day + 365 else day + 366) = day + of_nat (days_in_year i)"
proof -
  have "100 dvd i \<longleftrightarrow> i = 2000"
  proof
    assume "100 dvd i"
    then obtain k where "i = 100 * k" by (auto simp: dvd_def)
    then show "i = 2000" using assms by simp
  qed simp
  then have l: "leap i \<longleftrightarrow> i mod 4 = 0" by (auto simp: leap_def dvd_eq_mod_eq_0)
  have "(of_nat i :: u32) mod 4 = 0 \<longleftrightarrow> i mod 4 = 0" "(of_nat i :: u32) mod 400 = 0 \<longleftrightarrow> i mod 400 = 0"
      "(of_nat i :: u32) mod 100 = 0 \<longleftrightarrow> i mod 100 = 0"
    using of_nat_mod_u32 [of i 4] of_nat_mod_u32 [of i 400] of_nat_mod_u32 [of i 100] assms by simp_all
  moreover have "i mod 400 = 0 \<Longrightarrow> i mod 100 = 0" by presburger
  ultimately show ?thesis using l by (simp add: days_in_year_def)
qed

lemma year_loop_sum:
  "1970 \<le> i \<Longrightarrow> i \<le> y \<Longrightarrow> y \<le> 2100 \<Longrightarrow>
    year_loop (of_nat i) (of_nat y) day = day + of_nat (sum_list (map days_in_year [i..<y]))"
proof (induction "y - i" arbitrary: i day)
  case 0
  then show ?case by (subst year_loop.simps) simp
next
  case (Suc n)
  then have "(of_nat i :: u32) < of_nat y" by (simp add: word_less_nat_alt)
  moreover have "year_loop (of_nat (Suc i)) (of_nat y) (day + of_nat (days_in_year i)) =
      day + of_nat (days_in_year i) + of_nat (sum_list (map days_in_year [Suc i..<y]))"
    using Suc by (intro Suc.hyps(1)) auto
  moreover have "[i..<y] = i # [Suc i..<y]" using Suc by (simp add: upt_conv_Cons)
  moreover have "i < 2100" using Suc by simp
  ultimately show ?case
    by (subst year_loop.simps) (simp only: if_True year_step [OF Suc.prems(1)] of_nat_Suc add.commute [of 1] list.map sum_list.Cons of_nat_add add.assoc)
qed

text \<open>How many days the table is off: from October on its values are those of the next month, and December's is zero.\<close>

definition months_error :: "nat \<Rightarrow> int" where
  "months_error m = (if m = 10 then 31 else if m = 11 then 30 else if m = 12 then - 334 else 0)"

lemma months_sum:
  assumes "1 \<le> m" "m \<le> 12"
  shows "int (unat (months ! (m - 1))) = int (sum_list (take (m - 1) month_days)) + months_error m" "unat (months ! (m - 1)) \<le> 334"
proof -
  from assms have "m \<in> {1, 2, 3, 4, 5, 6, 7, 8, 9, 10, 11, 12}" unfolding insert_iff empty_iff by presburger
  then show "int (unat (months ! (m - 1))) = int (sum_list (take (m - 1) month_days)) + months_error m"
      "unat (months ! (m - 1)) \<le> 334"
    by (auto simp: months_def month_days_def months_error_def)
qed

lemma days_bound:
  assumes "y < 2070"
  shows "sum_list (map days_in_year [1970..<y]) \<le> 366 * 100"
proof -
  have "sum_list (map days_in_year [1970..<y]) \<le> sum_list (map (\<lambda>_. 366) [1970..<y])"
    by (rule sum_list_mono) (simp add: days_in_year_def)
  also have "\<dots> \<le> 366 * 100" using assms by (simp add: sum_list_triv)
  finally show ?thesis .
qed

lemma less_70: "k < 100 \<Longrightarrow> (of_nat k :: u32) < 70 \<longleftrightarrow> k < 70"
  by (simp add: word_less_nat_alt)

section \<open>Properties\<close>

text \<open>
  C36. The clock is wrong by whole days.  For every date from 1970 to 2069 the time is the seconds since the start of
  1970 and two days more, one in leap years after February; in October and November another 31 and 30 days are
  added, and December is 334 days short.  The six values are those of the registers the driver selects for them:
  seconds 0, minutes 2, hours 4, day 7, month 8 and year 9.
\<close>

theorem time_error:
  assumes "1970 \<le> y" "y < 2070" "1 \<le> m" "m \<le> 12" "1 \<le> d" "d \<le> 31" "h < 24" "mi < 60" "sec < 60"
    and "io_in s 0 = bcd sec" "io_in s 1 = bcd mi" "io_in s 2 = bcd h" "io_in s 3 = bcd d" "io_in s 4 = bcd m"
    and "io_in s 5 = bcd (y mod 100)"
  shows "int (unat (fst (time s))) =
      int (epoch_secs y m d h mi sec) + ((if leap y \<and> 2 < m then 1 else 2) + months_error m) * 86400 \<and>
    io_log (snd (time s)) = io_log s @
      [Outb 0x70 0, Inb 0x71 (ucast (bcd sec)), Outb 0x70 2, Inb 0x71 (ucast (bcd mi)), Outb 0x70 4, Inb 0x71 (ucast (bcd h)),
       Outb 0x70 7, Inb 0x71 (ucast (bcd d)), Outb 0x70 8, Inb 0x71 (ucast (bcd m)), Outb 0x70 9, Inb 0x71 (ucast (bcd (y mod 100)))]"
proof -
  define D where "D = sum_list (map days_in_year [1970..<y]) + unat (months ! (m - 1)) + d + 1"
  have yw: "(if (of_nat (y mod 100) :: u32) < 70 then of_nat (y mod 100) + 100 else of_nat (y mod 100)) + 1900 = (of_nat y :: u32)"
  proof (cases "y < 2000")
    case True
    note lt = less_70 [of "y mod 100"]
    from True have "y mod 100 = y - 1900" using assms(1) by (simp add: mod_if)
    moreover from this have "\<not> (of_nat (y mod 100) :: u32) < 70" using True assms(1) lt by simp
    ultimately show ?thesis using assms(1) by (simp add: of_nat_diff)
  next
    case False
    note lt = less_70 [of "y mod 100"]
    from False have "y mod 100 = y - 2000" using assms(2) by (simp add: mod_if)
    moreover from this have "(of_nat (y mod 100) :: u32) < 70" using False assms(2) lt by simp
    ultimately show ?thesis using False by (simp add: of_nat_diff)
  qed
  have m1: "unat ((of_nat m :: u32) - 1) = m - 1" using assms(3,4) by (simp add: unat_sub_if' word_le_nat_alt)
  define s1 where "s1 = snd (rtc_read RTC_SEC s)"
  define s2 where "s2 = snd (rtc_read RTC_MIN s1)"
  define s3 where "s3 = snd (rtc_read RTC_HOUR s2)"
  define s4 where "s4 = snd (rtc_read RTC_DAY s3)"
  define s5 where "s5 = snd (rtc_read RTC_MON s4)"
  define s6 where "s6 = snd (rtc_read RTC_YEAR s5)"
  note st = s1_def s2_def s3_def s4_def s5_def s6_def
  have i: "io_in s1 = (\<lambda>k. io_in s (Suc k))" "io_in s2 = (\<lambda>k. io_in s1 (Suc k))" "io_in s3 = (\<lambda>k. io_in s2 (Suc k))"
    "io_in s4 = (\<lambda>k. io_in s3 (Suc k))" "io_in s5 = (\<lambda>k. io_in s4 (Suc k))"
    unfolding st by (rule rtc_read_io_in)+
  have n: "io_in s 2 = io_in s (Suc (Suc 0))" "io_in s 3 = io_in s (Suc (Suc (Suc 0)))" "io_in s 4 = io_in s (Suc (Suc (Suc (Suc 0))))"
      "io_in s 5 = io_in s (Suc (Suc (Suc (Suc (Suc 0)))))"
    by (simp_all add: eval_nat_numeral)
  have c: "io_in s 0 = bcd sec" "io_in s1 0 = bcd mi" "io_in s2 0 = bcd h" "io_in s3 0 = bcd d" "io_in s4 0 = bcd m"
      "io_in s5 0 = bcd (y mod 100)"
    unfolding i using assms(10-15) by (simp_all only: n One_nat_def)
  have r: "rtc_read RTC_SEC s = (of_nat sec, s1)" "rtc_read RTC_MIN s1 = (of_nat mi, s2)" "rtc_read RTC_HOUR s2 = (of_nat h, s3)"
    "rtc_read RTC_DAY s3 = (of_nat d, s4)" "rtc_read RTC_MON s4 = (of_nat m, s5)" "rtc_read RTC_YEAR s5 = (of_nat (y mod 100), s6)"
    using rtc_read_pair [OF c(1), of RTC_SEC] rtc_read_pair [OF c(2), of RTC_MIN] rtc_read_pair [OF c(3), of RTC_HOUR]
      rtc_read_pair [OF c(4), of RTC_DAY] rtc_read_pair [OF c(5), of RTC_MON] rtc_read_pair [OF c(6), of RTC_YEAR] assms(4,6-9)
    by (simp_all flip: st)
  have md: "(if unat ((of_nat m :: u32) - 1) < 12 then months ! unat ((of_nat m :: u32) - 1) else indet s6) =
      of_nat (unat (months ! (m - 1)))"
  proof -
    have "m - 1 < 12" using assms(4) by simp
    then show ?thesis unfolding m1 by simp
  qed
  have yl: "year_loop 1970 (of_nat y) (of_nat d) = of_nat d + of_nat (sum_list (map days_in_year [1970..<y]))"
    using year_loop_sum [of 1970 y "of_nat d"] assms(1,2) by simp
  have t: "fst (time s) = ((of_nat D * 24 + of_nat h) * 60 + of_nat mi) * 60 + of_nat sec"
    unfolding time_def Let_def r prod.case yw md yl fst_conv D_def by (simp only: of_nat_add of_nat_1 add_ac)
  have "fst (time s) = of_nat (((D * 24 + h) * 60 + mi) * 60 + sec)" unfolding t by simp
  moreover have "((D * 24 + h) * 60 + mi) * 60 + sec < 2 ^ 32"
    using days_bound [OF assms(2)] months_sum(2) [OF assms(3,4)] assms by (simp add: D_def)
  ultimately have "unat (fst (time s)) = ((D * 24 + h) * 60 + mi) * 60 + sec" by (simp only: unat_of_nat32)
  moreover have "int D = int (epoch_days y m d) + ((if leap y \<and> 2 < m then 1 else 2) + months_error m)"
    using assms(5) months_sum(1) [OF assms(3,4)] by (simp add: D_def epoch_days_def of_nat_diff)
  ultimately have v: "int (unat (fst (time s))) =
      int (epoch_secs y m d h mi sec) + ((if leap y \<and> 2 < m then 1 else 2) + months_error m) * 86400"
    by (simp add: epoch_secs_def algebra_simps)
  have l: "io_log s1 = io_log s @ [Outb 0x70 0, Inb 0x71 (ucast (bcd sec))]" "io_log s2 = io_log s1 @ [Outb 0x70 2, Inb 0x71 (ucast (bcd mi))]"
      "io_log s3 = io_log s2 @ [Outb 0x70 4, Inb 0x71 (ucast (bcd h))]" "io_log s4 = io_log s3 @ [Outb 0x70 7, Inb 0x71 (ucast (bcd d))]"
      "io_log s5 = io_log s4 @ [Outb 0x70 8, Inb 0x71 (ucast (bcd m))]" "io_log s6 = io_log s5 @ [Outb 0x70 9, Inb 0x71 (ucast (bcd (y mod 100)))]"
    using rtc_read_log [of RTC_SEC s] rtc_read_log [of RTC_MIN s1] rtc_read_log [of RTC_HOUR s2] rtc_read_log [of RTC_DAY s3]
      rtc_read_log [of RTC_MON s4] rtc_read_log [of RTC_YEAR s5]
    by (simp_all add: c RTC_SEC_def RTC_MIN_def RTC_HOUR_def RTC_DAY_def RTC_MON_def RTC_YEAR_def
      flip: s1_def [unfolded RTC_SEC_def] s2_def [unfolded RTC_MIN_def] s3_def [unfolded RTC_HOUR_def] s4_def [unfolded RTC_DAY_def]
        s5_def [unfolded RTC_MON_def] s6_def [unfolded RTC_YEAR_def])
  have "snd (time s) = s6" unfolding time_def Let_def r prod.case snd_conv by (rule refl)
  then show ?thesis using v l by simp
qed

definition rtc0 :: io_state where
  "rtc0 = \<lparr>mem = (\<lambda>_. 0), indet = 7, MM_CURRENT_PD = 0xC0110000, MM_CURRENT_PT = 0xC0114000,
     MM_HEAP = 0xC0118000, KERNEL_PAGE_DIRECTORY = 0xC0108000, CURRENT_PAGE_DIRECTORY = 0xC0108000,
     cr3 = 0x108000, invlpg = [], BLOCKCHAIN_START = 0xC010A000, BLOCKS_ALLOCATED = 0, blockchain = 0,
     K_HEAP_TOP = 0xC0310000, K_LAST_ALLOC = 0xC0300000, memlock = 0, io_log = [],
     io_in = (\<lambda>k. [0x00, 0x30, 0x12, 0x01, 0x10, 0x72] ! k)\<rparr>"

theorem time_error_witness: "int (unat (fst (time rtc0))) = int (epoch_secs 1972 10 1 12 30 0) + 32 * 86400"
proof -
  have l: "leap 1972" by (simp add: leap_def)
  have b: "bcd 0 = 0" "bcd 30 = 0x30" "bcd 12 = 0x12" "bcd 1 = 1" "bcd 10 = 0x10" "bcd 72 = 0x72" by (simp_all add: bcd_def)
  show ?thesis
    using time_error [of 1972 10 1 12 30 0 rtc0] l b by (simp add: rtc0_def months_error_def)
qed

end
