(* ===== verification/Ext2.thy ===== *)
theory Ext2
  imports Ide Rtc
begin

text \<open>
  The file system, \<^verbatim>\<open>fs/ext2.c\<close>, \<^verbatim>\<open>fs/ext2_debug.c\<close> and \<^verbatim>\<open>pathize\<close> of \<^verbatim>\<open>kernel.c\<close>, on top of the block cache.
  The structures of \<^verbatim>\<open>ext2.h\<close> are read and written in memory at the offsets the compiler gives their
  members; they lie in cache buffers, so a pointer to one is an address inside \<^verbatim>\<open>b->data\<close>.
\<close>

section \<open>On-disk structures\<close>

definition EXT2_SUPER :: u32 where "EXT2_SUPER = 1"
definition EXT2_MAGIC :: u16 where "EXT2_MAGIC = 0xEF53"
definition INODE_SIZE :: u32 where "INODE_SIZE = 128"
definition sizeof_superblock :: u32 where "sizeof_superblock = 84"
definition sizeof_bgd :: u32 where "sizeof_bgd = 32"
definition sizeof_dirent :: u32 where "sizeof_dirent = 263"

text \<open>Members used by name; the rest of the superblock and the inode is only copied or printed.\<close>

definition sb_magic :: "mem \<Rightarrow> u32 \<Rightarrow> u16" where "sb_magic m sb = load16 m (sb + 56)"
definition sb_log_block_size :: "mem \<Rightarrow> u32 \<Rightarrow> u32" where "sb_log_block_size m sb = load32 m (sb + 24)"
definition sb_inodes_per_group :: "mem \<Rightarrow> u32 \<Rightarrow> u32" where "sb_inodes_per_group m sb = load32 m (sb + 40)"

definition bg_block_bitmap :: "mem \<Rightarrow> u32 \<Rightarrow> u32" where "bg_block_bitmap m bg = load32 m bg"
definition bg_inode_bitmap :: "mem \<Rightarrow> u32 \<Rightarrow> u32" where "bg_inode_bitmap m bg = load32 m (bg + 4)"
definition bg_inode_table :: "mem \<Rightarrow> u32 \<Rightarrow> u32" where "bg_inode_table m bg = load32 m (bg + 8)"
definition bg_free_blocks_count :: "mem \<Rightarrow> u32 \<Rightarrow> u16" where "bg_free_blocks_count m bg = load16 m (bg + 12)"
definition bg_free_inodes_count :: "mem \<Rightarrow> u32 \<Rightarrow> u16" where "bg_free_inodes_count m bg = load16 m (bg + 14)"
definition bg_used_dirs_count :: "mem \<Rightarrow> u32 \<Rightarrow> u16" where "bg_used_dirs_count m bg = load16 m (bg + 16)"

definition i_blocks :: "mem \<Rightarrow> u32 \<Rightarrow> u32" where "i_blocks m ino = load32 m (ino + 28)"
definition i_block_at :: "u32 \<Rightarrow> u32 \<Rightarrow> u32" where "i_block_at ino k = ino + 40 + 4 * k"
definition i_block :: "mem \<Rightarrow> u32 \<Rightarrow> u32 \<Rightarrow> u32" where "i_block m ino k = load32 m (i_block_at ino k)"

definition d_inode :: "mem \<Rightarrow> u32 \<Rightarrow> u32" where "d_inode m d = load32 m d"
definition d_rec_len :: "mem \<Rightarrow> u32 \<Rightarrow> u16" where "d_rec_len m d = load16 m (d + 4)"
definition d_name_len :: "mem \<Rightarrow> u32 \<Rightarrow> u8" where "d_name_len m d = m (d + 6)"
definition d_file_type :: "mem \<Rightarrow> u32 \<Rightarrow> u8" where "d_file_type m d = m (d + 7)"
definition d_name :: "u32 \<Rightarrow> u32" where "d_name d = d + 8"

definition set_half :: "u32 \<Rightarrow> u16 \<Rightarrow> 'a machine_scheme \<Rightarrow> 'a machine_scheme" where
  "set_half a v s = s\<lparr>mem := store16 (mem s) a v\<rparr>"

definition mem_copy :: "u32 \<Rightarrow> u32 \<Rightarrow> u32 \<Rightarrow> 'a machine_scheme \<Rightarrow> 'a machine_scheme" where
  "mem_copy dst src n s = s\<lparr>mem := fst (memcpy (mem s) dst src n)\<rparr>"

definition mem_fill :: "u32 \<Rightarrow> c_int \<Rightarrow> u32 \<Rightarrow> 'a machine_scheme \<Rightarrow> 'a machine_scheme" where
  "mem_fill dst c n s = s\<lparr>mem := fst (memset (mem s) dst c n)\<rparr>"

definition ext2_line :: "u32 \<Rightarrow> string \<Rightarrow> parg list" where
  "ext2_line = at_line ''fs/ext2.c''"

definition tab :: string where "tab = [CHR 0x09]"

section \<open>Superblock and group descriptors\<close>

text \<open>\<^verbatim>\<open>assert(1024 << s->log_block_size == BLOCK_SIZE)\<close>; the processor takes the shift count modulo 32.\<close>

definition block_size_ok :: "mem \<Rightarrow> u32 \<Rightarrow> bool" where
  "block_size_ok m sb \<longleftrightarrow> push_bit (unat (sb_log_block_size m sb) mod 32) 1024 = BLOCK_SIZE"

definition ext2_superblock :: "'a ide_state_scheme printer \<Rightarrow> u32 \<Rightarrow> 'a ide_state_scheme \<Rightarrow> (u32 \<times> 'a ide_state_scheme) option" where
  "ext2_superblock pf dev s = do {
     s \<leftarrow> assert pf (ext2_line 38 ''ext2_superblock'') ''dev'' (dev \<noteq> 0) s;
     if dev = 0 then Some (0, s)
     else do {
       (b, s) \<leftarrow> buffer_read pf dev EXT2_SUPER s;
       let sb = b_data b in do {
         s \<leftarrow> assert pf (ext2_line 47 ''ext2_superblock'') ''sb->magic == EXT2_MAGIC'' (sb_magic (mem s) sb = EXT2_MAGIC) s;
         if sb_magic (mem s) sb \<noteq> EXT2_MAGIC then Some (0, s)
         else do {
           s \<leftarrow> assert pf (ext2_line 50 ''ext2_superblock'') ''1024 << sb->log_block_size == BLOCK_SIZE'' (block_size_ok (mem s) sb) s;
           Some (sb, s) } } } }"

definition ext2_superblock_rw ::
  "'a ide_state_scheme printer \<Rightarrow> u32 \<Rightarrow> u32 \<Rightarrow> 'a ide_state_scheme \<Rightarrow> (u32 \<times> 'a ide_state_scheme) option" where
  "ext2_superblock_rw pf dev sb s = do {
     s \<leftarrow> assert pf (ext2_line 57 ''ext2_superblock_rw'') ''dev'' (dev \<noteq> 0) s;
     if dev = 0 then Some (0, s)
     else do {
       (b, s) \<leftarrow> buffer_read pf dev EXT2_SUPER s;
       (sb, s) \<leftarrow> (if sb_magic (mem s) sb \<noteq> EXT2_MAGIC then Some (b_data b, s)
         else do {
           s \<leftarrow> buffer_write pf b (mem_copy (b_data b) sb sizeof_superblock s);
           Some (sb, s) });
       s \<leftarrow> assert pf (ext2_line 69 ''ext2_superblock_rw'') ''s->magic == EXT2_MAGIC'' (sb_magic (mem s) sb = EXT2_MAGIC) s;
       if sb_magic (mem s) sb \<noteq> EXT2_MAGIC then Some (0, s)
       else do {
         s \<leftarrow> assert pf (ext2_line 72 ''ext2_superblock_rw'') ''1024 << s->log_block_size == BLOCK_SIZE'' (block_size_ok (mem s) sb) s;
         Some (sb, s) } } }"

definition ext2_blockdesc :: "'a ide_state_scheme printer \<Rightarrow> u32 \<Rightarrow> 'a ide_state_scheme \<Rightarrow> (u32 \<times> 'a ide_state_scheme) option" where
  "ext2_blockdesc pf dev s = do {
     s \<leftarrow> assert pf (ext2_line 79 ''ext2_blockdesc'') ''dev'' (dev \<noteq> 0) s;
     if dev = 0 then Some (0, s)
     else do {
       (b, s) \<leftarrow> buffer_read pf dev (EXT2_SUPER + 1) s;
       Some (b_data b, s) } }"

definition ext2_blockdesc_rw ::
  "'a ide_state_scheme printer \<Rightarrow> u32 \<Rightarrow> u32 \<Rightarrow> 'a ide_state_scheme \<Rightarrow> (u32 \<times> 'a ide_state_scheme) option" where
  "ext2_blockdesc_rw pf dev bg s = do {
     s \<leftarrow> assert pf (ext2_line 90 ''ext2_blockdesc_rw'') ''dev'' (dev \<noteq> 0) s;
     if dev = 0 then Some (0, s)
     else do {
       (b, s) \<leftarrow> buffer_read pf dev (EXT2_SUPER + 1) s;
       if bg = 0 then Some (b_data b, s)
       else do {
         s \<leftarrow> buffer_write pf b (mem_copy (b_data b) bg sizeof_bgd s);
         Some (bg, s) } } }"

section \<open>Inodes\<close>

text \<open>Where an inode lies: the group, the block of the inode table and the offset in it.\<close>

definition inode_group :: "u32 \<Rightarrow> u32 \<Rightarrow> u32" where "inode_group i per_group = (i - 1) div per_group"
definition inode_index :: "u32 \<Rightarrow> u32 \<Rightarrow> u32" where "inode_index i per_group = (i - 1) mod per_group"
definition inode_block :: "u32 \<Rightarrow> u32" where "inode_block index = index * INODE_SIZE div BLOCK_SIZE"
definition inode_offset :: "u32 \<Rightarrow> u32" where "inode_offset index = (index mod (BLOCK_SIZE div INODE_SIZE)) * INODE_SIZE"

text \<open>A superblock without inodes per group makes the division trap.\<close>

definition ext2_inode :: "'a ide_state_scheme printer \<Rightarrow> u32 \<Rightarrow> u32 \<Rightarrow> 'a ide_state_scheme \<Rightarrow> (u32 \<times> 'a ide_state_scheme) option" where
  "ext2_inode pf dev i s = do {
     (sb, s) \<leftarrow> ext2_superblock pf dev s;
     (bgd, s) \<leftarrow> ext2_blockdesc pf dev s;
     s \<leftarrow> assert pf (ext2_line 107 ''ext2_inode'') ''s->magic == EXT2_MAGIC'' (sb_magic (mem s) sb = EXT2_MAGIC) s;
     s \<leftarrow> assert pf (ext2_line 108 ''ext2_inode'') ''bgd'' (bgd \<noteq> 0) s;
     let per_group = sb_inodes_per_group (mem s) sb in
     if per_group = 0 then None
     else
       let index = inode_index i per_group;
           bgd = bgd + inode_group i per_group * sizeof_bgd
       in do {
         (b, s) \<leftarrow> buffer_read pf dev (bg_inode_table (mem s) bgd + inode_block index) s;
         Some (b_data b + inode_offset index, s) } }"

definition ext2_read_indirect ::
  "'a ide_state_scheme printer \<Rightarrow> u32 \<Rightarrow> u32 \<Rightarrow> 'a ide_state_scheme \<Rightarrow> (u32 \<times> 'a ide_state_scheme) option" where
  "ext2_read_indirect pf indirect block_num s = do {
     (b, s) \<leftarrow> buffer_read pf 1 indirect s;
     Some (load32 (mem s) (b_data b + block_num * 4), s) }"

definition ext2_write_indirect ::
  "'a ide_state_scheme printer \<Rightarrow> u32 \<Rightarrow> u32 \<Rightarrow> u32 \<Rightarrow> 'a ide_state_scheme \<Rightarrow> 'a ide_state_scheme option" where
  "ext2_write_indirect pf indirect link block_num s = do {
     (b, s) \<leftarrow> buffer_read pf 1 indirect s;
     buffer_write pf b (set_word (b_data b + block_num * 4) link s) }"

text \<open>The block loop of \<^verbatim>\<open>ext2_open\<close>; \<open>k\<close> counts the blocks left.\<close>

fun open_blocks ::
  "'a ide_state_scheme printer \<Rightarrow> u32 \<Rightarrow> u32 \<Rightarrow> u32 \<Rightarrow> nat \<Rightarrow> u32 \<Rightarrow> u32 \<Rightarrow> 'a ide_state_scheme \<Rightarrow> 'a ide_state_scheme option" where
  "open_blocks pf ino buf i 0 indirect blocknum s = Some s"
| "open_blocks pf ino buf i (Suc k) indirect blocknum s = do {
     (indirect, blocknum, s) \<leftarrow>
       (if i < 12 then Some (indirect, i_block (mem s) ino i, s)
        else if i = 12 then Some (i_block (mem s) ino i, blocknum, s)
        else do { (n, s) \<leftarrow> ext2_read_indirect pf indirect (i - 12) s; Some (indirect, n, s) });
     if blocknum = 0 then Some s
     else do {
       (b, s) \<leftarrow> buffer_read pf 1 blocknum s;
       open_blocks pf ino buf (i + 1) k indirect blocknum (mem_copy (buf + i * BLOCK_SIZE) (b_data b) BLOCK_SIZE s) } }"

definition ext2_open :: "'a ide_state_scheme printer \<Rightarrow> u32 \<Rightarrow> 'a ide_state_scheme \<Rightarrow> (u32 \<times> 'a ide_state_scheme) option" where
  "ext2_open pf ino s = do {
     s \<leftarrow> assert pf (ext2_line 125 ''ext2_open'') ''in'' (ino \<noteq> 0) s;
     if ino = 0 then Some (0, s)
     else let num_blocks = i_blocks (mem s) ino div (BLOCK_SIZE div SECTOR_SIZE) in do {
       s \<leftarrow> assert pf (ext2_line 131 ''ext2_open'') ''num_blocks != 0'' (num_blocks \<noteq> 0) s;
       if num_blocks = 0 then Some (0, s)
       else do {
         (buf, s) \<leftarrow> malloc (BLOCK_SIZE * num_blocks) s;
         s \<leftarrow> assert pf (ext2_line 138 ''ext2_open'') ''buf != NULL'' (buf \<noteq> 0) s;
         s \<leftarrow> open_blocks pf ino buf 0 (unat num_blocks) 0 0 s;
         Some (buf, s) } } }"

definition ext2_open_alt :: "'a ide_state_scheme printer \<Rightarrow> u32 \<Rightarrow> u32 \<Rightarrow> 'a ide_state_scheme \<Rightarrow> 'a ide_state_scheme option" where
  "ext2_open_alt pf ino buf s = do {
     s \<leftarrow> assert pf (ext2_line 162 ''ext2_open_alt'') ''in'' (ino \<noteq> 0) s;
     if ino = 0 then Some s
     else let num_blocks = i_blocks (mem s) ino div (BLOCK_SIZE div SECTOR_SIZE) in do {
       s \<leftarrow> assert pf (ext2_line 168 ''ext2_open_alt'') ''num_blocks != 0'' (num_blocks \<noteq> 0) s;
       if num_blocks = 0 then Some s
       else do {
         s \<leftarrow> assert pf (ext2_line 174 ''ext2_open_alt'') ''buf != NULL'' (buf \<noteq> 0) s;
         open_blocks pf ino buf 0 (unat num_blocks) 0 0 s } } }"

fun seek_blocks ::
  "'a ide_state_scheme printer \<Rightarrow> u32 \<Rightarrow> u32 \<Rightarrow> u32 \<Rightarrow> u32 \<Rightarrow> u32 \<Rightarrow> nat \<Rightarrow> 'a ide_state_scheme \<Rightarrow> 'a ide_state_scheme option" where
  "seek_blocks pf ino buf off_block ofs i 0 s = Some s"
| "seek_blocks pf ino buf off_block ofs i (Suc k) s = do {
     (b, s) \<leftarrow> buffer_read pf 1 (i_block (mem s) ino (off_block + i)) s;
     let s = mem_copy (buf + i * BLOCK_SIZE) (b_data b + ofs) BLOCK_SIZE s in do {
       s \<leftarrow> pf (''Read @ block %d (%d)'' @ newline) [PW (i_block (mem s) ino (off_block + i)), PW off_block] s;
       seek_blocks pf ino buf off_block 0 (i + 1) k s } }"

definition ext2_file_seek ::
  "'a ide_state_scheme printer \<Rightarrow> u32 \<Rightarrow> u32 \<Rightarrow> u32 \<Rightarrow> 'a ide_state_scheme \<Rightarrow> (u32 \<times> 'a ide_state_scheme) option" where
  "ext2_file_seek pf ino n offset s =
    (let nblocks = ((n - 1 + BLOCK_SIZE) AND NOT (BLOCK_SIZE - 1)) div BLOCK_SIZE;
         off_block = offset div BLOCK_SIZE;
         ofs = offset mod BLOCK_SIZE
     in do {
       (buf, s) \<leftarrow> malloc (nblocks * BLOCK_SIZE) s;
       s \<leftarrow> assert pf (ext2_line 204 ''ext2_file_seek'') ''nblocks <= in->blocks/2'' (nblocks \<le> i_blocks (mem s) ino div 2) s;
       s \<leftarrow> assert pf (ext2_line 205 ''ext2_file_seek'') ''off_block <= in->blocks/2'' (off_block \<le> i_blocks (mem s) ino div 2) s;
       s \<leftarrow> seek_blocks pf ino buf off_block ofs 0 (unat nblocks) s;
       Some (buf, s) })"

section \<open>Directories\<close>

partial_function (option) ls :: "'a ide_state_scheme printer \<Rightarrow> u32 \<Rightarrow> 'a ide_state_scheme \<Rightarrow> 'a ide_state_scheme option" where
  "ls pf d s = do {
     s \<leftarrow> pf (tab @ ''%s'' @ tab @ ''type %d'' @ newline) [PW (d_name d), PW (ucast (d_file_type (mem s) d))] s;
     let d = d + ucast (d_rec_len (mem s) d) in
     if d_inode (mem s) d \<noteq> 0 then ls pf d s else Some s }"

text \<open>The blocks of a directory, copied one after the other; the number of blocks is read again each time.\<close>

partial_function (option) dir_blocks ::
  "'a ide_state_scheme printer \<Rightarrow> u32 \<Rightarrow> u32 \<Rightarrow> u32 \<Rightarrow> 'a ide_state_scheme \<Rightarrow> 'a ide_state_scheme option" where
  "dir_blocks pf ino buf q s =
    (if q < i_blocks (mem s) ino div 2
     then do {
       (b, s) \<leftarrow> buffer_read pf 1 (i_block (mem s) ino q) s;
       dir_blocks pf ino buf (q + 1) (mem_copy (buf + q * BLOCK_SIZE) (b_data b) BLOCK_SIZE s) }
     else Some s)"

definition read_dir ::
  "'a ide_state_scheme printer \<Rightarrow> u32 \<Rightarrow> 'a ide_state_scheme \<Rightarrow> (u32 \<times> 'a ide_state_scheme) option" where
  "read_dir pf ino s = do {
     (buf, s) \<leftarrow> malloc (BLOCK_SIZE * i_blocks (mem s) ino div 2) s;
     s \<leftarrow> dir_blocks pf ino buf 0 (mem_fill buf 0 (BLOCK_SIZE * i_blocks (mem s) ino div 2) s);
     Some (buf, s) }"

partial_function (option) lsroot_loop ::
  "'a ide_state_scheme printer \<Rightarrow> u32 \<Rightarrow> u32 \<Rightarrow> u32 \<Rightarrow> 'a ide_state_scheme \<Rightarrow> 'a ide_state_scheme option" where
  "lsroot_loop pf ino d lensum s =
    (let lensum = lensum + ucast (d_rec_len (mem s) d) in do {
       s \<leftarrow> pf (''%2d  %10s'' @ tab @ ''%2d %3d'' @ newline)
         [PW (d_inode (mem s) d), PW (d_name d), PW (ucast (d_name_len (mem s) d)), PW (ucast (d_rec_len (mem s) d))] s;
       let d = d + ucast (d_rec_len (mem s) d) in
       if lensum < 1024 * i_blocks (mem s) ino div 2 then lsroot_loop pf ino d lensum s else Some s })"

definition lsroot :: "'a ide_state_scheme printer \<Rightarrow> 'a ide_state_scheme \<Rightarrow> 'a ide_state_scheme option" where
  "lsroot pf s = do {
     (ino, s) \<leftarrow> ext2_inode pf 1 2 s;
     (buf, s) \<leftarrow> read_dir pf ino s;
     s \<leftarrow> lsroot_loop pf ino buf 0 s;
     (_, s) \<leftarrow> free buf s;
     Some s }"

text \<open>The entry whose name agrees with \<open>name\<close> on its own length; memory does not change on the way.\<close>

partial_function (option) find_entry :: "mem \<Rightarrow> u32 \<Rightarrow> u32 \<Rightarrow> u32 \<Rightarrow> u32 \<Rightarrow> u32 option option" where
  "find_entry m name ino d lensum =
    (let lensum = lensum + ucast (d_rec_len m d) in
     if strncmp m (d_name d) name (ucast (d_name_len m d)) = 0 then Some (Some d)
     else let d = d + ucast (d_rec_len m d) in
       if lensum < 1024 * i_blocks m ino div 2 then find_entry m name ino d lensum else Some None)"

definition find_inode_in_dir ::
  "'a ide_state_scheme printer \<Rightarrow> u32 \<Rightarrow> u32 \<Rightarrow> 'a ide_state_scheme \<Rightarrow> (c_int \<times> 'a ide_state_scheme) option" where
  "find_inode_in_dir pf name dir_inode s =
    (if dir_inode = 0 then Some (- 1, s)
     else do {
       (ino, s) \<leftarrow> ext2_inode pf 1 dir_inode s;
       (buf, s) \<leftarrow> read_dir pf ino s;
       r \<leftarrow> find_entry (mem s) name ino buf 0;
       (_, s) \<leftarrow> free buf s;
       Some (case r of None \<Rightarrow> - 1 | Some d \<Rightarrow> d_inode (mem s) d, s) })"

section \<open>Allocation\<close>

text \<open>The first clear bit of a word, in the order the inner loop tests them; \<open>k\<close> counts the bits left.\<close>

fun first_free_bit :: "u32 \<Rightarrow> nat \<Rightarrow> nat \<Rightarrow> nat option" where
  "first_free_bit w i 0 = None"
| "first_free_bit w i (Suc k) = (if (w XOR NOT 0) AND push_bit i 1 \<noteq> 0 then Some i else first_free_bit w (Suc i) k)"

fun ext_first_free_loop :: "mem \<Rightarrow> u32 \<Rightarrow> u32 \<Rightarrow> nat \<Rightarrow> u32 option" where
  "ext_first_free_loop m b q 0 = None"
| "ext_first_free_loop m b q (Suc k) =
    (case first_free_bit (load32 m (b + 4 * q)) 0 32 of
       Some i \<Rightarrow> Some (of_nat i + q * 32)
     | None \<Rightarrow> ext_first_free_loop m b (q + 1) k)"

text \<open>When every bit is set the function ends without a value.\<close>

definition ext_first_free :: "u32 \<Rightarrow> c_int \<Rightarrow> 'a machine_scheme \<Rightarrow> c_int" where
  "ext_first_free b sz s = (case ext_first_free_loop (mem s) b 0 (nat (sint sz)) of Some i \<Rightarrow> i | None \<Rightarrow> indet s)"

text \<open>The common part of \<^verbatim>\<open>ext2_alloc_block\<close> and \<^verbatim>\<open>ext2_alloc_inode\<close>, behind the bitmap's buffer.\<close>

definition alloc_bit :: "'a ide_state_scheme printer \<Rightarrow> u32 \<Rightarrow> 'a ide_state_scheme \<Rightarrow> (u32 \<times> 'a ide_state_scheme) option" where
  "alloc_bit pf bitmap_buf s = do {
     (bitmap, s) \<leftarrow> malloc BLOCK_SIZE s;
     let s = mem_copy bitmap (b_data bitmap_buf) BLOCK_SIZE s;
         num = ext_first_free bitmap BLOCK_SIZE s;
         a = bitmap + 4 * (num div 32);
         s = set_word a (load32 (mem s) a OR push_bit (unat (num mod 32)) 1) s;
         s = mem_copy (b_data bitmap_buf) bitmap BLOCK_SIZE s
     in do {
       s \<leftarrow> buffer_write pf bitmap_buf s;
       (_, s) \<leftarrow> free bitmap s;
       Some (num + 1, s) } }"

definition ext2_alloc_block :: "'a ide_state_scheme printer \<Rightarrow> 'a ide_state_scheme \<Rightarrow> (u32 \<times> 'a ide_state_scheme) option" where
  "ext2_alloc_block pf s = do {
     (bg, s) \<leftarrow> ext2_blockdesc pf 1 s;
     (b, s) \<leftarrow> buffer_read pf 1 (bg_block_bitmap (mem s) bg) s;
     alloc_bit pf b s }"

definition ext2_alloc_inode :: "'a ide_state_scheme printer \<Rightarrow> 'a ide_state_scheme \<Rightarrow> (u32 \<times> 'a ide_state_scheme) option" where
  "ext2_alloc_inode pf s = do {
     (bg, s) \<leftarrow> ext2_blockdesc pf 1 s;
     (b, s) \<leftarrow> buffer_read pf 1 (bg_inode_bitmap (mem s) bg) s;
     alloc_bit pf b s }"

section \<open>Creating a file\<close>

text \<open>
  \<^verbatim>\<open>ext2_touch\<close> in its sections.  The new inode comes from \<^verbatim>\<open>malloc\<close>: the members that are not set here, the block
  count among them, keep what the memory held.
\<close>

definition touch_inode :: "u32 \<Rightarrow> 'a ide_state_scheme \<Rightarrow> (u32 \<times> 'a ide_state_scheme) option" where
  "touch_inode n s = do {
     (i, s) \<leftarrow> malloc INODE_SIZE s;
     let s = set_half i 0x81C0 s;
         s = set_word (i + 4) n s;
         (t, s) = time s; s = set_word (i + 8) t s;
         (t, s) = time s; s = set_word (i + 12) t s;
         (t, s) = time s; s = set_word (i + 16) t s;
         s = set_word (i + 20) 0 s;
         s = set_half (i + 26) 1 s
     in Some (i, s) }"

text \<open>The number of the block for the data of iteration \<open>q\<close>, and the indirect block.\<close>

definition touch_block ::
  "'a ide_state_scheme printer \<Rightarrow> u32 \<Rightarrow> u32 \<Rightarrow> u32 \<Rightarrow> 'a ide_state_scheme \<Rightarrow> (u32 \<times> u32 \<times> 'a ide_state_scheme) option" where
  "touch_block pf i q indirect s = do {
     (block_num, s) \<leftarrow> ext2_alloc_block pf s;
     if q <s 12 then Some (block_num, indirect, set_word (i_block_at i q) block_num s)
     else if q = 12 then do {
       let indirect = block_num; s = set_word (i_block_at i q) indirect s in do {
         s \<leftarrow> pf (''Indirect block allocated: %d'' @ newline) [PW indirect] s;
         (block_num, s) \<leftarrow> ext2_alloc_block pf s;
         s \<leftarrow> pf (''Next data block allocated: %d'' @ newline) [PW block_num] s;
         s \<leftarrow> ext2_write_indirect pf indirect block_num 0 s;
         Some (block_num, indirect, s) } }
     else if 12 <s q \<and> q < BLOCK_SIZE div 4 + 12 then do {
       s \<leftarrow> ext2_write_indirect pf indirect block_num (q - 12) s;
       Some (block_num, indirect, s) }
     else Some (block_num, indirect, s) }"

partial_function (option) touch_blocks ::
  "'a ide_state_scheme printer \<Rightarrow> u32 \<Rightarrow> u32 \<Rightarrow> u32 \<Rightarrow> u32 \<Rightarrow> u32 \<Rightarrow> c_int \<Rightarrow> u32 \<Rightarrow> 'a ide_state_scheme \<Rightarrow>
   (u32 \<times> 'a ide_state_scheme) option" where
  "touch_blocks pf sb bg i data q sz indirect s =
    (if sz \<noteq> 0
     then do {
       (block_num, indirect, s) \<leftarrow> touch_block pf i q indirect s;
       let c = (if BLOCK_SIZE \<le>s sz then BLOCK_SIZE else sz);
           s = set_word (i + 28) (i_blocks (mem s) i + 2) s
       in do {
         (b, s) \<leftarrow> buffer_read pf 1 block_num s;
         s \<leftarrow> buffer_write pf b (mem_copy (b_data b) (data + q * BLOCK_SIZE) c (mem_fill (b_data b) 0 BLOCK_SIZE s));
         s \<leftarrow> pf (''[%d]'' @ tab @ ''write from offset %d to block %d, indirect %d'' @ newline)
           [PW q, PW (q * BLOCK_SIZE), PW block_num, PW indirect] s;
         let s = set_word (sb + 12) (load32 (mem s) (sb + 12) - 1) s;
             s = set_half (bg + 12) (bg_free_blocks_count (mem s) bg - 1) s
         in touch_blocks pf sb bg i data (q + 1) (sz - c) indirect s } }
     else Some (indirect, s))"

partial_function (option) touch_report ::
  "'a ide_state_scheme printer \<Rightarrow> u32 \<Rightarrow> u32 \<Rightarrow> u32 \<Rightarrow> 'a ide_state_scheme \<Rightarrow> 'a ide_state_scheme option" where
  "touch_report pf i indirect q s =
    (if q \<le> i_blocks (mem s) i div 2
     then do {
       s \<leftarrow> (if q < 12 then pf (''Direct   Block[%d] = %d'' @ newline) [PW q, PW (i_block (mem s) i q)] s
         else if q = 12 then pf (''Indirect Block is @= %d'' @ newline) [PW (i_block (mem s) i q)] s
         else do {
           (n, s) \<leftarrow> ext2_read_indirect pf indirect (q - 13) s;
           pf (''Indirect Block[%d] = %d'' @ newline) [PW (q - 13), PW n] s });
       touch_report pf i indirect (q + 1) s }
     else Some s)"

text \<open>The aligned size of a directory entry with a name of \<open>n\<close> bytes.\<close>

definition entry_size :: "u32 \<Rightarrow> u32" where
  "entry_size n = (sizeof_dirent + n + 4) AND NOT 0x3"

text \<open>The walk to the last entry, which is cut to its size; the result is null when the block has no room.\<close>

partial_function (option) touch_dirent ::
  "'a ide_state_scheme printer \<Rightarrow> u32 \<Rightarrow> u32 \<Rightarrow> c_int \<Rightarrow> 'a ide_state_scheme \<Rightarrow> (u32 option \<times> 'a ide_state_scheme) option" where
  "touch_dirent pf new_entry_len d lensum s =
    (let calc = entry_size (ucast (d_name_len (mem s) d));
         lensum = lensum + ucast (d_rec_len (mem s) d)
     in if ucast (d_rec_len (mem s) d) \<noteq> calc \<and> lensum = 1024
        then let lensum = lensum - ucast (d_rec_len (mem s) d) in
          if 1024 <s lensum + new_entry_len
          then do { s \<leftarrow> pf ''PANIC! out of room'' [] s; Some (None, s) }
          else let s = set_half (d + 4) (ucast calc) s in Some (Some (d + ucast (d_rec_len (mem s) d)), s)
        else let d = d + ucast (d_rec_len (mem s) d) in
          if lensum <s 1024 then touch_dirent pf new_entry_len d lensum s else Some (Some d, s))"

partial_function (option) touch_name :: "u32 \<Rightarrow> u32 \<Rightarrow> u32 \<Rightarrow> mem \<Rightarrow> mem option" where
  "touch_name name d q m = do {
     len \<leftarrow> strlen m name;
     if q < len then touch_name name d (q + 1) (m(d_name d + q := m (name + q))) else Some m }"

text \<open>The directory part: the new entry takes the rest of the first block of the root directory.\<close>

definition touch_dir ::
  "'a ide_state_scheme printer \<Rightarrow> u32 \<Rightarrow> u32 \<Rightarrow> 'a ide_state_scheme \<Rightarrow> (bool \<times> 'a ide_state_scheme) option" where
  "touch_dir pf name inode_num s = do {
     (rootdir, s) \<leftarrow> ext2_inode pf 1 2 s;
     (rootdir_buf, s) \<leftarrow> buffer_read pf 1 (i_block (mem s) rootdir 0) s;
     len \<leftarrow> strlen (mem s) name;
     (r, s) \<leftarrow> touch_dirent pf (entry_size len) (b_data rootdir_buf) 0 s;
     case r of
       None \<Rightarrow> Some (False, s)
     | Some d \<Rightarrow> do {
         let s = set_half (d + 4) (ucast (BLOCK_SIZE - (d - b_data rootdir_buf))) s;
             s = set_word d inode_num s;
             s = s\<lparr>mem := (mem s)(d + 7 := 1)\<rparr>
         in do {
           len \<leftarrow> strlen (mem s) name;
           m \<leftarrow> touch_name name d 0 ((mem s)(d + 6 := ucast len));
           s \<leftarrow> buffer_write pf rootdir_buf (s\<lparr>mem := m\<rparr>);
           Some (True, s) } } }"

definition ext2_touch ::
  "'a ide_state_scheme printer \<Rightarrow> u32 \<Rightarrow> u32 \<Rightarrow> u32 \<Rightarrow> 'a ide_state_scheme \<Rightarrow> (c_int \<times> 'a ide_state_scheme) option" where
  "ext2_touch pf name data n s = do {
     (sb, s) \<leftarrow> ext2_superblock pf 1 s;
     (bg, s) \<leftarrow> ext2_blockdesc pf 1 s;
     (inode_num, s) \<leftarrow> ext2_alloc_inode pf s;
     (i, s) \<leftarrow> touch_inode n s;
     (indirect, s) \<leftarrow> touch_blocks pf sb bg i data 0 n 0 s;
     s \<leftarrow> ext2_write_indirect pf indirect 0 (i_blocks (mem s) i div 2) s;
     let s = set_word (i + 28) (i_blocks (mem s) i + 2) s in do {
       s \<leftarrow> pf (''%d'' @ newline) [PW (i_blocks (mem s) i)] s;
       s \<leftarrow> touch_report pf i indirect 0 s;
       let per_group = sb_inodes_per_group (mem s) sb in
       if per_group = 0 then None
       else
         let index = inode_index inode_num per_group;
             bg = bg + inode_group inode_num per_group * sizeof_bgd
         in do {
           (ib, s) \<leftarrow> buffer_read pf 1 (bg_inode_table (mem s) bg + inode_block index) s;
           s \<leftarrow> buffer_write pf ib (mem_copy (b_data ib + inode_offset index) i INODE_SIZE s);
           (ok, s) \<leftarrow> touch_dir pf name inode_num s;
           if \<not> ok then Some (0, s)
           else
             let s = set_word (sb + 16) (load32 (mem s) (sb + 16) - 1) s;
                 (t, s) = time s;
                 s = set_word (sb + 48) t s
             in do {
               (_, s) \<leftarrow> ext2_superblock_rw pf 1 sb s;
               let s = set_half (bg + 14) (bg_free_inodes_count (mem s) bg - 1) s in do {
                 (_, s) \<leftarrow> ext2_blockdesc_rw pf 1 bg s;
                 Some (inode_num, s) } } } } }"

section \<open>Dumps\<close>

fun print_all :: "'s printer \<Rightarrow> (string \<times> ('s \<Rightarrow> u32)) list \<Rightarrow> 's \<Rightarrow> 's option" where
  "print_all pf [] s = Some s"
| "print_all pf ((fmt, f) # ps) s = do { s \<leftarrow> pf fmt [PW (f s)] s; print_all pf ps s }"

definition bg_dump :: "'a ide_state_scheme printer \<Rightarrow> u32 \<Rightarrow> 'a ide_state_scheme \<Rightarrow> (u32 \<times> 'a ide_state_scheme) option" where
  "bg_dump pf bg s = do {
     s \<leftarrow> print_all pf
       [(''Block bitmap %d'' @ newline, \<lambda>s. bg_block_bitmap (mem s) bg),
        (''Inode bitmap %d'' @ newline, \<lambda>s. bg_inode_bitmap (mem s) bg),
        (''Inode table  %d'' @ newline, \<lambda>s. bg_inode_table (mem s) bg),
        (''Free blocks  %d'' @ newline, \<lambda>s. ucast (bg_free_blocks_count (mem s) bg)),
        (''Free inodes  %d'' @ newline, \<lambda>s. ucast (bg_free_inodes_count (mem s) bg)),
        (''Used dirs    %d'' @ newline, \<lambda>s. ucast (bg_used_dirs_count (mem s) bg))] s;
     (bbm, s) \<leftarrow> buffer_read pf 1 (bg_block_bitmap (mem s) bg) s;
     (ibm, s) \<leftarrow> buffer_read pf 1 (bg_inode_bitmap (mem s) bg) s;
     s \<leftarrow> print_all pf
       [(''First free BBM: %d'' @ newline, \<lambda>s. ext_first_free (b_data bbm) 1024 s),
        (''First free IBM: %d'' @ newline, \<lambda>s. ext_first_free (b_data ibm) 1024 s)] s;
     Some (bg, s) }"

definition half_at :: "u32 \<Rightarrow> 'a machine_scheme \<Rightarrow> u32" where "half_at a s = ucast (load16 (mem s) a)"
definition word_at :: "u32 \<Rightarrow> 'a machine_scheme \<Rightarrow> u32" where "word_at a s = load32 (mem s) a"

definition inode_dump :: "'a ide_state_scheme printer \<Rightarrow> u32 \<Rightarrow> 'a ide_state_scheme \<Rightarrow> 'a ide_state_scheme option" where
  "inode_dump pf ino s = print_all pf
     [(''Mode'' @ tab @ ''%x'' @ tab, half_at ino),
      (''UID'' @ tab @ ''%x'' @ tab, half_at (ino + 2)),
      (''Size'' @ tab @ ''%d'' @ newline, word_at (ino + 4)),
      (''Atime'' @ tab @ ''%x'' @ tab, word_at (ino + 8)),
      (''Ctime'' @ tab @ ''%x'' @ tab, word_at (ino + 12)),
      (''Mtime'' @ tab @ ''%x'' @ newline, word_at (ino + 16)),
      (''Dtime'' @ tab @ ''%x'' @ tab, word_at (ino + 20)),
      (''Group'' @ tab @ ''%x'' @ tab, half_at (ino + 24)),
      (''#Links'' @ tab @ ''%d'' @ newline, half_at (ino + 26)),
      (''Sector'' @ tab @ ''%d'' @ tab, word_at (ino + 28)),
      (''Flags'' @ tab @ ''%x'' @ newline, word_at (ino + 32)),
      (''Block1'' @ tab @ ''%d'' @ newline, word_at (i_block_at ino 0))] s"

definition shifted_1024 :: "u32 \<Rightarrow> 'a machine_scheme \<Rightarrow> u32" where
  "shifted_1024 a s = push_bit (unat (word_at a s) mod 32) 1024"

definition sb_dump :: "'a ide_state_scheme printer \<Rightarrow> u32 \<Rightarrow> 'a ide_state_scheme \<Rightarrow> 'a ide_state_scheme option" where
  "sb_dump pf sb s = print_all pf
     [(''EXT2 Magic  '' @ tab @ ''%x'' @ newline, half_at (sb + 56)),
      (''Inodes Count'' @ tab @ ''%d'' @ tab, word_at sb),
      (''Blocks Count'' @ tab @ ''%d'' @ tab, word_at (sb + 4)),
      (''RBlock Count'' @ tab @ ''%d'' @ newline, word_at (sb + 8)),
      (''FBlock Count'' @ tab @ ''%d'' @ tab, word_at (sb + 12)),
      (''FInode Count'' @ tab @ ''%d'' @ tab, word_at (sb + 16)),
      (''First Data B'' @ tab @ ''%d'' @ newline, word_at (sb + 20)),
      (''Block Sz    '' @ tab @ ''%d'' @ tab, shifted_1024 (sb + 24)),
      (''Fragment Sz '' @ tab @ ''%d'' @ tab, shifted_1024 (sb + 28)),
      (''Block/Group '' @ tab @ ''%d'' @ newline, word_at (sb + 32)),
      (''Frag/Group  '' @ tab @ ''%d'' @ tab, word_at (sb + 36)),
      (''Inode/Group '' @ tab @ ''%d'' @ tab, word_at (sb + 40)),
      (''mtime;'' @ tab @ ''%x'' @ newline, word_at (sb + 44)),
      (''wtime;'' @ tab @ ''%x'' @ tab, word_at (sb + 48)),
      (''Mnt #'' @ tab @ ''%x'' @ tab, half_at (sb + 52)),
      (''Max mnt'' @ tab @ ''%x'' @ newline, half_at (sb + 54)),
      (''State'' @ tab @ ''%x'' @ tab, half_at (sb + 58)),
      (''Errors'' @ tab @ ''%x'' @ tab, half_at (sb + 60)),
      (''Minor'' @ tab @ ''%x'' @ newline, half_at (sb + 62)),
      (''Last Chk'' @ tab @ ''%x'' @ tab, word_at (sb + 64)),
      (''Chk int'' @ tab @ ''%x'' @ tab, word_at (sb + 68)),
      (''OS'' @ tab @ ''%x'' @ newline, word_at (sb + 72)),
      (''Rev #'' @ tab @ ''%x'' @ tab, word_at (sb + 76)),
      (''ResUID'' @ tab @ ''%x'' @ tab, half_at (sb + 80)),
      (''ResGID'' @ tab @ ''%x'' @ newline, half_at (sb + 82))] s"

section \<open>Paths\<close>

text \<open>\<^verbatim>\<open>strtok\<close> keeps its place in a static variable; \<open>lit\<close> places the separator.\<close>

record fs_state = ide_state +
  strtok_ptr :: u32

definition strtok_st :: "u32 \<Rightarrow> u32 \<Rightarrow> 'a fs_state_scheme \<Rightarrow> (u32 \<times> 'a fs_state_scheme) option" where
  "strtok_st str delim s = do {
     (m, p, r) \<leftarrow> strtok (mem s) (strtok_ptr s) str delim;
     Some (r, s\<lparr>mem := m, strtok_ptr := p\<rparr>) }"

partial_function (option) pathize_loop ::
  "'a fs_state_scheme printer \<Rightarrow> u32 \<Rightarrow> u32 \<Rightarrow> c_int \<Rightarrow> 'a fs_state_scheme \<Rightarrow> (c_int \<times> 'a fs_state_scheme) option" where
  "pathize_loop pf delim pch parent s =
    (if pch \<noteq> 0
     then do {
       (parent, s) \<leftarrow> find_inode_in_dir pf pch parent s;
       (pch, s) \<leftarrow> strtok_st 0 delim s;
       pathize_loop pf delim pch parent s }
     else Some (parent, s))"

definition pathize ::
  "(string \<Rightarrow> u32) \<Rightarrow> 'a fs_state_scheme printer \<Rightarrow> u32 \<Rightarrow> 'a fs_state_scheme \<Rightarrow> (c_int \<times> 'a fs_state_scheme) option" where
  "pathize lit pf path s = do {
     (pch, s) \<leftarrow> strtok_st path (lit ''/'') s;
     pathize_loop pf (lit ''/'') pch 2 s }"

definition open_path ::
  "(string \<Rightarrow> u32) \<Rightarrow> 'a fs_state_scheme printer \<Rightarrow> u32 \<Rightarrow> 'a fs_state_scheme \<Rightarrow> (u32 \<times> 'a fs_state_scheme) option" where
  "open_path lit pf path s = do {
     (ino, s) \<leftarrow> pathize lit pf path s;
     if ino = - 1 then Some (0, s)
     else do {
       s \<leftarrow> pf (''%+d '' @ newline) [PW ino] s;
       (i, s) \<leftarrow> ext2_inode pf 1 ino s;
       ext2_open pf i s } }"

end
