(* ===== verification/Ide_Queue.thy ===== *)
theory Ide_Queue
  imports Ide
begin

text \<open>
  The disk driver as a queue of requests.  \<open>queue_view\<close> relates the buffers chained from \<^verbatim>\<open>idequeue\<close> to a
  list; \<^verbatim>\<open>ide_rw\<close> appends to it and \<^verbatim>\<open>ide_handler\<close> takes its head away.  The contract is the locale
  \<open>request_queue\<close>, interpreted on the driver: taking a request, waiting for it and an interrupt are steps that come
  in any order, and implement an abstract first-in first-out queue.  That taking a request is one step is an
  assumption the source does not enforce, and \<open>ide_rw_race\<close> shows what an interrupt inside it does.  The theory also says when the wait for the drive ends, what the
  controller is told and what a finished request leaves in its buffer.
\<close>

section \<open>Waiting for the drive\<close>

definition ready :: "u32 \<Rightarrow> bool" where
  "ready w \<longleftrightarrow> (ucast w :: u8) AND (IDE_BSY OR IDE_RDY) = IDE_RDY"

definition failed :: "u32 \<Rightarrow> bool" where
  "failed w \<longleftrightarrow> (ucast w :: u8) AND (IDE_DF OR IDE_ERR) \<noteq> 0"

text \<open>\<open>ready_at f n\<close>: of the status bytes \<open>f 0\<close>, \<open>f 1\<close>, \dots, number \<open>n\<close> is the first that is ready.\<close>

definition ready_at :: "(nat \<Rightarrow> u32) \<Rightarrow> nat \<Rightarrow> bool" where
  "ready_at f n \<longleftrightarrow> ready (f n) \<and> (\<forall>k<n. \<not> ready (f k))"

text \<open>The state after \<open>n\<close> reads of the status port.\<close>

definition polled :: "nat \<Rightarrow> 'a io_state_scheme \<Rightarrow> 'a io_state_scheme" where
  "polled n s = s\<lparr>io_log := io_log s @ map (\<lambda>k. Inb 0x1F7 (ucast (io_in s k))) [0..<n], io_in := \<lambda>k. io_in s (n + k)\<rparr>"

lemma polled_1: "snd (inb (IDE_IO OR IDE_CMD) s) = polled 1 s"
  by (simp add: inb_def io_read_def io_event_def polled_def IDE_IO_def IDE_CMD_def)

lemma polled_polled: "polled n (polled 1 s) = polled (Suc n) s"
proof -
  have "[0..<Suc n] = 0 # map Suc [0..<n]" by (simp add: map_Suc_upt upt_conv_Cons)
  then show ?thesis by (simp add: polled_def comp_def del: upt_Suc) (simp add: upt_rec)
qed

lemma polled_io_in [simp]: "io_in (polled n s) = (\<lambda>k. io_in s (n + k))"
  by (simp add: polled_def)

lemma ide_wait_step:
  "ide_wait c s = (if \<not> ready (io_in s 0) then ide_wait c (polled 1 s)
    else Some (if c \<noteq> 0 \<and> failed (io_in s 0) then - 1 else 0, polled 1 s))"
proof -
  have "inb (IDE_IO OR IDE_CMD) s = (ucast (io_in s 0), polled 1 s)"
    by (rule prod_eqI) (simp_all add: polled_1)
  then show ?thesis by (subst ide_wait.simps) (simp add: ready_def failed_def)
qed

lemma ide_wait_ready_at:
  "ready_at (io_in s) n \<Longrightarrow> ide_wait c s = Some (if c \<noteq> 0 \<and> failed (io_in s n) then - 1 else 0, polled (Suc n) s)"
proof (induction n arbitrary: s)
  case 0
  then show ?case by (subst ide_wait_step) (simp add: ready_at_def)
next
  case (Suc n)
  have r: "ready_at (\<lambda>k. io_in s (Suc k)) n" "\<not> ready (io_in s 0)" using Suc.prems by (auto simp: ready_at_def)
  then show ?case using Suc.IH [of "polled 1 s"] polled_polled [of "Suc n" s] by (subst ide_wait_step) simp
qed

lemma ide_wait_ends:
  assumes "ide_wait c s = Some y"
  shows "\<exists>n. ready (io_in s n)"
proof (induction rule: ide_wait.raw_induct [OF _ assms, consumes 0])
  case (1 f c s y)
  have i: "inb (IDE_IO OR IDE_CMD) s = (ucast (io_in s 0), polled 1 s)"
    by (rule prod_eqI) (simp_all add: polled_1)
  show ?case
  proof (cases "ready (io_in s 0)")
    case False
    then have "f c (polled 1 s) = Some y" using 1(2) by (simp add: i ready_def)
    from 1(1) [OF this] obtain n where "ready (io_in s (1 + n))" by auto
    then show ?thesis by blast
  qed blast
qed

lemma ready_at_exists:
  assumes "ready (f n)"
  shows "ready_at f (LEAST k. ready (f k))"
  unfolding ready_at_def using LeastI [of "\<lambda>k. ready (f k)", OF assms] not_less_Least by blast

lemma ide_wait_polled:
  assumes "ide_wait c s = Some (r, t)"
  obtains n where "t = polled n s" "r = (if c \<noteq> 0 \<and> failed (io_in s (n - 1)) then - 1 else 0)"
proof -
  obtain k where k: "ready_at (io_in s) k" using ide_wait_ends [OF assms] ready_at_exists by blast
  then show thesis using assms ide_wait_ready_at [OF k, of c] that [of "Suc k"] by simp
qed

lemma polled_frame [simp]:
  "mem (polled n s) = mem s" "idequeue (polled n t) = idequeue t" "idelock (polled n t) = idelock t"
  by (simp_all add: polled_def)

section \<open>Programming the controller\<close>

text \<open>What \<^verbatim>\<open>ide_op\<close> tells the controller about the buffer at \<open>b\<close>.\<close>

definition ide_words :: "mem \<Rightarrow> u32 \<Rightarrow> nat \<Rightarrow> io_event list" where
  "ide_words m a n = map (\<lambda>i. Outl 0x1F0 (load32 m (a + of_nat (4 * i)))) [0..<n]"

definition ide_cmds :: "mem \<Rightarrow> u32 \<Rightarrow> io_event list" where
  "ide_cmds m b =
    (let sector = b_block m b * 2 in
     [Outb 0x3F6 0, Outb 0x1F2 2, Outb 0x1F3 (ucast sector), Outb 0x1F4 (ucast (drop_bit 8 sector)),
      Outb 0x1F5 (ucast (drop_bit 16 sector)),
      Outb 0x1F6 (0xE0 OR push_bit 4 (ucast (b_dev m b) AND 1) OR (ucast (drop_bit 24 sector) AND 0xF))] @
     (if b_flags m b AND B_DIRTY \<noteq> 0
      then Outb 0x1F7 0xC5 # ide_words m (b + 20) 256
      else [Outb 0x1F7 0xC4]))"

lemma outsl_eq: "outsl port addr n s = s\<lparr>io_log := io_log (outsl port addr n s)\<rparr>"
  by (induction n arbitrary: addr s) (simp, metis (no_types) io_event_def io_state.surjective io_state.update_convs(1) outsl.simps(2))

lemma outsl_update:
  "outsl 0x1F0 addr n s = s\<lparr>io_log := io_log s @ ide_words (mem s) addr n\<rparr>"
  by (subst outsl_eq) (simp only: outsl_log ide_words_def)

lemma ucast_ucast_u8: "(ucast (ucast (w :: u8) :: u16) :: u8) = w"
  by (rule bit_word_eqI) (auto simp: bit_simps)

lemma ide_masks:
  "LBA_LOW c = ucast c" "LBA_MID c = ucast (drop_bit 8 c)" "LBA_HIGH c = ucast (drop_bit 16 c)"
proof -
  have "ucast (c AND mask 8) = (ucast c :: u8)" by (rule bit_word_eqI) (auto simp: bit_simps)
  then show "LBA_LOW c = ucast c" by (simp add: LBA_LOW_def mask_eq_exp_minus_1)
  have "(0xFF :: u8) = - 1" by simp
  then show "LBA_MID c = ucast (drop_bit 8 c)" "LBA_HIGH c = ucast (drop_bit 16 c)"
    by (simp_all only: LBA_MID_def LBA_HIGH_def and.right_neutral)
qed

lemma ide_head:
  "(ucast (0xE0 OR ucast (push_bit 4 (d AND 1)) OR ucast (LBA_LAST c) :: u16) :: u8) =
    0xE0 OR push_bit 4 (ucast (d :: u32) AND 1) OR (ucast (drop_bit 24 c) AND 0xF)"
proof -
  have "(ucast (ucast (push_bit 4 (d AND 1)) :: u16) :: u8) = push_bit 4 (ucast d AND 1)"
    by (rule bit_word_eqI) (auto simp: bit_simps)
  then show ?thesis by (simp add: unsigned_or_eq ucast_ucast_u8 LBA_LAST_def)
qed

lemma outb_update: "outb p d s = s\<lparr>io_log := io_log s @ [Outb p (ucast d)]\<rparr>"
  by (simp add: outb_def io_event_def)

lemmas ide_ports = IDE_IO_def IDE_CMD_def IDE_ALT_def IDE_SECN_def IDE_LOW_def IDE_MID_def IDE_HIGH_def IDE_HEAD_def
  BLOCK_SIZE_def SECTOR_SIZE_def IDE_CMD_READ_def IDE_CMD_WRITE_def b_data_def

lemma ide_op_eq:
  assumes "b \<noteq> 0" "b_dev (mem s) b \<noteq> 0" "ready_at (io_in s) n"
  shows "ide_op pf b s = Some ((polled (Suc n) s)\<lparr>io_log := io_log (polled (Suc n) s) @ ide_cmds (mem s) b\<rparr>)"
proof -
  define t where "t = polled (Suc n) s"
  have t: "ide_wait 0 s = Some (0, t)" "mem t = mem s" using ide_wait_ready_at [OF assms(3), of 0] by (simp_all add: t_def)
  show ?thesis unfolding t_def [symmetric]
    using assms(1,2) t
    by (simp add: ide_op_def Let_def)
      (simp add: ide_ports ide_masks outsl_update outb_update ide_cmds_def Let_def ide_head [simplified] ucast_ucast_u8 del: outb_simps)
qed

text \<open>The four bytes the controller gets are the sector number modulo \<open>2 ^ 28\<close>.\<close>

lemma nat_bytes: "(x :: nat) mod 256 + 256 * (x div 256 mod 256) + 65536 * (x div 65536 mod 256) + 16777216 * (x div 16777216 mod 16) = x mod 2 ^ 28"
  using mod_mult2_eq [of x 65536 256] mod_mult2_eq [of x 256 256] mod_mult2_eq [of x 16777216 16] by simp

lemma unat_ucast_drop: "unat (ucast (drop_bit k (w :: u32)) :: u8) = unat w div 2 ^ k mod 256"
  by (simp only: unsigned_ucast_eq take_bit_eq_mod unat_drop_bit) simp

lemma sector_bytes:
  fixes c :: u32 and h :: u8
  assumes "h AND 0xF = ucast (drop_bit 24 c) AND 0xF"
  shows "unat (ucast c :: u8) + 2 ^ 8 * unat (ucast (drop_bit 8 c) :: u8) + 2 ^ 16 * unat (ucast (drop_bit 16 c) :: u8) +
    2 ^ 24 * unat (h AND 0xF) = unat c mod 2 ^ 28"
proof -
  have "(0xF :: u8) = mask 4" by (simp add: mask_eq_exp_minus_1)
  then have "unat (h AND 0xF) = unat c div 2 ^ 24 mod 256 mod 16"
    unfolding assms using unat_and_mask [of "ucast (drop_bit 24 c) :: u8" 4] by (simp only: unat_ucast_drop) simp
  also have "\<dots> = unat c div 2 ^ 24 mod 16" by (rule mod_mod_cancel) simp
  finally have h: "unat (h AND 0xF) = unat c div 2 ^ 24 mod 16" .
  have "unat (ucast c :: u8) = unat c mod 256" using unat_ucast_drop [of 0 c] by simp
  then show ?thesis unfolding h unat_ucast_drop using nat_bytes [of "unat c"] by simp
qed

lemma ide_head_mode: "(0xE0 OR x) AND 0xE0 = (0xE0 :: u8)"
  by (rule bit_word_eqI) (auto simp: bit_simps)

lemma ide_head_low: "(0xE0 OR push_bit 4 (d AND 1) OR (x AND 0xF)) AND 0xF = (x AND 0xF :: u8)"
  and ide_head_dev: "bit (0xE0 OR push_bit 4 (d AND 1) OR (x AND 0xF) :: u8) 4 = odd d"
proof -
  have m: "(0xF :: u8) = mask 4" by (simp add: mask_eq_exp_minus_1)
  have "push_bit 4 (d AND 1) AND mask 4 = (0 :: u8)" by (rule bit_word_eqI) (auto simp: bit_simps)
  moreover have "0xE0 AND mask 4 = (0 :: u8)" by (simp flip: m)
  moreover have "(x AND mask 4) AND mask 4 = x AND mask 4" by (rule bit_word_eqI) (auto simp: bit_simps)
  ultimately show "(0xE0 OR push_bit 4 (d AND 1) OR (x AND 0xF)) AND 0xF = (x AND 0xF :: u8)"
    unfolding m by (simp only: bit.conj_disj_distrib2 or.left_neutral)
  show "bit (0xE0 OR push_bit 4 (d AND 1) OR (x AND 0xF) :: u8) 4 = odd d"
    unfolding m by (auto simp: bit_simps bit_0)
qed

section \<open>The queue in memory\<close>

text \<open>The list of buffers the \<^verbatim>\<open>q\<close> pointers form from \<open>p\<close> on.\<close>

fun qlist :: "mem \<Rightarrow> u32 \<Rightarrow> u32 list \<Rightarrow> bool" where
  "qlist m p [] \<longleftrightarrow> p = 0"
| "qlist m p (x # xs) \<longleftrightarrow> p = x \<and> x \<noteq> 0 \<and> qlist m (b_q m x) xs"

text \<open>A pool of buffers: none at address zero, no two share a byte.\<close>

definition disk_buffers :: "u32 set \<Rightarrow> bool" where
  "disk_buffers P \<longleftrightarrow> 0 \<notin> P \<and> (\<forall>b\<in>P. \<forall>c\<in>P. b \<noteq> c \<longrightarrow> region b 1044 \<inter> region c 1044 = {})"

definition queue_view :: "u32 set \<Rightarrow> 'a ide_state_scheme \<Rightarrow> u32 list \<Rightarrow> bool" where
  "queue_view P s xs \<longleftrightarrow> qlist (mem s) (idequeue s) xs \<and> distinct xs \<and> set xs \<subseteq> P"

text \<open>Two memories with the same contents of the buffer at \<open>b\<close>.\<close>

definition same_buf :: "mem \<Rightarrow> mem \<Rightarrow> u32 \<Rightarrow> bool" where
  "same_buf m m' b \<longleftrightarrow> (\<forall>a. off b a < 1044 \<longrightarrow> m' a = m a)"

lemma same_buf_refl [simp]: "same_buf m m b"
  by (simp add: same_buf_def)

lemma same_buf_trans: "same_buf m m' b \<Longrightarrow> same_buf m' m'' b \<Longrightarrow> same_buf m m'' b"
  by (simp add: same_buf_def)

lemma buf_word:
  assumes "same_buf m m' b" "k + 4 \<le> 1044"
  shows "load32 m' (b + of_nat k) = load32 m (b + of_nat k)"
proof (rule c32.ld_cong)
  fix a assume "off (b + of_nat k) a < 4"
  then have "off b a < 1044" using region_sub [of k 4 1044 b] assms(2) by auto
  then show "m' a = m a" using assms(1) by (simp add: same_buf_def)
qed

lemma same_buf_fields:
  assumes "same_buf m m' b"
  shows "b_flags m' b = b_flags m b" "b_dev m' b = b_dev m b" "b_block m' b = b_block m b" "b_q m' b = b_q m b"
  using buf_word [OF assms, of 4] buf_word [OF assms, of 8] buf_word [OF assms, of 16] assms
  by (simp_all add: b_flags_def b_dev_def b_block_def b_q_def same_buf_def)

text \<open>Writing inside one buffer of the pool leaves the others.\<close>

lemma same_buf_other:
  assumes "disk_buffers P" "b \<in> P" "c \<in> P" "b \<noteq> c" "\<And>a. 1044 \<le> off b a \<Longrightarrow> m' a = m a"
  shows "same_buf m m' c"
  using assms by (auto simp: same_buf_def disk_buffers_def disjoint_iff not_less)

lemma store_q_frame: "1044 \<le> off b a \<Longrightarrow> store32 m (b + 16) v a = m a"
  using region_sub [of 16 4 1044 b] by (intro c32.st_frame) (auto simp: not_less [symmetric])

lemma b_q_store [simp]: "b_q (store32 m (b + 16) v) b = v"
  by (simp add: b_q_def)

lemma store_q_fields: "b_flags (store32 m (b + 16) v) b = b_flags m b" "b_dev (store32 m (b + 16) v) b = b_dev m b"
  "b_block (store32 m (b + 16) v) b = b_block m b"
proof -
  have "b \<noteq> b + of_nat k" if "0 < k" "k < 2 ^ 32" for k using off_add_nat [of k b] that by force
  from this [of 16] this [of 17] this [of 18] this [of 19]
  show "b_flags (store32 m (b + 16) v) b = b_flags m b" by (simp add: b_flags_def store32_def)
qed (simp_all add: b_dev_def b_block_def c32.ld_st_sep off_def)

lemma qlist_cong: "(\<And>x. x \<in> set xs \<Longrightarrow> b_q m' x = b_q m x) \<Longrightarrow> qlist m' p xs = qlist m p xs"
  by (induction xs arbitrary: p) auto

lemma qlist_0 [simp]: "qlist m 0 xs \<longleftrightarrow> xs = []"
  by (cases xs) auto

lemma queue_last_qlist: "qlist m p xs \<Longrightarrow> xs \<noteq> [] \<Longrightarrow> queue_last m p = Some (last xs)"
proof (induction xs arbitrary: p)
  case (Cons x xs)
  then show ?case by (cases xs) (subst queue_last.simps, force)+
qed simp

lemma butlast_not_last: "distinct xs \<Longrightarrow> y \<in> set (butlast xs) \<Longrightarrow> y \<noteq> last xs"
  by (induction xs) (auto split: if_splits)

lemma qlist_snoc:
  assumes "qlist m p xs" "xs \<noteq> []" "\<And>x. x \<in> set (butlast xs) \<Longrightarrow> b_q m' x = b_q m x"
    and "b_q m' (last xs) = b" "b \<noteq> 0" "b_q m' b = 0"
  shows "qlist m' p (xs @ [b])"
  using assms
proof (induction xs arbitrary: p)
  case (Cons x xs)
  then show ?case by (cases "xs = []") (auto split: if_splits)
qed simp

lemma store_q_pool:
  assumes "disk_buffers P" "x \<in> P" "c \<in> P"
  shows "b_flags (store32 m (x + 16) v) c = b_flags m c" "b_dev (store32 m (x + 16) v) c = b_dev m c"
    "b_block (store32 m (x + 16) v) c = b_block m c" "b_q (store32 m (x + 16) v) c = (if c = x then v else b_q m c)"
proof -
  have "same_buf m (store32 m (x + 16) v) c" if "c \<noteq> x"
    using assms that store_q_frame by (intro same_buf_other [of P x c]) auto
  then show "b_flags (store32 m (x + 16) v) c = b_flags m c" "b_dev (store32 m (x + 16) v) c = b_dev m c"
    "b_block (store32 m (x + 16) v) c = b_block m c" "b_q (store32 m (x + 16) v) c = (if c = x then v else b_q m c)"
    by (cases "c = x"; simp add: store_q_fields same_buf_fields)+
qed

section \<open>The operations on the queue\<close>

lemma queue_append_view:
  assumes "disk_buffers P" "queue_view P s xs" "b \<in> P" "b \<notin> set xs"
  shows "\<exists>m. queue_append b (set_word (b + 16) 0 s) = Some (s\<lparr>mem := m, idequeue := if xs = [] then b else idequeue s\<rparr>) \<and>
    qlist m (if xs = [] then b else idequeue s) (xs @ [b]) \<and> (xs = [] \<longleftrightarrow> idequeue s = 0) \<and> (xs \<noteq> [] \<longrightarrow> idequeue s \<noteq> b) \<and>
    (\<forall>c\<in>P. b_flags m c = b_flags (mem s) c \<and> b_dev m c = b_dev (mem s) c \<and> b_block m c = b_block (mem s) c)"
proof -
  note pool = store_q_pool [OF assms(1)]
  let ?m = "store32 (mem s) (b + 16) 0"
  have v: "qlist (mem s) (idequeue s) xs" "distinct xs" "set xs \<subseteq> P" using assms(2) by (simp_all add: queue_view_def)
  have b0: "b \<noteq> 0" using assms(1,3) by (auto simp: disk_buffers_def)
  have "b_q ?m x = b_q (mem s) x" if "x \<in> set xs" for x using that v(3) assms(3,4) pool(4) [of b x] by auto
  then have q: "qlist ?m (idequeue s) xs" using v(1) qlist_cong [of xs ?m "mem s"] by simp
  show ?thesis
  proof (cases xs)
    case Nil
    then have "idequeue s = 0" using v by simp
    then show ?thesis
      using Nil b0 assms(3) by (intro exI [of _ ?m]) (simp add: queue_append_def queue_walk_def queue_link_def set_word_def pool)
  next
    case (Cons x ys)
    let ?l = "last xs" let ?n = "store32 ?m (?l + 16) b"
    have l: "?l \<in> P" "?l \<noteq> b" "?l \<in> set xs" using Cons v(3) assms(4) last_in_set [of xs] by auto
    have l0: "?l \<noteq> 0" using l(1) assms(1) by (auto simp: disk_buffers_def)
    have i: "idequeue s \<noteq> 0" "idequeue s \<noteq> b" using v(1) Cons assms(4) by auto
    have "b_q ?n y = b_q ?m y" if "y \<in> set (butlast xs)" for y
    proof -
      have "y \<in> P" "y \<noteq> ?l" using that v in_set_butlastD [of y xs] butlast_not_last [of xs y] by auto
      then show ?thesis using l(1) by (simp add: pool)
    qed
    then have "qlist ?n (idequeue s) (xs @ [b])"
      using q Cons l b0 assms(3) by (intro qlist_snoc [of ?m]) (simp_all add: pool)
    moreover have "queue_append b (set_word (b + 16) 0 s) = Some (s\<lparr>mem := ?n\<rparr>)"
      using queue_last_qlist [OF q] Cons i l0 by (simp add: queue_append_def queue_walk_def queue_link_def set_word_def)
    ultimately show ?thesis
      using Cons i l assms(3) by (intro exI [of _ ?n]) (simp add: pool)
  qed
qed

text \<open>The request is accepted when the drive answers; an empty queue starts the operation at once.\<close>

lemma ide_rw_done:
  assumes "disk_buffers P" "queue_view P s xs" "b \<in> P" "b \<notin> set xs" "b_dev (mem s) b = 1"
    and "b_flags (mem s) b AND (B_VALID OR B_DIRTY) \<noteq> B_VALID" "ready_at (io_in s) n"
    and "xs = [] \<Longrightarrow> ready_at (\<lambda>i. io_in s (Suc n + i)) k" "\<not> failed (io_in s (if xs = [] then Suc n + k else n))"
  shows "\<exists>t. ide_rw pf b s = Some (0, t) \<and> queue_view P t (xs @ [b]) \<and> idelock t = idelock s \<and>
    io_in t = (\<lambda>i. io_in s ((if xs = [] then Suc n + Suc k else Suc n) + i)) \<and>
    io_log t = io_log (polled (Suc n) s) @
      (if xs = [] then ide_cmds (mem t) b @ map (\<lambda>i. Inb 0x1F7 (ucast (io_in s (Suc n + i)))) [0..<Suc k] else []) \<and>
    (\<forall>c\<in>P. b_flags (mem t) c = b_flags (mem s) c \<and> b_dev (mem t) c = b_dev (mem s) c \<and> b_block (mem t) c = b_block (mem s) c)"
proof -
  let ?p = "if xs = [] then b else idequeue s"
  obtain m where m: "queue_append b (set_word (b + 16) 0 s) = Some (s\<lparr>mem := m, idequeue := ?p\<rparr>)"
      "qlist m ?p (xs @ [b])" "xs \<noteq> [] \<longrightarrow> idequeue s \<noteq> b"
      "\<forall>c\<in>P. b_flags m c = b_flags (mem s) c \<and> b_dev m c = b_dev (mem s) c \<and> b_block m c = b_block (mem s) c"
    using queue_append_view [OF assms(1-4)] by auto
  define u where "u = s\<lparr>mem := m, idequeue := ?p\<rparr>"
  have u: "mem u = m" "idequeue u = ?p" "io_in u = io_in s" "idelock u = idelock s" "io_log u = io_log s"
    by (simp_all add: u_def)
  have b0: "b \<noteq> 0" using assms(1,3) by (auto simp: disk_buffers_def)
  have v: "distinct (xs @ [b])" "set (xs @ [b]) \<subseteq> P" using assms(2-4) by (auto simp: queue_view_def)
  have rw: "ide_rw pf b s = do {
      t \<leftarrow> (if ?p = b then ide_op pf b u else Some u); (r, t) \<leftarrow> ide_wait 1 t;
      t \<leftarrow> assert pf (ide_line 177 ''ide_rw'') ''ide_wait(1) == 0'' (r = 0) t; Some (0, t) }"
    using m(1) assms(5,6) by (simp add: ide_rw_def ide_submit_def ide_await_def u_def case_prod_unfold)
  show ?thesis
  proof (cases "xs = []")
    case True
    let ?t = "(polled (Suc n) u)\<lparr>io_log := io_log (polled (Suc n) u) @ ide_cmds m b\<rparr>"
    have "b_dev (mem u) b \<noteq> 0" using m(4) assms(3,5) by (simp add: u)
    then have o: "ide_op pf b u = Some ?t" using ide_op_eq [OF b0, of u n pf] assms(7) by (simp add: u)
    have r: "ready_at (io_in ?t) k" using assms(8) True by (simp add: u)
    have "ide_wait 1 ?t = Some (0, polled (Suc k) ?t)" using ide_wait_ready_at [OF r, of 1] assms(9) True by (simp add: u)
    then have "ide_rw pf b s = Some (0, polled (Suc k) ?t)" using True o by (simp add: rw)
    moreover have "queue_view P (polled (Suc k) ?t) (xs @ [b])" using m(2) v by (simp add: queue_view_def u)
    ultimately show ?thesis using m(4) True by (auto simp: u polled_def add_ac simp del: upt_Suc)
  next
    case False
    have r: "ready_at (io_in u) n" using assms(7) by (simp add: u)
    have "ide_wait 1 u = Some (0, polled (Suc n) u)" using ide_wait_ready_at [OF r, of 1] assms(9) False by (simp add: u)
    then have "ide_rw pf b s = Some (0, polled (Suc n) u)" using False m(3) by (simp add: rw)
    moreover have "queue_view P (polled (Suc n) u) (xs @ [b])" using m(2) v by (simp add: queue_view_def u)
    ultimately show ?thesis using m(4) False by (auto simp: u polled_def simp del: upt_Suc)
  qed
qed

lemma ide_op_silent:
  assumes "ide_op silent b s = Some t"
  shows "mem t = mem s" "idequeue t = idequeue s"
proof -
  have b: "b \<noteq> 0" "b_dev (mem s) b \<noteq> 0" using assms by (auto simp: ide_op_def split: if_splits)
  then obtain r u where "ide_wait 0 s = Some (r, u)" using assms by (auto simp: ide_op_def Let_def split: bind_splits)
  then obtain n where "ready_at (io_in s) n" using ide_wait_ends ready_at_exists by blast
  from ide_op_eq [OF b this, of silent] assms show "mem t = mem s" "idequeue t = idequeue s" by auto
qed

lemma ide_submit_silent:
  assumes "disk_buffers P" "queue_view P s xs" "b \<in> P" "b \<notin> set xs" "ide_submit silent b s = Some (0, t)"
  shows "queue_view P t (xs @ [b])"
proof -
  let ?p = "if xs = [] then b else idequeue s"
  obtain m where m: "queue_append b (set_word (b + 16) 0 s) = Some (s\<lparr>mem := m, idequeue := ?p\<rparr>)" "qlist m ?p (xs @ [b])"
    using queue_append_view [OF assms(1-4)] by auto
  have u: "(if ?p = b then ide_op silent b (s\<lparr>mem := m, idequeue := ?p\<rparr>) else Some (s\<lparr>mem := m, idequeue := ?p\<rparr>)) = Some t"
    using assms(5) m(1) by (auto simp: ide_submit_def split: if_splits bind_splits)
  have "mem t = m" "idequeue t = ?p" using u ide_op_silent [of b "s\<lparr>mem := m, idequeue := ?p\<rparr>" t] by (auto split: if_splits)
  then show ?thesis using m(2) assms(2-4) by (auto simp: queue_view_def)
qed

lemma ide_submit_refused: "ide_submit silent b s = Some (r, t) \<Longrightarrow> r \<noteq> 0 \<Longrightarrow> t = s"
  by (auto simp: ide_submit_def split: if_splits bind_splits)

lemma ide_await_silent:
  assumes "ide_await silent s = Some t" "queue_view P s xs"
  shows "queue_view P t xs"
proof -
  have "mem t = mem s" "idequeue t = idequeue s"
    using assms(1) by (auto simp: ide_await_def split: bind_splits if_splits elim!: ide_wait_polled)
  then show ?thesis using assms(2) by (simp add: queue_view_def)
qed

section \<open>The interrupt handler\<close>

lemma insl_update: "\<exists>m l. insl port addr n s = s\<lparr>mem := m, io_log := l, io_in := \<lambda>k. io_in s (n + k)\<rparr>"
proof (induction n arbitrary: addr s)
  case (Suc n)
  let ?s = "s\<lparr>io_in := \<lambda>k. io_in s (Suc k), io_log := io_log s @ [Inl port (io_in s 0)], mem := store32 (mem s) addr (io_in s 0)\<rparr>"
  have "insl port addr (Suc n) s = insl port (addr + 4) n ?s" by (simp add: io_read_def io_event_def Let_def)
  then show ?case using Suc.IH [of "addr + 4" ?s] by auto
next
  case 0
  show ?case by (intro exI [of _ "mem s"] exI [of _ "io_log s"]) simp
qed

lemma ide_delay_loop_update: "\<exists>l. snd (ide_delay_loop n r s) = s\<lparr>io_log := l, io_in := \<lambda>k. io_in s (n + k)\<rparr>"
proof (induction n arbitrary: r s)
  case (Suc n)
  let ?s = "s\<lparr>io_in := \<lambda>k. io_in s (Suc k), io_log := io_log s @ [Inb IDE_ALT (ucast (io_in s 0))]\<rparr>"
  have "ide_delay_loop (Suc n) r s = ide_delay_loop n (ucast (io_in s 0)) ?s" by (simp add: inb_def io_read_def io_event_def)
  then show ?case using Suc.IH [of _ ?s] by auto
next
  case 0
  show ?case by (intro exI [of _ "io_log s"]) simp
qed

lemma ide_delay_update: "\<exists>l. snd (ide_delay s) = s\<lparr>io_log := l, io_in := \<lambda>k. io_in s (5 + k)\<rparr>"
  using ide_delay_loop_update [of 5 0 s] by (simp add: ide_delay_def split_beta Let_def)

text \<open>Buffer contents: the flags sit in front of the data.\<close>

lemma off_data: "20 \<le> off b a \<Longrightarrow> off (b + 20) a = off b a - 20"
  using off_rebase [of 20 b a] by simp

lemma data_not_flags: "i < 256 \<Longrightarrow> load32 (m(b := v)) (b + 20 + of_nat (4 * i)) = load32 m (b + 20 + of_nat (4 * i))"
proof (rule c32.ld_cong)
  fix a assume i: "i < 256" and a: "off (b + 20 + of_nat (4 * i)) a < 4"
  have "off (b + 20 + of_nat (4 * i)) b = 2 ^ 32 - (20 + 4 * i)"
    using off_rebase [of "20 + 4 * i" b b] i by (simp add: add.assoc)
  then show "(m(b := v)) a = m a" using a i by auto
qed

text \<open>The handler up to the point where it starts the next request.\<close>

lemma ide_handler_steps:
  assumes "idelock s = 0" "idequeue s = b" "b \<noteq> 0" "ready_at (io_in s) n" "\<not> failed (io_in s n)"
  obtains w where "ide_handler pf s = do {
      t \<leftarrow> (if idequeue w \<noteq> 0 then ide_op pf (idequeue w) w else Some w); Some (release_idelock t) }"
    "idequeue w = b_q (mem s) b" "\<forall>a. 1044 \<le> off b a \<longrightarrow> mem w a = mem s a"
    "b_flags (mem w) b = (b_flags (mem s) b OR B_VALID) AND NOT B_DIRTY"
    "io_in w = (\<lambda>k. io_in s (n + (if b_flags (mem s) b AND B_DIRTY = 0 then 262 else 6) + k))"
    "b_flags (mem s) b AND B_DIRTY = 0 \<longrightarrow> (\<forall>i<256. load32 (mem w) (b + 20 + of_nat (4 * i)) = io_in s (Suc n + i))"
proof -
  define u where "u = polled (Suc n) (s\<lparr>idelock := 1, idequeue := b_q (mem s) b\<rparr>)"
  define v where "v = (if b_flags (mem s) b AND B_DIRTY = 0 then insl 0x1F0 (b + 20) 256 u else u)"
  define x where "x = set_flags b ((b_flags (mem s) b OR B_VALID) AND NOT B_DIRTY) v"
  define w where "w = snd (ide_delay x)"
  obtain l where w: "w = x\<lparr>io_log := l, io_in := \<lambda>k. io_in x (5 + k)\<rparr>" using ide_delay_update [of x] by (auto simp: w_def)
  have u: "mem u = mem s" "idequeue u = b_q (mem s) b" "io_in u = (\<lambda>k. io_in s (Suc n + k))" by (simp_all add: u_def)
  obtain m l' where i: "insl 0x1F0 (b + 20) 256 u = u\<lparr>mem := m, io_log := l', io_in := \<lambda>k. io_in u (256 + k)\<rparr>"
    using insl_update by blast
  have vm: "mem v a = mem s a" if "1024 \<le> off (b + 20) a" for a
    using insl_mem(2) [of 256 "b + 20" a "0x1F0" u] that by (simp add: v_def u)
  have vb: "mem v b = b_flags (mem s) b"
  proof -
    have "off (b + 20) b = 2 ^ 32 - 20" using off_rebase [of 20 b b] by simp
    then show ?thesis using vm [of b] by (simp add: b_flags_def)
  qed
  have wt: "ide_wait 1 (s\<lparr>idelock := 1, idequeue := b_q (mem s) b\<rparr>) = Some (0, u)"
    unfolding u_def using ide_wait_ready_at [of "s\<lparr>idelock := 1, idequeue := b_q (mem s) b\<rparr>" n 1] assms(4,5) by simp
  have hv: "(if b_flags (mem s) b AND B_DIRTY = 0 then insl 0x1F0 (b_data b) (unat (BLOCK_SIZE div 4)) u else u) = v"
    by (simp add: v_def b_data_def BLOCK_SIZE_def)
  have hx: "set_flags b (b_flags (mem (set_flags b (b_flags (mem v) b OR B_VALID) v)) b AND NOT B_DIRTY)
      (set_flags b (b_flags (mem v) b OR B_VALID) v) = x"
    using vb by (simp add: x_def set_flags_def b_flags_def)
  have "ide_handler pf s = do {
      t \<leftarrow> (if idequeue w \<noteq> 0 then ide_op pf (idequeue w) w else Some w); Some (release_idelock t) }"
    using assms(1-3) wt by (simp add: ide_handler_def acquire_idelock_def Let_def split_beta u hv hx w_def cong: if_cong split del: if_split)
  moreover have "idequeue w = b_q (mem s) b" by (simp add: w x_def set_flags_def v_def i u)
  moreover have "mem w a = mem s a" if "1044 \<le> off b a" for a
    using vm [of a] off_data [of b a] that by (auto simp: w x_def set_flags_def)
  moreover have "b_flags (mem w) b = (b_flags (mem s) b OR B_VALID) AND NOT B_DIRTY"
    by (simp add: w x_def set_flags_def b_flags_def)
  moreover have "io_in w = (\<lambda>k. io_in s (n + (if b_flags (mem s) b AND B_DIRTY = 0 then 262 else 6) + k))"
    by (simp add: w x_def set_flags_def v_def i u add_ac)
  moreover have "load32 (mem w) (b + 20 + of_nat (4 * k)) = io_in s (Suc n + k)" if "b_flags (mem s) b AND B_DIRTY = 0" "k < 256" for k
    using insl_mem(1) [of 256 k "0x1F0" "b + 20" u] that data_not_flags [of k "mem v" b]
    by (simp add: w x_def set_flags_def v_def u c32.idx_def)
  ultimately show thesis by (intro that) auto
qed

lemma queue_view_tail:
  assumes "disk_buffers P" "queue_view P s (x # xs)" "idequeue w = b_q (mem s) x" "\<And>a. 1044 \<le> off x a \<Longrightarrow> mem w a = mem s a"
  shows "queue_view P w xs" "c \<in> P \<Longrightarrow> c \<noteq> x \<Longrightarrow> same_buf (mem s) (mem w) c"
proof -
  have v: "qlist (mem s) (b_q (mem s) x) xs" "x \<in> P" "x \<notin> set xs" "distinct xs" "set xs \<subseteq> P"
    using assms(2) by (auto simp: queue_view_def)
  have sb: "same_buf (mem s) (mem w) c" if "c \<in> P" "c \<noteq> x" for c
    using assms(1,4) v(2) that by (intro same_buf_other [of P x c]) auto
  then show "c \<in> P \<Longrightarrow> c \<noteq> x \<Longrightarrow> same_buf (mem s) (mem w) c" .
  have "b_q (mem w) c = b_q (mem s) c" if "c \<in> set xs" for c
    using same_buf_fields(4) [OF sb [of c]] that v(3,5) by auto
  then have "qlist (mem w) (b_q (mem s) x) xs" using qlist_cong [of xs "mem w" "mem s"] v(1) by simp
  then show "queue_view P w xs" using v assms(3) by (simp add: queue_view_def)
qed

lemma release_idelock_simps [simp]:
  "mem (release_idelock s) = mem s" "idequeue (release_idelock s) = idequeue s" "io_in (release_idelock s) = io_in s"
  "io_log (release_idelock s) = io_log s" "idelock (release_idelock s) = 0"
  by (simp_all add: release_idelock_def)

lemma queue_view_cong: "mem t = mem s \<Longrightarrow> idequeue t = idequeue s \<Longrightarrow> queue_view P t xs = queue_view P s xs"
  by (simp add: queue_view_def)

lemma ide_handler_silent:
  assumes "disk_buffers P" "queue_view P s (x # xs)" "ide_handler silent s = Some t"
  shows "queue_view P t xs"
proof -
  have x: "idequeue s = x" "x \<noteq> 0" using assms(2) by (auto simp: queue_view_def)
  have l: "idelock s = 0" using assms(3) by (auto simp: ide_handler_def acquire_idelock_def split: if_splits)
  let ?s = "s\<lparr>idelock := 1, idequeue := b_q (mem s) x\<rparr>"
  obtain r u where w: "ide_wait 1 ?s = Some (r, u)" "\<not> r <s 0"
    using assms(3) x l by (auto simp: ide_handler_def acquire_idelock_def Let_def split: if_splits bind_splits)
  obtain n where "ready_at (io_in ?s) n" using ide_wait_ends [OF w(1)] ready_at_exists by blast
  then have n: "ready_at (io_in s) n" "\<not> failed (io_in s n)"
    using ide_wait_ready_at [of ?s n 1] w by (auto simp: word_sless_alt split: if_splits)
  obtain v where v: "ide_handler silent s = do {
      t \<leftarrow> (if idequeue v \<noteq> 0 then ide_op silent (idequeue v) v else Some v); Some (release_idelock t) }"
    "idequeue v = b_q (mem s) x" "\<forall>a. 1044 \<le> off x a \<longrightarrow> mem v a = mem s a"
    by (rule ide_handler_steps [OF l x n, of silent])
  have "mem t = mem v" "idequeue t = idequeue v"
    using assms(3) ide_op_silent [of "idequeue v" v] unfolding v(1) by (auto split: if_splits bind_splits)
  then show ?thesis using queue_view_tail(1) [OF assms(1,2) v(2) v(3) [rule_format]] queue_view_cong [of t v] by simp
qed

lemma ide_handler_idle: "queue_view P s [] \<Longrightarrow> ide_handler silent s = None"
  by (simp add: queue_view_def ide_handler_def acquire_idelock_def Let_def)

section \<open>The contract\<close>

text \<open>
  The steps of a driver: a request is taken, with its result; a request that was taken waits for the drive; an
  interrupt is served.  Requests of several callers may be between the first two at the same time.
\<close>

datatype 'b request = Submit 'b c_int | Await | Irq

inductive driver_trace ::
  "('b \<Rightarrow> 's \<Rightarrow> (c_int \<times> 's) option) \<Rightarrow> ('s \<Rightarrow> 's option) \<Rightarrow> ('s \<Rightarrow> 's option) \<Rightarrow> 's \<Rightarrow> 'b request list \<Rightarrow> 's \<Rightarrow> bool"
  for submit :: "'b \<Rightarrow> 's \<Rightarrow> (c_int \<times> 's) option" and await handler :: "'s \<Rightarrow> 's option" where
  trace_nil: "driver_trace submit await handler s [] s"
| trace_submit: "submit b s = Some (r, u) \<Longrightarrow> driver_trace submit await handler u es t \<Longrightarrow>
    driver_trace submit await handler s (Submit b r # es) t"
| trace_await: "await s = Some u \<Longrightarrow> driver_trace submit await handler u es t \<Longrightarrow> driver_trace submit await handler s (Await # es) t"
| trace_irq: "handler s = Some u \<Longrightarrow> driver_trace submit await handler u es t \<Longrightarrow> driver_trace submit await handler s (Irq # es) t"

inductive_cases trace_nilE: "driver_trace submit await handler s [] t"
inductive_cases trace_submitE: "driver_trace submit await handler s (Submit b r # es) t"
inductive_cases trace_awaitE: "driver_trace submit await handler s (Await # es) t"
inductive_cases trace_irqE: "driver_trace submit await handler s (Irq # es) t"

text \<open>
  The specification: an accepted request goes to the end of the queue, an interrupt finishes the first, waiting
  changes nothing.  A client must not submit a request that is still queued, and no interrupt comes when none is.
\<close>

fun fifo_run :: "'b list \<Rightarrow> 'b request list \<Rightarrow> 'b list option" where
  "fifo_run xs [] = Some xs"
| "fifo_run xs (Submit b r # es) =
    (if r \<noteq> 0 then fifo_run xs es else if b \<in> set xs then None else fifo_run (xs @ [b]) es)"
| "fifo_run xs (Await # es) = fifo_run xs es"
| "fifo_run [] (Irq # es) = None"
| "fifo_run (x # xs) (Irq # es) = fifo_run xs es"

primrec submitted :: "'b request \<Rightarrow> 'b set" where
  "submitted (Submit b r) = {b}"
| "submitted Await = {}"
| "submitted Irq = {}"

locale request_queue =
  fixes view :: "'s \<Rightarrow> 'b list \<Rightarrow> bool"
    and submit :: "'b \<Rightarrow> 's \<Rightarrow> (c_int \<times> 's) option"
    and await :: "'s \<Rightarrow> 's option"
    and handler :: "'s \<Rightarrow> 's option"
    and pool :: "'b set"
  assumes submit_accepted: "view s xs \<Longrightarrow> b \<in> pool \<Longrightarrow> b \<notin> set xs \<Longrightarrow> submit b s = Some (0, t) \<Longrightarrow> view t (xs @ [b])"
    and submit_refused: "view s xs \<Longrightarrow> submit b s = Some (r, t) \<Longrightarrow> r \<noteq> 0 \<Longrightarrow> view t xs"
    and await_keeps: "view s xs \<Longrightarrow> await s = Some t \<Longrightarrow> view t xs"
    and handler_pops: "view s (x # xs) \<Longrightarrow> handler s = Some t \<Longrightarrow> view t xs"
begin

lemma refines_fifo:
  assumes "driver_trace submit await handler s es t" "view s xs" "\<Union> (submitted ` set es) \<subseteq> pool" "fifo_run xs es = Some ys"
  shows "view t ys"
  using assms
proof (induction arbitrary: xs rule: driver_trace.induct)
  case (trace_submit b s r u es t)
  then show ?case
    by (cases "r = 0") (auto split: if_splits dest: submit_accepted submit_refused)
next
  case (trace_await s u es t)
  then show ?case by (auto dest: await_keeps)
next
  case (trace_irq s u es t)
  then show ?case by (cases xs) (auto dest: handler_pops)
qed simp

end

definition ide_queue :: "u32 set \<Rightarrow> 'a ide_state_scheme \<Rightarrow> u32 list \<Rightarrow> bool" where
  "ide_queue P s xs \<longleftrightarrow> disk_buffers P \<and> queue_view P s xs"

text \<open>The driver keeps the contract on every pool of buffers.\<close>

interpretation ide_fifo: request_queue "ide_queue P" "ide_submit silent" "ide_await silent" "ide_handler silent" P
  for P
  by unfold_locales (auto simp: ide_queue_def intro: ide_submit_silent ide_await_silent ide_handler_silent dest: ide_submit_refused)

text \<open>The whole handler, for a drive that reports no error.\<close>

lemma ide_handler_done:
  assumes "ide_queue P s (x # xs)" "idelock s = 0" "ready_at (io_in s) n" "\<not> failed (io_in s n)"
    and "d = (if b_flags (mem s) x AND B_DIRTY = 0 then 262 else 6)"
    and "xs \<noteq> [] \<Longrightarrow> b_dev (mem s) (hd xs) \<noteq> 0 \<and> ready_at (\<lambda>i. io_in s (n + d + i)) k"
  shows "\<exists>t. ide_handler pf s = Some t \<and> ide_queue P t xs \<and> idelock t = 0 \<and>
    b_flags (mem t) x = (b_flags (mem s) x OR B_VALID) AND NOT B_DIRTY \<and>
    (b_flags (mem s) x AND B_DIRTY = 0 \<longrightarrow> (\<forall>i<256. load32 (mem t) (b_data x + of_nat (4 * i)) = io_in s (n + 1 + i))) \<and>
    (\<forall>a. 1044 \<le> off x a \<longrightarrow> mem t a = mem s a) \<and>
    (xs \<noteq> [] \<longrightarrow> (\<exists>l. io_log t = l @ ide_cmds (mem t) (hd xs)))"
proof -
  have q: "disk_buffers P" "queue_view P s (x # xs)" using assms(1) by (simp_all add: ide_queue_def)
  then have x: "idequeue s = x" "x \<noteq> 0" "x \<notin> set xs" "set xs \<subseteq> P" "0 \<notin> P" by (auto simp: queue_view_def disk_buffers_def)
  obtain w where w: "ide_handler pf s = do {
      t \<leftarrow> (if idequeue w \<noteq> 0 then ide_op pf (idequeue w) w else Some w); Some (release_idelock t) }"
    "idequeue w = b_q (mem s) x" "\<forall>a. 1044 \<le> off x a \<longrightarrow> mem w a = mem s a"
    "b_flags (mem w) x = (b_flags (mem s) x OR B_VALID) AND NOT B_DIRTY" "io_in w = (\<lambda>k. io_in s (n + d + k))"
    "b_flags (mem s) x AND B_DIRTY = 0 \<longrightarrow> (\<forall>i<256. load32 (mem w) (x + 20 + of_nat (4 * i)) = io_in s (Suc n + i))"
    unfolding assms(5) by (rule ide_handler_steps [OF assms(2) x(1,2) assms(3,4), of pf])
  note v = queue_view_tail [OF q w(2) w(3) [rule_format]]
  obtain t where t: "ide_handler pf s = Some t" "mem t = mem w" "idequeue t = idequeue w" "idelock t = 0"
      "xs \<noteq> [] \<longrightarrow> (\<exists>l. io_log t = l @ ide_cmds (mem w) (hd xs))"
  proof (cases xs)
    case Nil
    then have "idequeue w = 0" using v(1) by (simp add: queue_view_def)
    then show thesis using Nil by (intro that [of "release_idelock w"]) (simp_all add: w(1))
  next
    case (Cons y ys)
    then have y: "idequeue w = y" "y \<noteq> 0" "y \<in> P" "y \<noteq> x" using v(1) x(3-5) by (auto simp: queue_view_def)
    then have "b_dev (mem w) y \<noteq> 0" using same_buf_fields(2) [OF v(2) [of y]] assms(6) Cons by simp
    moreover have "ready_at (io_in w) k" using assms(6) Cons w(5) by simp
    ultimately have "ide_op pf y w = Some ((polled (Suc k) w)\<lparr>io_log := io_log (polled (Suc k) w) @ ide_cmds (mem w) y\<rparr>)" (is "_ = Some ?u")
      using ide_op_eq [of y w k pf] y(2) by simp
    then show thesis using y Cons by (intro that [of "release_idelock ?u"]) (simp_all add: w(1))
  qed
  moreover have "ide_queue P t xs" using v(1) q(1) queue_view_cong [OF t(2,3)] by (simp add: ide_queue_def)
  ultimately show ?thesis using t w(3,4,6) by (intro exI [of _ t]) (simp add: b_data_def)
qed

section \<open>A drive with two buffers\<close>

definition ide0 :: ide_state where
  "ide0 = \<lparr>mem = (\<lambda>_. 0)(0x10004 := 1, 0x10008 := 5, 0x20004 := 1, 0x20008 := 7), indet = 7,
     MM_CURRENT_PD = 0xC0110000, MM_CURRENT_PT = 0xC0114000, MM_HEAP = 0xC0118000,
     KERNEL_PAGE_DIRECTORY = 0xC0108000, CURRENT_PAGE_DIRECTORY = 0xC0108000, cr3 = 0x108000, invlpg = [],
     BLOCKCHAIN_START = 0xC010A000, BLOCKS_ALLOCATED = 0, blockchain = 0, K_HEAP_TOP = 0xC0310000,
     K_LAST_ALLOC = 0xC0300000, memlock = 0, io_log = [], io_in = (\<lambda>_. 0x40),
     CURRENT_X = 0, CURRENT_Y = 0, CURRENT_ATTRIB = 7, irqmask = irqmask_init,
     idelock = 0, idequeue = 0, IDE_STATUS = 1, cache_lock = 0, cache_list = 0\<rparr>"

definition pool0 :: "u32 set" where
  "pool0 = {0x10000, 0x20000}"

lemma ide0_pool: "disk_buffers pool0" "ide_queue pool0 ide0 []"
proof -
  have "region 0x10000 1044 \<inter> region 0x20000 1044 = {}" by (auto simp: off_unat split: if_splits)
  then show "disk_buffers pool0" by (auto simp: disk_buffers_def pool0_def)
  then show "ide_queue pool0 ide0 []" by (simp add: ide_queue_def queue_view_def ide0_def)
qed

lemma ready_0x40: "ready 0x40" "\<not> failed 0x40" "ready_at (\<lambda>_. 0x40) 0"
  by (simp_all add: ready_def failed_def ready_at_def IDE_BSY_def IDE_RDY_def IDE_DF_def IDE_ERR_def)

lemma ide0_fields:
  "b_flags (mem ide0) 0x10000 = 0" "b_dev (mem ide0) 0x10000 = 1" "b_flags (mem ide0) 0x20000 = 0" "b_dev (mem ide0) 0x20000 = 1"
  by (simp_all add: ide0_def b_flags_def b_dev_def load32_def)

lemma ide0_request:
  assumes "queue_view pool0 s xs" "io_in s = (\<lambda>_. 0x40)" "b \<in> pool0" "b \<notin> set xs"
    and "\<forall>c\<in>pool0. b_flags (mem s) c = 0 \<and> b_dev (mem s) c = 1"
  shows "\<exists>t. ide_rw pf b s = Some (0, t) \<and> queue_view pool0 t (xs @ [b]) \<and> io_in t = (\<lambda>_. 0x40) \<and> idelock t = idelock s \<and>
    (\<forall>c\<in>pool0. b_flags (mem t) c = 0 \<and> b_dev (mem t) c = 1)"
  using ide_rw_done [OF ide0_pool(1) assms(1,3,4), of 0 0 pf] assms(2,3,5) ready_0x40
  by (auto simp: B_VALID_def)

lemma ide0_two_requests:
  "\<exists>t u. ide_rw silent 0x10000 ide0 = Some (0, t) \<and> ide_rw silent 0x20000 t = Some (0, u) \<and>
    ide_queue pool0 u [0x10000, 0x20000] \<and> io_in u = (\<lambda>_. 0x40) \<and> idelock u = 0 \<and>
    b_flags (mem u) 0x10000 = 0 \<and> b_dev (mem u) 0x20000 = 1"
proof -
  have f: "\<forall>c\<in>pool0. b_flags (mem ide0) c = 0 \<and> b_dev (mem ide0) c = 1" by (simp add: pool0_def ide0_fields)
  have i: "io_in ide0 = (\<lambda>_. 0x40)" "idelock ide0 = 0" by (simp_all add: ide0_def)
  obtain t where t: "ide_rw silent 0x10000 ide0 = Some (0, t)" "queue_view pool0 t [0x10000]" "io_in t = (\<lambda>_. 0x40)"
      "idelock t = 0" "\<forall>c\<in>pool0. b_flags (mem t) c = 0 \<and> b_dev (mem t) c = 1"
    using ide0_request [of ide0 "[]" "0x10000" silent] ide0_pool(2) f i by (auto simp: pool0_def ide_queue_def)
  then obtain u where "ide_rw silent 0x20000 t = Some (0, u)" "queue_view pool0 u [0x10000, 0x20000]" "io_in u = (\<lambda>_. 0x40)"
      "idelock u = 0" "\<forall>c\<in>pool0. b_flags (mem u) c = 0 \<and> b_dev (mem u) c = 1"
    using ide0_request [of t "[0x10000]" "0x20000" silent] by (auto simp: pool0_def)
  then show ?thesis using t(1) ide0_pool(1) by (auto simp: ide_queue_def pool0_def)
qed

section \<open>Properties\<close>

text \<open>
  What an interrupt does between the loop and the store of \<^verbatim>\<open>ide_rw\<close>, which takes no lock: the handler takes the
  only request away, the store goes to the \<^verbatim>\<open>q\<close> pointer of the finished buffer, and the new request is in no queue.
\<close>

lemma ide_rw_race:
  assumes "ide_queue P s [x]" "b \<in> P" "b \<noteq> x" "idelock s = 0" "ready_at (io_in s) n" "\<not> failed (io_in s n)"
  shows "\<exists>pp t. queue_walk (set_word (b + 16) 0 s) = Some pp \<and> ide_handler pf (set_word (b + 16) 0 s) = Some t \<and>
    ide_queue P (queue_link pp b t) [] \<and> idequeue (queue_link pp b t) = 0"
proof -
  let ?s = "set_word (b + 16) 0 s"
  have q: "disk_buffers P" "idequeue s = x" "x \<noteq> 0" "x \<in> P" "b_q (mem s) x = 0"
    using assms(1) by (auto simp: ide_queue_def queue_view_def)
  have "b_q (mem ?s) x = 0" using store_q_pool(4) [OF q(1) assms(2) q(4)] q(5) assms(3) by (simp add: set_word_def)
  then have v: "ide_queue P ?s [x]" "queue_walk ?s = Some x"
    using q by (simp_all add: ide_queue_def queue_view_def queue_walk_def set_word_def queue_last.simps)
  obtain t where t: "ide_handler pf ?s = Some t" "ide_queue P t []"
    using ide_handler_done [OF v(1), of n _ 0 pf] assms(4-6) by (auto simp: set_word_def)
  then have "idequeue t = 0" by (simp add: ide_queue_def queue_view_def)
  then show ?thesis using v(2) t q(1,3) by (simp add: queue_link_def ide_queue_def queue_view_def set_word_def)
qed

text \<open>
  C2. The disk driver refines a first-in first-out queue: in every sequence of requests taken, waits for the drive and
  interrupts, in any order, in which no assertion of the driver fails, no buffer is submitted that is still queued
  and no interrupt comes while the queue is empty, the buffers chained in memory are those the abstract queue holds.
  Taking a request, from the test of its flags to the command to the controller, is one step of such a sequence, and
  so is an interrupt.
\<close>

theorem ide_refines_fifo:
  assumes "ide_queue P s xs" "driver_trace (ide_submit silent) (ide_await silent) (ide_handler silent) s es t"
    and "\<Union> (submitted ` set es) \<subseteq> P" "fifo_run xs es = Some ys"
  shows "ide_queue P t ys"
  using ide_fifo.refines_fifo [OF assms(2,1,3,4)] .

theorem ide_refines_fifo_witness:
  "\<exists>t. driver_trace (ide_submit silent) (ide_await silent) (ide_handler silent) ide0
      [Submit 0x10000 0, Await, Submit 0x20000 0, Irq] t \<and>
    ide_queue pool0 t [0x20000]"
proof -
  have f: "\<forall>c\<in>pool0. b_flags (mem ide0) c = 0 \<and> b_dev (mem ide0) c = 1" by (simp add: pool0_def ide0_fields)
  have i: "io_in ide0 = (\<lambda>_. 0x40)" "idelock ide0 = 0" by (simp_all add: ide0_def)
  obtain t where t: "ide_rw silent 0x10000 ide0 = Some (0, t)" "queue_view pool0 t [0x10000]" "io_in t = (\<lambda>_. 0x40)"
      "idelock t = 0" "\<forall>c\<in>pool0. b_flags (mem t) c = 0 \<and> b_dev (mem t) c = 1"
    using ide0_request [of ide0 "[]" "0x10000" silent] ide0_pool(2) f i by (auto simp: pool0_def ide_queue_def)
  obtain s1 where s1: "ide_submit silent 0x10000 ide0 = Some (0, s1)" "ide_await silent s1 = Some t"
    using t(1) by (auto simp: ide_rw_def split: bind_splits if_splits)
  obtain m where m: "queue_append 0x20000 (set_word 0x20010 0 t) = Some (t\<lparr>mem := m, idequeue := idequeue t\<rparr>)"
      "qlist m (idequeue t) [0x10000, 0x20000]" "idequeue t \<noteq> 0x20000"
      "\<forall>c\<in>pool0. b_flags m c = 0 \<and> b_dev m c = 1"
    using queue_append_view [OF ide0_pool(1) t(2), of "0x20000"] t(5) by (auto simp: pool0_def)
  let ?u = "t\<lparr>mem := m, idequeue := idequeue t\<rparr>"
  have s2: "ide_submit silent 0x20000 t = Some (0, ?u)"
    using m(1,3) t(5) by (simp add: ide_submit_def pool0_def B_VALID_def)
  have u: "ide_queue pool0 ?u [0x10000, 0x20000]" using m(2) ide0_pool(1) by (simp add: ide_queue_def queue_view_def pool0_def)
  obtain v where v: "ide_handler silent ?u = Some v"
    using ide_handler_done [OF u, of 0 _ 0 silent] t(3,4) m(4) ready_0x40 by (auto simp: pool0_def)
  have tr: "driver_trace (ide_submit silent) (ide_await silent) (ide_handler silent) ide0 [Submit 0x10000 0, Await, Submit 0x20000 0, Irq] v"
    by (rule trace_submit, rule s1(1), rule trace_await, rule s1(2), rule trace_submit, rule s2, rule trace_irq, rule v, rule trace_nil)
  have "ide_queue pool0 v [0x20000]"
    by (rule ide_refines_fifo [OF ide0_pool(2) tr]) (auto simp: pool0_def)
  with tr show ?thesis by blast
qed

text \<open>
  C6. An interrupt finishes the first request: when the drive reports no error, the handler returns with the
  lock free and that buffer taken from the queue, marked valid and clean, filled with the 256 words the drive
  sends if it was not to be written; no byte outside the buffer changes, and the next request, if there is one,
  is sent to the controller.
\<close>

theorem ide_handler_completes:
  assumes "ide_queue P s (x # xs)" "idelock s = 0" "ready_at (io_in s) n" "\<not> failed (io_in s n)"
    and "d = (if b_flags (mem s) x AND B_DIRTY = 0 then 262 else 6)"
    and "xs \<noteq> [] \<Longrightarrow> b_dev (mem s) (hd xs) \<noteq> 0 \<and> ready_at (\<lambda>i. io_in s (n + d + i)) k"
  shows "\<exists>t. ide_handler pf s = Some t \<and> ide_queue P t xs \<and> idelock t = 0 \<and>
    b_flags (mem t) x = (b_flags (mem s) x OR B_VALID) AND NOT B_DIRTY \<and>
    (b_flags (mem s) x AND B_DIRTY = 0 \<longrightarrow> (\<forall>i<256. load32 (mem t) (b_data x + of_nat (4 * i)) = io_in s (n + 1 + i))) \<and>
    (\<forall>a. 1044 \<le> off x a \<longrightarrow> mem t a = mem s a) \<and>
    (xs \<noteq> [] \<longrightarrow> (\<exists>l. io_log t = l @ ide_cmds (mem t) (hd xs)))"
  using ide_handler_done [OF assms] .

theorem ide_handler_completes_witness:
  "\<exists>(s :: ide_state) t. ide_queue pool0 s [0x10000, 0x20000] \<and> ide_handler silent s = Some t \<and> ide_queue pool0 t [0x20000] \<and>
    b_flags (mem t) 0x10000 = B_VALID \<and> load32 (mem t) 0x10014 = 0x40"
proof -
  obtain u :: ide_state where u: "ide_queue pool0 u [0x10000, 0x20000]" "io_in u = (\<lambda>_. 0x40)" "idelock u = 0"
      "b_flags (mem u) 0x10000 = 0" "b_dev (mem u) 0x20000 = 1"
    using ide0_two_requests by blast
  obtain v where v: "ide_handler silent u = Some v" "ide_queue pool0 v [0x20000]"
      "b_flags (mem v) 0x10000 = (b_flags (mem u) 0x10000 OR B_VALID) AND NOT B_DIRTY"
      "\<forall>i<256. load32 (mem v) (b_data 0x10000 + of_nat (4 * i)) = 0x40"
    using ide_handler_completes [OF u(1,3), of 0 262 0 silent] u(2,4,5) ready_0x40 by auto
  have "load32 (mem v) 0x10014 = 0x40" using v(4) [rule_format, of 0] by (simp add: b_data_def)
  then show ?thesis using u v by (auto simp: B_VALID_def B_DIRTY_def)
qed

text \<open>
  C30. Waiting for the drive ends exactly when the drive at some time answers ready and not busy; it then reads
  the status up to the first such answer, changes nothing but the port, and returns \<open>-1\<close> only if asked to check
  and that answer shows a fault or an error.
\<close>

theorem ide_wait_exact:
  "ide_wait c s =
    (if \<exists>n. ready (io_in s n)
     then let n = LEAST n. ready (io_in s n) in Some (if c \<noteq> 0 \<and> failed (io_in s n) then - 1 else 0, polled (Suc n) s)
     else None)"
proof (cases "\<exists>n. ready (io_in s n)")
  case True
  then have "ready_at (io_in s) (LEAST n. ready (io_in s n))" using ready_at_exists by blast
  from ide_wait_ready_at [OF this, of c] show ?thesis using True by (simp add: Let_def)
next
  case False
  then show ?thesis using ide_wait_ends [of c s] by (cases "ide_wait c s") auto
qed

text \<open>
  C31. What the controller is told: two sectors, the low 28 bits of twice the block number in the address
  registers, linear addressing and the drive of the buffer in the upper half of the head register, and the command;
  a buffer to be written follows word by word.  The comments in the source speak of one sector.
\<close>

theorem ide_op_command:
  assumes "b \<noteq> 0" "b_dev (mem s) b \<noteq> 0" "ready_at (io_in s) n"
  shows "\<exists>t low mid high head. ide_op pf b s = Some t \<and> mem t = mem s \<and>
    io_log t = io_log (polled (Suc n) s) @
      [Outb 0x3F6 0, Outb 0x1F2 2, Outb 0x1F3 low, Outb 0x1F4 mid, Outb 0x1F5 high, Outb 0x1F6 head] @
      (if b_flags (mem s) b AND B_DIRTY \<noteq> 0
       then Outb 0x1F7 0xC5 # map (\<lambda>i. Outl 0x1F0 (load32 (mem s) (b_data b + of_nat (4 * i)))) [0..<256]
       else [Outb 0x1F7 0xC4]) \<and>
    unat low + 2 ^ 8 * unat mid + 2 ^ 16 * unat high + 2 ^ 24 * unat (head AND 0xF) = unat (2 * b_block (mem s) b) mod 2 ^ 28 \<and>
    head AND 0xE0 = 0xE0 \<and> bit head 4 = odd (b_dev (mem s) b)"
proof -
  let ?c = "b_block (mem s) b * 2"
  let ?h = "0xE0 OR push_bit 4 (ucast (b_dev (mem s) b) AND 1) OR (ucast (drop_bit 24 ?c) AND 0xF) :: u8"
  have "?h AND 0xF = ucast (drop_bit 24 ?c) AND 0xF" by (rule ide_head_low)
  note sum = sector_bytes [OF this]
  have dev: "bit ?h 4 = odd (b_dev (mem s) b)"
    using ide_head_dev [of "ucast (b_dev (mem s) b)" "ucast (drop_bit 24 ?c)"] by (simp add: even_word_iff bit_simps flip: bit_0)
  show ?thesis
    unfolding ide_op_eq [OF assms]
    by (rule exI, rule exI [of _ "ucast ?c"], rule exI [of _ "ucast (drop_bit 8 ?c)"], rule exI [of _ "ucast (drop_bit 16 ?c)"],
        rule exI [of _ ?h], intro conjI, rule refl)
      (use sum dev ide_head_mode in \<open>simp_all add: ide_cmds_def ide_words_def Let_def b_data_def mult.commute [of 2] del: upt_rec_numeral\<close>)
qed

theorem ide_op_command_witness:
  "\<exists>t low mid high head. ide_op silent 0x10000 ide0 = Some t \<and>
    io_log t = [Inb 0x1F7 0x40, Outb 0x3F6 0, Outb 0x1F2 2, Outb 0x1F3 low, Outb 0x1F4 mid, Outb 0x1F5 high, Outb 0x1F6 head, Outb 0x1F7 0xC4] \<and>
    unat low + 2 ^ 8 * unat mid + 2 ^ 16 * unat high + 2 ^ 24 * unat (head AND 0xF) = 10 \<and> head AND 0xE0 = 0xE0 \<and> bit head 4"
proof -
  have r: "ready_at (io_in ide0) 0" using ready_0x40(3) by (simp add: ide0_def)
  have b: "b_block (mem ide0) 0x10000 = 5" by (simp add: ide0_def b_block_def load32_def)
  have l: "io_log (polled (Suc 0) ide0) = [Inb 0x1F7 0x40]" by (simp add: polled_def ide0_def)
  show ?thesis
    using ide_op_command [of "0x10000" ide0 0 silent, OF _ _ r] unfolding b l
    by (simp add: ide0_fields) blast
qed

text \<open>Printing leaves the driver's own variables alone.\<close>

lemma print_idelock:
  fixes s t :: "'a ide_state_scheme"
  assumes "print lit buf ap fmt args s = Some t"
  shows "idelock t = idelock s"
  using print_more [OF assms] by (cases s; cases t) simp

text \<open>
  C32. A spurious interrupt locks the driver up: with an empty queue the handler prints its assertion with the
  kernel's \<^verbatim>\<open>printf\<close>, and if it returns it does so with the lock still held, since it releases the queue pointer
  instead; the next interrupt never returns.
\<close>

theorem ide_spurious_deadlock:
  assumes "idequeue s = 0" "ide_handler (print lit buf ap) s = Some t"
  shows "idelock t = 1 \<and> idequeue t = 0 \<and> ide_handler (print lit buf ap) t = None"
proof -
  let ?s = "s\<lparr>idelock := 1\<rparr>"
  have "idelock s = 0" using assms(2) by (auto simp: ide_handler_def acquire_idelock_def split: if_splits)
  then obtain v where v: "assert (print lit buf ap) (ide_line 102 ''ide_handler'') ''b'' False ?s = Some v" "t = v\<lparr>idequeue := 0\<rparr>"
    using assms by (auto simp: ide_handler_def acquire_idelock_def Let_def split: bind_splits)
  then have "idelock v = 1" using print_idelock [of lit buf ap _ _ ?s v] by (simp add: assert_def)
  then show ?thesis using v(2) by (simp add: ide_handler_def acquire_idelock_def)
qed

text \<open>A message of empty strings, which all lie at one zero byte: the printer allocates its buffer and gives it back.\<close>

definition ide1 :: ide_state where
  "ide1 = ide0\<lparr>idelock := 1, mem := push_args (mem ide0) 0x3000 [0x1000, 0x1000, 102, 0x1000]\<rparr>"

lemma ide1_malloc: "malloc 256 ide1 = Some (0xC0300000, ide1\<lparr>mem := store32 (mem ide1) 0xC010A000 0x80000100, BLOCKS_ALLOCATED := 1,
    blockchain := 0xC010A000, K_LAST_ALLOC := 0xC0300100\<rparr>)"
  by (simp add: ide1_def ide0_def malloc_def malloc_with_def acquire_memlock_def release_memlock_def find_best_free_def best_free_loop.simps
      blockchain_add_def Let_def MAX_BLOCKS_def del: push_args.simps)

lemma ide1_print: "\<exists>v. print (\<lambda>_. 0x1000) 0x2000 0x3000 fmt [PS a, PS b, PW 102, PS c] (ide0\<lparr>idelock := 1\<rparr>) = Some v"
proof -
  define t where "t = ide1\<lparr>mem := store32 (mem ide1) 0xC010A000 0x80000100, BLOCKS_ALLOCATED := 1,
    blockchain := 0xC010A000, K_LAST_ALLOC := 0xC0300100\<rparr>"
  define m where "m = fst (memset (fst (memset (mem t) 0x2000 0 256)) 0xC0300000 0 256)"
  have m: "m x = (if off 0xC0300000 x < 256 \<or> off 0x2000 x < 256 then 0 else mem t x)" for x by (simp add: m_def memset_at)
  have t: "mem t 0x1000 = 0" "BLOCKCHAIN_START t = 0xC010A000" "BLOCKS_ALLOCATED t = 1" "K_LAST_ALLOC t = 0xC0300100" "memlock t = 0"
    by (simp_all add: t_def ide1_def ide0_def store32_def)
  have z: "m 0x1000 = 0" "m 0x2000 = 0" by (simp_all add: m t off_unat)
  have "load32 m 0xC010A000 = load32 (mem t) 0xC010A000" by (simp add: load32_def m off_unat)
  then have b: "load32 m 0xC010A000 = 0x80000100" by (simp add: t_def)
  have f: "find_block 0xC0300000 (t\<lparr>mem := m, memlock := 1\<rparr>) = 0xC010A000"
    by (simp add: find_block_def t b K_HEAP_BOTTOM_def block_size_def)
  let ?u = "t\<lparr>mem := store32 m 0xC010A000 0x100\<rparr>"
  have fr: "free 0xC0300000 (t\<lparr>mem := m\<rparr>) = Some (0xC0300000, ?u)"
    using f b t(5) by (simp add: free_def acquire_memlock_def release_memlock_def)
  have "vsn_loop 0x2000 256 0xC0300000 \<lparr>vformat = 0x1000, vap = 0x3000, vn = 0, vpad = 0, vflags = 0, vmem = m\<rparr> =
      Some \<lparr>vformat = 0x1000, vap = 0x3000, vn = 0, vpad = 0, vflags = 0, vmem = m\<rparr>"
    by (subst vsn_loop.simps) (simp add: z)
  then have v: "vsnprintf 0x2000 256 0x1000 0x3000 ide1 = Some (0, ?u)"
    using fr by (simp add: vsnprintf_def ide1_malloc flip: t_def m_def)
  have "mem ?u 0x2000 = 0" using z(2) by (simp add: store32_def)
  then have "vga_puts 0x2000 ?u = Some ?u" by (subst vga_puts.simps) simp
  moreover have "ide0\<lparr>idelock := 1, mem := push_args (mem (ide0\<lparr>idelock := 1\<rparr>)) 0x3000 (map (parg_word (\<lambda>_. 0x1000)) [PS a, PS b, PW 102, PS c])\<rparr> = ide1"
    by (simp add: ide1_def)
  ultimately show ?thesis using v unfolding print_def by (simp only: printf_def) simp
qed

theorem ide_spurious_deadlock_witness:
  "\<exists>t. ide_handler (print (\<lambda>_. 0x1000) 0x2000 0x3000) ide0 = Some t \<and> idelock t = 1 \<and>
    ide_handler (print (\<lambda>_. 0x1000) 0x2000 0x3000) t = None"
proof -
  let ?pf = "print (\<lambda>_. 0x1000) 0x2000 0x3000"
  obtain v where v: "?pf (''ASSERT FAILED: %s %s:%d:%s'' @ newline) [PS ''b'', PS ''drivers/ide.c'', PW 102, PS ''ide_handler''] (ide0\<lparr>idelock := 1\<rparr>) = Some v"
    using ide1_print by blast
  have i: "idequeue ide0 = 0" "idelock ide0 = 0" by (simp_all add: ide0_def)
  have "ide_handler ?pf ide0 = Some (v\<lparr>idequeue := 0\<rparr>)"
    using v i by (simp add: ide_handler_def acquire_idelock_def assert_def ide_line_def at_line_def Let_def)
  then show ?thesis using ide_spurious_deadlock [OF i(1)] by blast
qed

end
