(* ===== verification/Ext2_Props.thy ===== *)
theory Ext2_Props
  imports Ext2 Ide_Queue
begin

text \<open>
  Properties of the file system: where inodes lie, which bit of a bitmap is the first free one, and what
  reading a file through the block cache leaves in memory.
\<close>

section \<open>Inodes\<close>

lemma unat_inode:
  assumes "per_group \<noteq> 0"
  shows "unat (inode_group i per_group) = unat (i - 1) div unat per_group" "unat (inode_index i per_group) = unat (i - 1) mod unat per_group"
  by (simp_all add: inode_group_def inode_index_def unat_div unat_mod)

lemma unat_inode_place:
  assumes "unat index < 2 ^ 25"
  shows "unat (inode_block index) = unat index * 128 div 1024" "unat (inode_offset index) = unat index mod 8 * 128"
proof -
  have "unat (index * 128) = unat index * 128" using assms by (simp add: unat_word_ariths)
  then show "unat (inode_block index) = unat index * 128 div 1024"
    by (simp add: inode_block_def INODE_SIZE_def BLOCK_SIZE_def unat_div)
  have m: "unat (index mod 8) = unat index mod 8" by (simp add: unat_mod)
  have "unat index mod 8 < 8" by simp
  then have "unat (index mod 8 * 128) = unat index mod 8 * 128" by (simp add: unat_word_ariths m)
  then show "unat (inode_offset index) = unat index mod 8 * 128"
    by (simp add: inode_offset_def INODE_SIZE_def BLOCK_SIZE_def)
qed

section \<open>Bitmaps\<close>

lemma bit_test: "((w :: u32) XOR NOT 0) AND push_bit i 1 \<noteq> 0 \<longleftrightarrow> i < 32 \<and> \<not> bit w i"
proof -
  have "bit ((w XOR NOT 0) AND push_bit i 1) k \<longleftrightarrow> k = i \<and> i < 32 \<and> \<not> bit w i" for k
    by (auto simp: bit_simps)
  then show ?thesis by (auto simp: bit_eq_iff)
qed

lemma first_free_bit_Some:
  "first_free_bit w i k = Some j \<Longrightarrow> i \<le> j \<and> j < 32 \<and> \<not> bit w j \<and> (\<forall>l. i \<le> l \<and> l < j \<longrightarrow> bit w l)"
proof (induction k arbitrary: i)
  case (Suc k)
  show ?case
  proof (cases "i < 32 \<and> \<not> bit w i")
    case True
    then show ?thesis using Suc.prems unfolding first_free_bit.simps bit_test by auto
  next
    case False
    then have "first_free_bit w (Suc i) k = Some j" using Suc.prems unfolding first_free_bit.simps bit_test by (simp only: if_False)
    from Suc.IH [OF this] show ?thesis using False by (metis Suc_le_eq le_less less_trans not_less)
  qed
qed simp

lemma first_free_bit_None: "first_free_bit w i k = None \<Longrightarrow> i \<le> l \<Longrightarrow> l < i + k \<Longrightarrow> l < 32 \<Longrightarrow> bit w l"
proof (induction k arbitrary: i)
  case (Suc k)
  from Suc.prems(1) have "first_free_bit w (Suc i) k = None" "i < 32 \<longrightarrow> bit w i"
    unfolding first_free_bit.simps bit_test by (simp_all split: if_splits)
  then show ?case using Suc.IH [of "Suc i"] Suc.prems(2-4) by (cases "l = i") auto
qed simp

definition bitmap_bit :: "mem \<Rightarrow> u32 \<Rightarrow> nat \<Rightarrow> bool" where
  "bitmap_bit m b n \<longleftrightarrow> bit (load32 m (b + 4 * of_nat (n div 32))) (n mod 32)"

lemma bitmap_word: "i < 32 \<Longrightarrow> bitmap_bit m b (32 * q + i) = bit (load32 m (b + 4 * of_nat q)) i"
  by (simp add: bitmap_bit_def)

lemma bitmap_below:
  assumes "\<And>i. i < k \<Longrightarrow> bitmap_bit m b (32 * q + i)" "32 * q \<le> l" "l < 32 * q + k"
  shows "bitmap_bit m b l"
  using assms(1) [of "l - 32 * q"] assms(2,3) by simp

lemma ext_first_free_loop_spec:
  "case ext_first_free_loop m b (of_nat q) k of
     Some r \<Rightarrow> \<exists>n. r = of_nat n \<and> 32 * q \<le> n \<and> n < 32 * (q + k) \<and> \<not> bitmap_bit m b n \<and> (\<forall>l. 32 * q \<le> l \<and> l < n \<longrightarrow> bitmap_bit m b l)
   | None \<Rightarrow> \<forall>l. 32 * q \<le> l \<and> l < 32 * (q + k) \<longrightarrow> bitmap_bit m b l"
proof (induction k arbitrary: q)
  case (Suc k)
  let ?w = "load32 m (b + 4 * of_nat q)"
  show ?case
  proof (cases "first_free_bit ?w 0 32")
    case (Some i)
    note i = first_free_bit_Some [OF Some]
    have "bitmap_bit m b l" if "32 * q \<le> l" "l < 32 * q + i" for l
      by (rule bitmap_below [of i m b q]) (use that i in \<open>auto simp: bitmap_word\<close>)
    moreover have "\<not> bitmap_bit m b (32 * q + i)" using i by (simp add: bitmap_word)
    ultimately show ?thesis using Some i by (auto simp: add.commute mult.commute intro!: exI [of _ "32 * q + i"])
  next
    case None
    have w: "bitmap_bit m b l" if "32 * q \<le> l" "l < 32 * q + 32" for l
      by (rule bitmap_below [of 32 m b q]) (use that first_free_bit_None [OF None] in \<open>auto simp: bitmap_word\<close>)
    have e: "ext_first_free_loop m b (of_nat q) (Suc k) = ext_first_free_loop m b (of_nat (Suc q)) k"
      using None by (simp add: add.commute)
    show ?thesis
    proof (cases "ext_first_free_loop m b (of_nat (Suc q)) k")
      case None
      have "bitmap_bit m b l" if "32 * q \<le> l" "l < 32 * (q + Suc k)" for l
        using Suc.IH [of "Suc q"] None w [of l] that by (cases "l < 32 * q + 32") (auto simp: not_less)
      then show ?thesis unfolding e using None by simp
    next
      case (Some r)
      then obtain n where n: "r = of_nat n" "32 * Suc q \<le> n" "n < 32 * (Suc q + k)" "\<not> bitmap_bit m b n"
          "\<forall>l. 32 * Suc q \<le> l \<and> l < n \<longrightarrow> bitmap_bit m b l"
        using Suc.IH [of "Suc q"] by auto
      have "bitmap_bit m b l" if "32 * q \<le> l" "l < n" for l
        using n(5) w [of l] that by (cases "l < 32 * q + 32") (auto simp: not_less)
      then have "\<exists>n. r = of_nat n \<and> 32 * q \<le> n \<and> n < 32 * (q + Suc k) \<and> \<not> bitmap_bit m b n \<and>
          (\<forall>l. 32 * q \<le> l \<and> l < n \<longrightarrow> bitmap_bit m b l)"
        using n by (intro exI [of _ n]) auto
      then show ?thesis unfolding e using Some by simp
    qed
  qed
qed auto

section \<open>Reading through the cache\<close>

text \<open>The buffers the \<^verbatim>\<open>next\<close> pointers chain from \<open>p\<close> on.\<close>

fun clist :: "mem \<Rightarrow> u32 \<Rightarrow> u32 list \<Rightarrow> bool" where
  "clist m p [] \<longleftrightarrow> p = 0"
| "clist m p (x # xs) \<longleftrightarrow> p = x \<and> x \<noteq> 0 \<and> clist m (b_next m x) xs"

text \<open>The buffer of a block of disk 1.\<close>

definition buf_of :: "mem \<Rightarrow> u32 list \<Rightarrow> u32 \<Rightarrow> u32 option" where
  "buf_of m xs n = find (\<lambda>b. b_dev m b = 1 \<and> b_block m b = n) xs"

text \<open>The cache holds the buffers \<open>xs\<close>, all read from the disk and in use.\<close>

definition cache_view :: "'a ide_state_scheme \<Rightarrow> u32 list \<Rightarrow> bool" where
  "cache_view s xs \<longleftrightarrow> cache_lock s = 0 \<and> clist (mem s) (cache_list s) xs \<and>
    (\<forall>b\<in>set xs. b_flags (mem s) b AND B_BUSY \<noteq> 0 \<and> b_flags (mem s) b AND B_VALID \<noteq> 0)"

lemma cache_find_clist:
  "clist m p xs \<Longrightarrow> buf_of m xs n = Some b \<Longrightarrow> cache_find m 1 n p = Some b"
proof (induction xs arbitrary: p)
  case (Cons x xs)
  then show ?case by (subst cache_find.simps) (auto simp: buf_of_def split: if_splits)
qed (simp add: buf_of_def)

lemma buf_of_mem: "buf_of m xs n = Some b \<Longrightarrow> b \<in> set xs"
  by (auto simp: buf_of_def find_Some_iff)

lemma clist_nonzero: "clist m p xs \<Longrightarrow> b \<in> set xs \<Longrightarrow> b \<noteq> 0"
  by (induction xs arbitrary: p) auto

lemma cache_lock_0: "cache_lock s = 0 \<Longrightarrow> s\<lparr>cache_lock := 0\<rparr> = s"
  by (cases s) simp

text \<open>A resident block is found without touching the disk.\<close>

lemma buffer_read_cached:
  assumes "cache_view s xs" "buf_of (mem s) xs n = Some b"
  shows "buffer_read pf 1 n s = Some (b, s)"
proof -
  have b: "b \<noteq> 0" "b_flags (mem s) b AND B_BUSY \<noteq> 0" "b_flags (mem s) b AND B_VALID \<noteq> 0"
    using assms buf_of_mem [OF assms(2)] clist_nonzero by (auto simp: cache_view_def)
  have "cache_find (mem s) 1 n (cache_list s) = Some b" using assms cache_find_clist by (auto simp: cache_view_def)
  then have "buffer_get 1 n s = Some (b, s)"
    using assms(1) b cache_lock_0 [of s] by (simp add: buffer_get_def acquire_cache_def release_cache_def cache_view_def)
  then show ?thesis using b by (subst buffer_read.simps) simp
qed

lemma clist_cong: "(\<And>x. x \<in> set xs \<Longrightarrow> b_next m' x = b_next m x) \<Longrightarrow> clist m' p xs = clist m p xs"
  by (induction xs arbitrary: p) auto

lemma same_buf_next: "same_buf m m' b \<Longrightarrow> b_next m' b = b_next m b"
  using buf_word [of m m' b 12] by (simp add: b_next_def)

lemma cache_view_same:
  assumes "cache_view s xs" "cache_lock t = 0" "cache_list t = cache_list s" "\<And>b. b \<in> set xs \<Longrightarrow> same_buf (mem s) (mem t) b"
  shows "cache_view t xs" "buf_of (mem t) xs n = buf_of (mem s) xs n"
proof -
  show "cache_view t xs"
    using assms clist_cong [of xs "mem t" "mem s"] same_buf_next [OF assms(4)] same_buf_fields(1) [OF assms(4)]
    by (simp add: cache_view_def)
  have "find (\<lambda>b. b_dev (mem t) b = 1 \<and> b_block (mem t) b = n) xs = find (\<lambda>b. b_dev (mem s) b = 1 \<and> b_block (mem s) b = n) xs"
    by (rule find_cong) (use same_buf_fields(2,3) [OF assms(4)] in auto)
  then show "buf_of (mem t) xs n = buf_of (mem s) xs n" by (simp add: buf_of_def)
qed

section \<open>Reading a file\<close>

text \<open>
  Where the file system keeps block \<open>i\<close> of a file: the first twelve numbers are in the inode, the following in the
  block that the thirteenth number names.
\<close>

definition file_block :: "mem \<Rightarrow> u32 list \<Rightarrow> u32 \<Rightarrow> nat \<Rightarrow> u32" where
  "file_block m xs ino i =
    (if i < 12 then i_block m ino (of_nat i)
     else load32 m (b_data (the (buf_of m xs (i_block m ino 12))) + of_nat (i - 12) * 4))"

text \<open>
  The block of the file the loop copies to place \<open>i\<close>.  The iteration that fetches the indirect block reads no new
  number, so block 11 is copied again instead of block 12.
\<close>

definition read_index :: "nat \<Rightarrow> nat" where
  "read_index i = (if i = 12 then 11 else i)"

text \<open>The first \<open>num\<close> blocks of the file are in the cache, and the destination overlaps neither the cache nor the inode.\<close>

definition resident :: "mem \<Rightarrow> u32 list \<Rightarrow> u32 \<Rightarrow> u32 \<Rightarrow> nat \<Rightarrow> bool" where
  "resident m xs ino buf num \<longleftrightarrow> num \<le> 268 \<and> region buf (1024 * num) \<inter> region ino 128 = {} \<and>
    (\<forall>b\<in>set xs. region buf (1024 * num) \<inter> region b 1044 = {}) \<and>
    (\<forall>i<num. file_block m xs ino (read_index i) \<noteq> 0 \<and> buf_of m xs (file_block m xs ino (read_index i)) \<noteq> None) \<and>
    (12 < num \<longrightarrow> buf_of m xs (i_block m ino 12) \<noteq> None)"

definition block_data :: "mem \<Rightarrow> u32 list \<Rightarrow> u32 \<Rightarrow> nat \<Rightarrow> nat \<Rightarrow> u8" where
  "block_data m xs ino i j = m (b_data (the (buf_of m xs (file_block m xs ino (read_index i)))) + of_nat j)"

lemma i_block_same:
  assumes "\<And>a. off ino a < 128 \<Longrightarrow> m' a = m a" "k < 15"
  shows "i_block m' ino (of_nat k) = i_block m ino (of_nat k)"
proof -
  have e: "i_block_at ino (of_nat k) = ino + of_nat (40 + 4 * k)" by (simp add: i_block_at_def algebra_simps)
  show ?thesis unfolding i_block_def e
  proof (rule c32.ld_cong)
    fix a assume "off (ino + of_nat (40 + 4 * k)) a < 4"
    then have "off ino a < 128" using region_sub [of "40 + 4 * k" 4 128 ino] assms(2) by (auto simp del: of_nat_add)
    then show "m' a = m a" by (rule assms(1))
  qed
qed

text \<open>One iteration of the copy.\<close>

lemma mem_copy_block:
  assumes "i < num" "num \<le> 268" "region buf (1024 * num) \<inter> region b 1044 = {}"
  shows "mem (mem_copy (buf + of_nat i * BLOCK_SIZE) (b_data b) BLOCK_SIZE t) a =
    (if off (buf + of_nat (1024 * i)) a < 1024 then mem t (b_data b + (a - (buf + of_nat (1024 * i)))) else mem t a)"
proof -
  have e: "buf + of_nat i * BLOCK_SIZE = buf + of_nat (1024 * i)" by (simp add: BLOCK_SIZE_def mult.commute)
  have "region (buf + of_nat (1024 * i)) 1024 \<subseteq> region buf (1024 * num)" using assms(1,2) by (intro region_sub) auto
  moreover have "region (b_data b) 1024 \<subseteq> region b 1044" using region_sub [of 20 1024 1044 b] by (simp add: b_data_def)
  ultimately have "region (buf + of_nat (1024 * i)) (unat (1024 :: u32)) \<inter> region (b_data b) (unat (1024 :: u32)) = {}"
    using assms(3) by auto
  from memcpy_at [OF this] show ?thesis unfolding mem_copy_def e by (simp add: BLOCK_SIZE_def)
qed

text \<open>What holds when \<open>i\<close> blocks have been copied: the rest of memory is as at the start.\<close>

definition copied :: "'a ide_state_scheme \<Rightarrow> u32 list \<Rightarrow> u32 \<Rightarrow> u32 \<Rightarrow> nat \<Rightarrow> nat \<Rightarrow> 'a ide_state_scheme \<Rightarrow> bool" where
  "copied s xs ino buf num i t \<longleftrightarrow> cache_lock t = 0 \<and> cache_list t = cache_list s \<and>
    (\<forall>a. 1024 * num \<le> off buf a \<longrightarrow> mem t a = mem s a) \<and>
    (\<forall>k<i. \<forall>j<1024. mem t (buf + of_nat (1024 * k + j)) = block_data (mem s) xs ino k j)"

lemma disjoint_outside:
  assumes "region d N \<inter> region b n = {}" "off b a < n"
  shows "N \<le> off d a"
proof (rule ccontr)
  assume "\<not> N \<le> off d a"
  then have "a \<in> region d N \<inter> region b n" using assms(2) by simp
  then show False using assms(1) by blast
qed

lemma copied_same:
  assumes "cache_view s xs" "resident (mem s) xs ino buf num" "copied s xs ino buf num i t"
  shows "cache_view t xs" "buf_of (mem t) xs n = buf_of (mem s) xs n" "b \<in> set xs \<Longrightarrow> same_buf (mem s) (mem t) b"
    "k < 15 \<Longrightarrow> i_block (mem t) ino (of_nat k) = i_block (mem s) ino (of_nat k)"
proof -
  have sb: "same_buf (mem s) (mem t) b" if "b \<in> set xs" for b
    using assms(2,3) that disjoint_outside [of buf "1024 * num" b 1044] unfolding same_buf_def resident_def copied_def by blast
  then show "b \<in> set xs \<Longrightarrow> same_buf (mem s) (mem t) b" .
  show "cache_view t xs" "buf_of (mem t) xs n = buf_of (mem s) xs n"
    using cache_view_same [OF assms(1) _ _ sb] assms(3) by (auto simp: copied_def)
  have "mem t a = mem s a" if "off ino a < 128" for a
    using assms(2,3) that disjoint_outside [of buf "1024 * num" ino 128] unfolding resident_def copied_def by blast
  then show "k < 15 \<Longrightarrow> i_block (mem t) ino (of_nat k) = i_block (mem s) ino (of_nat k)" by (rule i_block_same)
qed

lemma copied_step:
  assumes "cache_view s xs" "resident (mem s) xs ino buf num" "copied s xs ino buf num i t" "i < num"
    and "buf_of (mem s) xs (file_block (mem s) xs ino (read_index i)) = Some b"
  shows "copied s xs ino buf num (Suc i) (mem_copy (buf + of_nat i * BLOCK_SIZE) (b_data b) BLOCK_SIZE t)"
proof -
  note c = copied_same [OF assms(1-3)]
  have n: "num \<le> 268" "region buf (1024 * num) \<inter> region b 1044 = {}"
    using assms(2) buf_of_mem [OF assms(5)] by (auto simp: resident_def)
  note mc = mem_copy_block [OF assms(4) n, of t]
  have out: "\<not> off (buf + of_nat (1024 * i)) a < 1024" if "1024 * num \<le> off buf a" for a
    using region_sub [of "1024 * i" 1024 "1024 * num" buf] assms(4) n(1) that by auto
  have src: "mem t (b_data b + of_nat j) = mem s (b_data b + of_nat j)" if "j < 1024" for j
  proof -
    have e: "b_data b + of_nat j = b + of_nat (20 + j)" by (simp add: b_data_def)
    have "off b (b + of_nat (20 + j)) = 20 + j" by (rule off_add_nat) (use that in simp)
    then have "off b (b_data b + of_nat j) < 1044" unfolding e using that by simp
    then show ?thesis using c(3) [OF buf_of_mem [OF assms(5)]] by (simp add: same_buf_def)
  qed
  have "mem (mem_copy (buf + of_nat i * BLOCK_SIZE) (b_data b) BLOCK_SIZE t) (buf + of_nat (1024 * k + j)) = block_data (mem s) xs ino k j"
    if k: "k < Suc i" "j < 1024" for k j
  proof (cases "k = i")
    case True
    have e: "buf + of_nat (1024 * k + j) = buf + of_nat (1024 * i) + of_nat j" by (simp add: True)
    have "off (buf + of_nat (1024 * i)) (buf + of_nat (1024 * i) + of_nat j) = j" by (rule off_add_nat) (use k in simp)
    then show ?thesis unfolding mc e using k src True assms(5) by (simp add: block_data_def del: of_nat_mult)
  next
    case False
    have o: "off buf (buf + of_nat (1024 * k + j)) = 1024 * k + j" by (rule off_add_nat) (use k assms(4) n in simp)
    have "\<not> off (buf + of_nat (1024 * i)) (buf + of_nat (1024 * k + j)) < 1024"
      using off_rebase [of "1024 * i" buf "buf + of_nat (1024 * k + j)"] k False assms(4) n unfolding o by simp
    then show ?thesis unfolding mc using assms(3) k False by (simp add: copied_def)
  qed
  then show ?thesis using assms(3) out unfolding copied_def mc by (simp add: mem_copy_def)
qed

text \<open>The number an iteration computes is the one of \<open>file_block\<close>.\<close>

lemma open_blocks_number:
  assumes "cache_view s xs" "resident (mem s) xs ino buf num" "copied s xs ino buf num j t" "i \<le> num" "i < 268"
    and "i = 12 \<longrightarrow> blocknum = i_block (mem s) ino 11" "12 < i \<longrightarrow> indirect = i_block (mem s) ino 12"
  shows "(if (of_nat i :: u32) < 12 then Some (indirect, i_block (mem t) ino (of_nat i), t)
      else if (of_nat i :: u32) = 12 then Some (i_block (mem t) ino (of_nat i), blocknum, t)
      else do { (n, t) \<leftarrow> ext2_read_indirect pf indirect (of_nat i - 12) t; Some (indirect, n, t) }) =
    Some (if 12 \<le> i then i_block (mem s) ino 12 else indirect, file_block (mem s) xs ino (read_index i), t)"
proof -
  note c = copied_same [OF assms(1-3)]
  have i: "i < 268" by (rule assms(5))
  consider "i < 12" | "i = 12" | "12 < i" by linarith
  then show ?thesis
  proof cases
    case 1
    then show ?thesis using c(4) [of i] by (simp add: word_less_nat_alt file_block_def read_index_def)
  next
    case 2
    then show ?thesis using c(4) [of 11] c(4) [of 12] assms(6) by (simp add: file_block_def read_index_def)
  next
    case 3
    then obtain b where b: "buf_of (mem s) xs (i_block (mem s) ino 12) = Some b"
      using assms(2,4) by (auto simp: resident_def)
    have r: "buffer_read pf 1 indirect t = Some (b, t)"
      using buffer_read_cached [OF c(1), of _ b pf] c(2) b assms(7) 3 by simp
    have z: "(of_nat i :: u32) - 12 = of_nat (i - 12)" using 3 by (simp add: of_nat_diff)
    have e: "b_data b + of_nat (i - 12) * 4 = b + of_nat (20 + 4 * (i - 12))"
      by (simp only: b_data_def of_nat_add of_nat_mult of_nat_numeral) (simp only: mult.commute add.assoc)
    have "load32 (mem t) (b_data b + of_nat (i - 12) * 4) = load32 (mem s) (b_data b + of_nat (i - 12) * 4)"
      unfolding e by (rule buf_word [OF c(3) [OF buf_of_mem [OF b]]]) (use i in simp)
    then have rd: "ext2_read_indirect pf indirect (of_nat i - 12) t = Some (file_block (mem s) xs ino (read_index i), t)"
      unfolding z ext2_read_indirect_def using 3 b r by (simp only: file_block_def read_index_def) simp
    have "\<not> (of_nat i :: u32) < 12" "(of_nat i :: u32) \<noteq> 12"
      using 3 i by (simp_all add: word_less_nat_alt word_unat_eq_iff)
    then show ?thesis unfolding rd using 3 assms(7) by simp
  qed
qed

lemma open_blocks_copies:
  assumes "cache_view s xs" "resident (mem s) xs ino buf num"
  shows "copied s xs ino buf num i t \<Longrightarrow> i + k = num \<Longrightarrow> (i = 12 \<longrightarrow> blocknum = i_block (mem s) ino 11) \<Longrightarrow>
    (12 < i \<longrightarrow> indirect = i_block (mem s) ino 12) \<Longrightarrow>
    \<exists>ind bn u. open_blocks pf ino buf (of_nat i) (k + r) indirect blocknum t = open_blocks pf ino buf (of_nat num) r ind bn u \<and>
      copied s xs ino buf num num u \<and> (num = 12 \<longrightarrow> bn = i_block (mem s) ino 11) \<and> (12 < num \<longrightarrow> ind = i_block (mem s) ino 12)"
proof (induction k arbitrary: i t indirect blocknum)
  case (Suc k)
  then have i: "i < num" by simp
  then have i2: "i \<le> num" "i < 268" using assms(2) by (auto simp: resident_def)
  note n = open_blocks_number [OF assms Suc.prems(1) i2, of blocknum indirect pf, OF Suc.prems(3,4)]
  let ?f = "file_block (mem s) xs ino (read_index i)"
  obtain b where b: "?f \<noteq> 0" "buf_of (mem s) xs ?f = Some b"
    using assms(2) i by (auto simp: resident_def)
  note c = copied_same [OF assms Suc.prems(1)]
  have r: "buffer_read pf 1 ?f t = Some (b, t)"
    using buffer_read_cached [OF c(1), of _ b pf] c(2) b by simp
  let ?t = "mem_copy (buf + of_nat i * BLOCK_SIZE) (b_data b) BLOCK_SIZE t"
  let ?ind = "if 12 \<le> i then i_block (mem s) ino 12 else indirect"
  have "open_blocks pf ino buf (of_nat i) (Suc k + r) indirect blocknum t =
      open_blocks pf ino buf (of_nat (Suc i)) (k + r) ?ind ?f ?t"
    unfolding of_nat_Suc add.commute [of 1] add_Suc by (subst open_blocks.simps, subst n) (simp add: b(1) r split del: if_split)
  moreover have "\<exists>ind bn u. open_blocks pf ino buf (of_nat (Suc i)) (k + r) ?ind ?f ?t = open_blocks pf ino buf (of_nat num) r ind bn u \<and>
      copied s xs ino buf num num u \<and> (num = 12 \<longrightarrow> bn = i_block (mem s) ino 11) \<and> (12 < num \<longrightarrow> ind = i_block (mem s) ino 12)"
    by (rule Suc.IH [OF copied_step [OF assms Suc.prems(1) i b(2)]]) (use Suc.prems in \<open>auto simp: file_block_def read_index_def\<close>)
  ultimately show ?case by (simp only:)
qed auto

text \<open>The loop ends behind the last block, or at a block number that is zero.\<close>

lemma open_blocks_spec:
  assumes "cache_view s xs" "resident (mem s) xs ino buf n" "n \<le> num"
    and "n = num \<or> n \<noteq> 12 \<and> n < 268 \<and> file_block (mem s) xs ino n = 0"
  shows "\<exists>u. open_blocks pf ino buf 0 num 0 0 s = Some u \<and> copied s xs ino buf n n u"
proof -
  have "copied s xs ino buf n 0 s" using assms(1) by (simp add: copied_def cache_view_def)
  from open_blocks_copies [OF assms(1,2) this, of n 0 0 pf "num - n"] obtain ind bn u where
    u: "open_blocks pf ino buf 0 num 0 0 s = open_blocks pf ino buf (of_nat n) (num - n) ind bn u" "copied s xs ino buf n n u"
      "n = 12 \<longrightarrow> bn = i_block (mem s) ino 11" "12 < n \<longrightarrow> ind = i_block (mem s) ino 12"
    using assms(3) by auto
  show ?thesis
  proof (cases "num - n")
    case 0
    then show ?thesis using u(1,2) by simp
  next
    case (Suc r)
    then have z: "n \<noteq> 12" "n < 268" "file_block (mem s) xs ino (read_index n) = 0" using assms(4) by (auto simp: read_index_def)
    note e = open_blocks_number [OF assms(1,2) u(2) order_refl z(2), of bn ind pf, OF u(3,4)]
    have "open_blocks pf ino buf (of_nat n) (Suc r) ind bn u = Some u"
      by (subst open_blocks.simps, subst e) (simp add: z(3) split del: if_split)
    then show ?thesis using u(1,2) Suc by simp
  qed
qed

section \<open>Properties\<close>

text \<open>
  C35. \<^verbatim>\<open>ext2_inode\<close> finds an inode: when the superblock, the descriptor block and the block of the inode are in the
  cache, inode \<open>i\<close>, entry \<open>k\<close> of group \<open>g\<close>, is found at the place of entry \<open>k\<close> of an array of 128-byte inodes that
  starts at the first block of the table which the descriptor of group \<open>g\<close> names.  It lies inside its block.
\<close>

theorem ext2_inode_correct:
  assumes "cache_view s xs" "buf_of (mem s) xs 1 = Some sb" "buf_of (mem s) xs 2 = Some bg" "b_data bg \<noteq> 0"
    and "sb_magic (mem s) (b_data sb) = 0xEF53" "sb_log_block_size (mem s) (b_data sb) = 0"
    and "per = unat (sb_inodes_per_group (mem s) (b_data sb))" "per \<le> 2 ^ 25"
    and "unat i = g * per + k + 1" "k < per" "128 * k = 1024 * blk + p" "p < 1024"
    and "buf_of (mem s) xs (bg_inode_table (mem s) (b_data bg + of_nat (32 * g)) + of_nat blk) = Some b"
  shows "ext2_inode pf 1 i s = Some (b_data b + of_nat p, s) \<and> p + 128 \<le> 1024"
proof -
  let ?pg = "sb_inodes_per_group (mem s) (b_data sb)"
  note r = buffer_read_cached [OF assms(1), where pf = pf]
  have pg: "?pg \<noteq> 0" using assms(7,10) by auto
  have "i \<noteq> 0" using assms(9) by auto
  then have i1: "unat (i - 1) = g * per + k" using assms(9) by (simp add: unat_minus_one)
  have g: "unat (inode_group i ?pg) = g" "unat (inode_index i ?pg) = k"
    using assms(10) by (simp_all add: unat_inode [OF pg] i1 flip: assms(7))
  then have gw: "inode_group i ?pg = of_nat g" by (simp flip: g(1))
  have k25: "unat (inode_index i ?pg) < 2 ^ 25" using g(2) assms(8,10) by simp
  have "128 * k div 1024 = blk" unfolding assms(11) using assms(12) by simp
  then have k8: "k div 8 = blk" using div_mult_mult1 [of 128 k 8] by simp
  then have p8: "k mod 8 * 128 = p" using assms(11) div_mult_mod_eq [of k 8] by simp
  have "k * 128 div 1024 = blk" using k8 div_mult_mult2 [of 128 k 8] by simp
  then have pl: "unat (inode_block (inode_index i ?pg)) = blk" "unat (inode_offset (inode_index i ?pg)) = p"
    using p8 by (simp_all only: unat_inode_place [OF k25] g(2))
  then have bw: "inode_block (inode_index i ?pg) = of_nat blk" "inode_offset (inode_index i ?pg) = of_nat p"
    by (simp flip: pl(1), simp flip: pl(2))
  have sb: "ext2_superblock pf 1 s = Some (b_data sb, s)"
    using r [OF assms(2)] assms(5,6) by (simp add: ext2_superblock_def EXT2_SUPER_def EXT2_MAGIC_def block_size_ok_def BLOCK_SIZE_def)
  have bd: "ext2_blockdesc pf 1 s = Some (b_data bg, s)" using r [OF assms(3)] by (simp add: ext2_blockdesc_def EXT2_SUPER_def)
  have "ext2_inode pf 1 i s = Some (b_data b + of_nat p, s)"
    using r [OF assms(13)] pg assms(4,5)
    by (simp add: ext2_inode_def sb bd EXT2_MAGIC_def sizeof_bgd_def gw bw mult.commute [of _ 32])
  moreover have "p + 128 \<le> 1024" using p8 mod_less_divisor [of 8 k] by linarith
  ultimately show ?thesis by simp
qed

text \<open>Sixteen inodes per group; the table of group 1 begins at block 9, and its second block is in the cache.\<close>

definition fs2 :: ide_state where
  "fs2 = ide0\<lparr>mem := (\<lambda>_. 0)(
      0x10000 := 3, 0x10004 := 1, 0x10008 := 1, 0x1000E := 2, 0x1003C := 16, 0x1004C := 0x53, 0x1004D := 0xEF,
      0x20000 := 3, 0x20004 := 1, 0x20008 := 2, 0x2000E := 5, 0x2003C := 9,
      0x50000 := 3, 0x50004 := 1, 0x50008 := 10), cache_list := 0x10000\<rparr>"

theorem ext2_inode_correct_witness: "ext2_inode silent 1 28 fs2 = Some (0x50194, fs2)"
proof -
  let ?xs = "[0x10000, 0x20000, 0x50000]"
  have f: "b_flags (mem fs2) 0x10000 = 3" "b_dev (mem fs2) 0x10000 = 1" "b_block (mem fs2) 0x10000 = 1" "b_next (mem fs2) 0x10000 = 0x20000"
    "b_flags (mem fs2) 0x20000 = 3" "b_dev (mem fs2) 0x20000 = 1" "b_block (mem fs2) 0x20000 = 2" "b_next (mem fs2) 0x20000 = 0x50000"
    "b_flags (mem fs2) 0x50000 = 3" "b_dev (mem fs2) 0x50000 = 1" "b_block (mem fs2) 0x50000 = 10" "b_next (mem fs2) 0x50000 = 0"
    by (simp_all add: fs2_def b_flags_def b_dev_def b_block_def b_next_def load32_def)
  have c: "cache_view fs2 ?xs"
    by (simp add: cache_view_def f B_BUSY_def B_VALID_def) (simp add: fs2_def ide0_def)
  have b: "buf_of (mem fs2) ?xs 1 = Some 0x10000" "buf_of (mem fs2) ?xs 2 = Some 0x20000" "buf_of (mem fs2) ?xs 10 = Some 0x50000"
    by (simp_all add: buf_of_def f)
  have v: "sb_magic (mem fs2) 0x10014 = 0xEF53" "sb_log_block_size (mem fs2) 0x10014 = 0" "sb_inodes_per_group (mem fs2) 0x10014 = 16"
    "bg_inode_table (mem fs2) 0x20034 = 9"
    by (simp_all add: fs2_def sb_magic_def sb_log_block_size_def sb_inodes_per_group_def bg_inode_table_def load32_def load16_def)
  have d: "b_data 0x10000 = 0x10014" "b_data 0x20000 = 0x20014" "b_data 0x50000 = 0x50014" by (simp_all add: b_data_def)
  have "ext2_inode silent 1 28 fs2 = Some (b_data 0x50000 + of_nat 384, fs2) \<and> 384 + 128 \<le> (1024 :: nat)"
    by (rule ext2_inode_correct [OF c b(1,2), where per = 16 and g = 1 and k = 11 and blk = 1]) (simp_all add: d v b(3))
  then show ?thesis by (simp add: d)
qed

text \<open>
  C34. The search for a free bit returns the first: when one of the \<open>sz\<close> words has a clear bit, the result is the
  number of a clear bit inside them and every bit before it is set.
\<close>

theorem ext_first_free_correct:
  assumes "n < 32 * unat sz" "\<not> bitmap_bit (mem s) b n" "unat sz \<le> 2 ^ 26"
  shows "unat (ext_first_free b sz s) < 32 * unat sz \<and> \<not> bitmap_bit (mem s) b (unat (ext_first_free b sz s)) \<and>
    (\<forall>l < unat (ext_first_free b sz s). bitmap_bit (mem s) b l)"
proof -
  have z: "nat (sint sz) = unat sz" using assms(3) by (simp add: sint_small)
  obtain k where k: "ext_first_free_loop (mem s) b 0 (unat sz) = Some (of_nat k)" "k < 32 * unat sz" "\<not> bitmap_bit (mem s) b k"
      "\<forall>l<k. bitmap_bit (mem s) b l"
    using ext_first_free_loop_spec [where m = "mem s" and b = b and q = 0 and k = "unat sz"] assms(1,2) by (auto split: option.splits)
  have "k < 2 ^ 32" using k(2) assms(3) by simp
  then show ?thesis using k by (simp add: ext_first_free_def z)
qed

definition fs0 :: ide_state where
  "fs0 = ide0\<lparr>mem := (\<lambda>_. 0)(0x1000 := 0xFF, 0x10000 := 3, 0x10004 := 1, 0x10008 := 5, 0x10014 := 0x41, 0x3001C := 2, 0x30028 := 5),
    cache_list := 0x10000\<rparr>"

theorem ext_first_free_correct_witness:
  "unat (ext_first_free 0x1000 4 fs0) < 128 \<and> \<not> bitmap_bit (mem fs0) 0x1000 (unat (ext_first_free 0x1000 4 fs0))"
  using ext_first_free_correct [of 8 4 fs0 "0x1000"] by (simp add: bitmap_bit_def fs0_def load32_def)

text \<open>
  C33. Reading a file whose blocks are in the cache copies them to the buffer, in order, and changes nothing else, with
  one exception: the place of block 12 gets block 11 again.  Reading ends with the last block the inode counts, or
  before it at a block number that is zero, as behind the last entry of the indirect block.
\<close>

theorem ext2_open_alt_correct:
  assumes "cache_view s xs" "num = unat (i_blocks (mem s) ino) div 2" "0 < num" "resident (mem s) xs ino buf n" "n \<le> num"
    and "n = num \<or> n \<noteq> 12 \<and> n < 268 \<and> file_block (mem s) xs ino n = 0"
    and "ino \<noteq> 0" "buf \<noteq> 0"
  shows "\<exists>t. ext2_open_alt pf ino buf s = Some t \<and>
    (\<forall>i<n. \<forall>j<1024. mem t (buf + of_nat (1024 * i + j)) =
      mem s (b_data (the (buf_of (mem s) xs (file_block (mem s) xs ino (if i = 12 then 11 else i)))) + of_nat j)) \<and>
    (\<forall>a. 1024 * n \<le> off buf a \<longrightarrow> mem t a = mem s a)"
proof -
  have u: "unat (i_blocks (mem s) ino div 2) = num" using assms(2) by (simp add: unat_div)
  obtain t where "open_blocks pf ino buf 0 num 0 0 s = Some t" "copied s xs ino buf n n t"
    using open_blocks_spec [OF assms(1,4-6), of pf] by blast
  moreover have "i_blocks (mem s) ino div 2 \<noteq> 0" using u assms(3) by auto
  ultimately show ?thesis
    using assms(7,8) u by (auto simp: ext2_open_alt_def Let_def BLOCK_SIZE_def SECTOR_SIZE_def copied_def block_data_def read_index_def)
qed

text \<open>
  A file of fourteen blocks: twelve numbers in the inode at \<open>0x30000\<close>, two in the indirect block 7; the inode counts
  fifteen blocks with the indirect one.  The contents of a block begin with its number.
\<close>

definition fs1 :: ide_state where
  "fs1 = ide0\<lparr>mem := (\<lambda>_. 0)(
      0x10000 := 3, 0x10004 := 1, 0x10008 := 5, 0x1000E := 2, 0x10014 := 5,
      0x20000 := 3, 0x20004 := 1, 0x20008 := 6, 0x2000E := 5, 0x20014 := 6,
      0x50000 := 3, 0x50004 := 1, 0x50008 := 7, 0x50014 := 5, 0x50018 := 6,
      0x3001C := 30, 0x30028 := 5, 0x3002C := 6, 0x30030 := 5, 0x30034 := 6, 0x30038 := 5, 0x3003C := 6,
      0x30040 := 5, 0x30044 := 6, 0x30048 := 5, 0x3004C := 6, 0x30050 := 5, 0x30054 := 6, 0x30058 := 7),
    cache_list := 0x10000\<rparr>"

lemma fs1_fields:
  "b_flags (mem fs1) 0x10000 = 3" "b_dev (mem fs1) 0x10000 = 1" "b_block (mem fs1) 0x10000 = 5" "b_next (mem fs1) 0x10000 = 0x20000"
  "b_flags (mem fs1) 0x20000 = 3" "b_dev (mem fs1) 0x20000 = 1" "b_block (mem fs1) 0x20000 = 6" "b_next (mem fs1) 0x20000 = 0x50000"
  "b_flags (mem fs1) 0x50000 = 3" "b_dev (mem fs1) 0x50000 = 1" "b_block (mem fs1) 0x50000 = 7" "b_next (mem fs1) 0x50000 = 0"
  "i_blocks (mem fs1) 0x30000 = 30"
  by (simp_all add: fs1_def b_flags_def b_dev_def b_block_def b_next_def i_blocks_def load32_def)

lemma fs1_cache: "cache_view fs1 [0x10000, 0x20000, 0x50000]"
  "buf_of (mem fs1) [0x10000, 0x20000, 0x50000] 5 = Some 0x10000" "buf_of (mem fs1) [0x10000, 0x20000, 0x50000] 6 = Some 0x20000"
  "buf_of (mem fs1) [0x10000, 0x20000, 0x50000] 7 = Some 0x50000"
proof -
  have c: "cache_lock fs1 = 0" "cache_list fs1 = 0x10000" by (simp_all add: fs1_def ide0_def)
  show "cache_view fs1 [0x10000, 0x20000, 0x50000]" by (simp add: cache_view_def fs1_fields c B_BUSY_def B_VALID_def)
qed (simp_all add: buf_of_def fs1_fields)

lemma fs1_blocks:
  "i < 12 \<Longrightarrow> file_block (mem fs1) [0x10000, 0x20000, 0x50000] 0x30000 i = (if even i then 5 else 6)"
  "file_block (mem fs1) [0x10000, 0x20000, 0x50000] 0x30000 12 = 5"
  "file_block (mem fs1) [0x10000, 0x20000, 0x50000] 0x30000 13 = 6"
  "file_block (mem fs1) [0x10000, 0x20000, 0x50000] 0x30000 14 = 0"
proof -
  show "file_block (mem fs1) [0x10000, 0x20000, 0x50000] 0x30000 i = (if even i then 5 else 6)" if "i < 12"
  proof -
    from that have "i \<in> {0, 1, 2, 3, 4, 5, 6, 7, 8, 9, 10, 11}" unfolding insert_iff empty_iff by presburger
    then show ?thesis by (elim insertE emptyE) (simp_all add: file_block_def i_block_def i_block_at_def fs1_def load32_def)
  qed
  have "i_block (mem fs1) 0x30000 12 = 7" by (simp add: fs1_def i_block_def i_block_at_def load32_def)
  then show "file_block (mem fs1) [0x10000, 0x20000, 0x50000] 0x30000 12 = 5"
    "file_block (mem fs1) [0x10000, 0x20000, 0x50000] 0x30000 13 = 6"
    "file_block (mem fs1) [0x10000, 0x20000, 0x50000] 0x30000 14 = 0"
    by (simp_all add: file_block_def fs1_cache(4) b_data_def) (simp_all add: fs1_def load32_def)
qed

theorem ext2_open_alt_correct_witness:
  "\<exists>t. ext2_open_alt silent 0x30000 0x40000 fs1 = Some t \<and> mem t 0x40000 = 5 \<and> mem t 0x40400 = 6 \<and>
    mem t 0x43000 = 6 \<and> mem t 0x43400 = 6 \<and> mem t 0x43800 = 0"
proof -
  let ?xs = "[0x10000, 0x20000, 0x50000]"
  have d: "region 0x40000 14336 \<inter> region 0x30000 128 = {}" "region 0x40000 14336 \<inter> region 0x10000 1044 = {}"
    "region 0x40000 14336 \<inter> region 0x20000 1044 = {}" "region 0x40000 14336 \<inter> region 0x50000 1044 = {}"
    by (auto simp: off_unat split: if_splits)
  have f: "file_block (mem fs1) ?xs 0x30000 (read_index i) \<in> {5, 6}" if "i < 14" for i
  proof (cases "i < 12")
    case False
    then have "i = 12 \<or> i = 13" using that by linarith
    then show ?thesis using fs1_blocks(1) [of 11] fs1_blocks(3) by (auto simp: read_index_def)
  qed (simp add: fs1_blocks(1) read_index_def)
  have r: "resident (mem fs1) ?xs 0x30000 0x40000 14"
    unfolding resident_def
  proof (intro conjI allI impI)
    fix i :: nat assume "i < 14"
    from f [OF this] show "file_block (mem fs1) ?xs 0x30000 (read_index i) \<noteq> 0"
      "buf_of (mem fs1) ?xs (file_block (mem fs1) ?xs 0x30000 (read_index i)) \<noteq> None"
      by (auto simp: fs1_cache(2,3))
  next
    have "i_block (mem fs1) 0x30000 12 = 7" by (simp add: fs1_def i_block_def i_block_at_def load32_def)
    then show "buf_of (mem fs1) ?xs (i_block (mem fs1) 0x30000 12) \<noteq> None" by (simp add: fs1_cache(4))
  qed (use d in simp_all)
  have n: "15 = unat (i_blocks (mem fs1) 0x30000) div 2" by (simp add: fs1_fields)
  obtain t where t: "ext2_open_alt silent 0x30000 0x40000 fs1 = Some t"
      "\<And>i j. i < 14 \<Longrightarrow> j < 1024 \<Longrightarrow> mem t (0x40000 + of_nat (1024 * i + j)) =
        mem fs1 (b_data (the (buf_of (mem fs1) ?xs (file_block (mem fs1) ?xs 0x30000 (if i = 12 then 11 else i)))) + of_nat j)"
      "\<And>a. 1024 * 14 \<le> off 0x40000 a \<Longrightarrow> mem t a = mem fs1 a"
    using ext2_open_alt_correct [OF fs1_cache(1) n _ r, of silent] by (auto simp: fs1_blocks(4))
  have m: "mem fs1 0x10014 = 5" "mem fs1 0x20014 = 6" "mem fs1 0x43800 = 0" by (simp_all add: fs1_def)
  have "mem t 0x40000 = 5" "mem t 0x40400 = 6" "mem t 0x43000 = 6" "mem t 0x43400 = 6"
    using t(2) [of 0 0] t(2) [of 1 0] t(2) [of 12 0] t(2) [of 13 0]
    by (simp_all add: fs1_blocks fs1_cache b_data_def m)
  moreover have "mem t 0x43800 = 0" using t(3) [of "0x43800"] by (simp add: m off_unat)
  ultimately show ?thesis using t(1) by blast
qed

end
