(* ===== verification/Mutex.thy ===== *)
theory Mutex
  imports Ext2
begin

text \<open>
  Locks: \<^verbatim>\<open>acquire\<close> and \<^verbatim>\<open>release\<close> of \<^verbatim>\<open>arch/sched.s\<close> and the nesting of interrupt disabling in \<^verbatim>\<open>mutex.c\<close>.
  The two routines are the instruction lists of the assembler file, executed one instruction at a time.  A call on
  one processor runs the list to its \<^verbatim>\<open>ret\<close>; the step relation \<open>cpu_step\<close> interleaves any number of processors at
  every single instruction, and in every reachable state at most one of them is behind \<^verbatim>\<open>acquire\<close>.
\<close>

section \<open>Operations\<close>

text \<open>The instructions the two routines use.  A jump names the position it goes to.\<close>

datatype lock_instr = Mov_ecx_arg | Mov_eax u32 | Xchg_eax_ecx | Test_eax | Pause | Jnz nat | Ret

definition acquire_code :: "lock_instr list" where
  "acquire_code = [Mov_ecx_arg, Mov_eax 1, Xchg_eax_ecx, Test_eax, Pause, Jnz 0, Ret]"

definition release_code :: "lock_instr list" where
  "release_code = [Mov_ecx_arg, Mov_eax 0, Xchg_eax_ecx, Ret]"

text \<open>The registers of a processor inside a routine; \<open>lc_ret\<close> tells that it has returned.\<close>

record lock_regs =
  lc_pc :: nat
  lc_eax :: u32
  lc_ecx :: u32
  lc_zf :: bool
  lc_ret :: bool

text \<open>\<^verbatim>\<open>xchg eax, [ecx]\<close>: the old word and the new memory.\<close>

definition xchg :: "u32 \<Rightarrow> u32 \<Rightarrow> mem \<Rightarrow> u32 \<times> mem" where
  "xchg ecx eax m = (load32 m ecx, store32 m ecx eax)"

text \<open>One instruction; \<open>l\<close> is the word at \<^verbatim>\<open>[esp+4]\<close>, the argument of the call.\<close>

fun exec_instr :: "u32 \<Rightarrow> lock_instr \<Rightarrow> lock_regs \<times> mem \<Rightarrow> lock_regs \<times> mem" where
  "exec_instr l Mov_ecx_arg (r, m) = (r\<lparr>lc_ecx := l, lc_pc := Suc (lc_pc r)\<rparr>, m)"
| "exec_instr l (Mov_eax v) (r, m) = (r\<lparr>lc_eax := v, lc_pc := Suc (lc_pc r)\<rparr>, m)"
| "exec_instr l Xchg_eax_ecx (r, m) =
    (let (v, m') = xchg (lc_ecx r) (lc_eax r) m in (r\<lparr>lc_eax := v, lc_pc := Suc (lc_pc r)\<rparr>, m'))"
| "exec_instr l Test_eax (r, m) = (r\<lparr>lc_zf := (lc_eax r AND lc_eax r = 0), lc_pc := Suc (lc_pc r)\<rparr>, m)"
| "exec_instr l Pause (r, m) = (r\<lparr>lc_pc := Suc (lc_pc r)\<rparr>, m)"
| "exec_instr l (Jnz k) (r, m) = (r\<lparr>lc_pc := (if lc_zf r then Suc (lc_pc r) else k)\<rparr>, m)"
| "exec_instr l Ret (r, m) = (r\<lparr>lc_ret := True\<rparr>, m)"

definition exec_at :: "lock_instr list \<Rightarrow> u32 \<Rightarrow> lock_regs \<times> mem \<Rightarrow> lock_regs \<times> mem" where
  "exec_at code l s = exec_instr l (code ! lc_pc (fst s)) s"

text \<open>A call on a processor that runs alone: instructions are executed until the routine has returned.\<close>

partial_function (option) run_code :: "lock_instr list \<Rightarrow> u32 \<Rightarrow> lock_regs \<times> mem \<Rightarrow> mem option" where
  "run_code code l s = (if lc_ret (fst s) then Some (snd s) else run_code code l (exec_at code l s))"

text \<open>A routine is entered at its first instruction; it sets every register before it reads it.\<close>

definition enter :: "lock_regs \<Rightarrow> lock_regs" where
  "enter r = r\<lparr>lc_pc := 0, lc_ret := False\<rparr>"

definition regs0 :: lock_regs where
  "regs0 = \<lparr>lc_pc = 0, lc_eax = 0, lc_ecx = 0, lc_zf = False, lc_ret = False\<rparr>"

definition acquire :: "u32 \<Rightarrow> mem \<Rightarrow> mem option" where
  "acquire l m = run_code acquire_code l (enter regs0, m)"

definition release :: "u32 \<Rightarrow> mem \<Rightarrow> mem option" where
  "release l m = run_code release_code l (enter regs0, m)"

text \<open>\<open>intr\<close> is the interrupt flag of the processor.\<close>

record cli_state = fs_state +
  ncli :: c_int
  intr :: bool

definition pushcli :: "'a cli_state_scheme \<Rightarrow> 'a cli_state_scheme" where
  "pushcli s = (let s = s\<lparr>intr := False\<rparr> in s\<lparr>ncli := ncli s + 1\<rparr>)"

definition popcli :: "'a cli_state_scheme printer \<Rightarrow> 'a cli_state_scheme \<Rightarrow> 'a cli_state_scheme option" where
  "popcli pf s =
    (let s = s\<lparr>ncli := ncli s - 1\<rparr> in do {
       s \<leftarrow> (if ncli s <s 0 then panic pf (at_line ''mutex.c'' 41 ''popcli'') ''popcli without push'' s else Some s);
       Some (if ncli s = 0 then s\<lparr>intr := True\<rparr> else s) })"

definition nocli :: "'a cli_state_scheme \<Rightarrow> c_int" where
  "nocli s = ncli s"

text \<open>\<open>ml\<close> is the address of the lock of the test; its bit field is the low bit.\<close>

definition mutex_test :: "'a machine_scheme printer \<Rightarrow> u32 \<Rightarrow> 'a machine_scheme \<Rightarrow> 'a machine_scheme option" where
  "mutex_test pf ml s = do {
     s \<leftarrow> pf (''Begin mutex test'' @ newline) [] s;
     m \<leftarrow> acquire ml (mem s);
     m \<leftarrow> release ml m;
     let s = s\<lparr>mem := m\<rparr> in
     pf (''release: %d'' @ newline) [PW (ucast (mem s ml AND 1))] s }"

section \<open>Taking a lock\<close>

lemmas lock_code = exec_at_def acquire_code_def release_code_def enter_def xchg_def

lemma run_code_step: "\<not> lc_ret r \<Longrightarrow> run_code code l (r, m) = run_code code l (exec_at code l (r, m))"
  by (subst run_code.simps) simp

lemma run_code_ret: "lc_ret r \<Longrightarrow> run_code code l (r, m) = Some m"
  by (subst run_code.simps) simp

text \<open>The three instructions both routines begin with, and one round of \<^verbatim>\<open>acquire\<close>, from any registers.\<close>

lemma run_exchange:
  assumes "lc_pc r = 0" "\<not> lc_ret r" "take 3 code = [Mov_ecx_arg, Mov_eax v, Xchg_eax_ecx]"
  shows "run_code code l (r, m) = run_code code l (r\<lparr>lc_ecx := l, lc_eax := load32 m l, lc_pc := 3\<rparr>, store32 m l v)"
proof -
  have c: "code ! 0 = Mov_ecx_arg" "code ! 1 = Mov_eax v" "code ! 2 = Xchg_eax_ecx"
    using arg_cong [OF assms(3), of "\<lambda>c. c ! 0"] arg_cong [OF assms(3), of "\<lambda>c. c ! 1"] arg_cong [OF assms(3), of "\<lambda>c. c ! 2"]
    by simp_all
  let ?r1 = "r\<lparr>lc_ecx := l, lc_pc := 1\<rparr>" let ?r2 = "?r1\<lparr>lc_eax := v, lc_pc := 2\<rparr>"
  have "run_code code l (r, m) = run_code code l (?r1, m)" using assms c by (simp add: run_code_step exec_at_def)
  also have "\<dots> = run_code code l (?r2, m)" using assms c by (subst run_code_step) (simp_all add: exec_at_def numeral_2_eq_2)
  also have "\<dots> = run_code code l (r\<lparr>lc_ecx := l, lc_eax := load32 m l, lc_pc := 3\<rparr>, store32 m l v)"
    using assms c by (subst run_code_step) (simp_all add: exec_at_def xchg_def numeral_3_eq_3)
  finally show ?thesis .
qed

lemma run_acquire_round:
  assumes "lc_pc r = 0" "\<not> lc_ret r"
  shows "run_code acquire_code l (r, m) =
    (if load32 m l = 0 then Some (store32 m l 1)
     else run_code acquire_code l (r\<lparr>lc_ecx := l, lc_eax := load32 m l, lc_zf := False\<rparr>, store32 m l 1))"
proof -
  let ?m = "store32 m l 1" let ?r3 = "r\<lparr>lc_ecx := l, lc_eax := load32 m l, lc_pc := 3\<rparr>"
  let ?r4 = "?r3\<lparr>lc_zf := (load32 m l = 0), lc_pc := 4\<rparr>" let ?r5 = "?r4\<lparr>lc_pc := 5\<rparr>"
  have "run_code acquire_code l (r, m) = run_code acquire_code l (?r3, ?m)"
    by (rule run_exchange) (simp_all add: assms acquire_code_def)
  also have "\<dots> = run_code acquire_code l (?r4, ?m)" using assms by (subst run_code_step) (simp_all add: lock_code)
  also have "\<dots> = run_code acquire_code l (?r5, ?m)" using assms by (subst run_code_step) (simp_all add: lock_code)
  also have "\<dots> = run_code acquire_code l (?r5\<lparr>lc_pc := if load32 m l = 0 then 6 else 0\<rparr>, ?m)"
    using assms by (subst run_code_step) (simp_all add: lock_code)
  finally have e: "run_code acquire_code l (r, m) = run_code acquire_code l (?r5\<lparr>lc_pc := if load32 m l = 0 then 6 else 0\<rparr>, ?m)" .
  show ?thesis
  proof (cases "load32 m l = 0")
    case True
    have "run_code acquire_code l (?r5\<lparr>lc_pc := 6\<rparr>, ?m) = run_code acquire_code l (?r5\<lparr>lc_pc := 6, lc_ret := True\<rparr>, ?m)"
      using assms by (subst run_code_step) (simp_all add: lock_code)
    then show ?thesis using e True by (simp add: run_code_ret)
  next
    case False
    have "?r5\<lparr>lc_pc := 0\<rparr> = r\<lparr>lc_ecx := l, lc_eax := load32 m l, lc_zf := False\<rparr>" using assms False by simp
    then show ?thesis using e False by simp
  qed
qed

text \<open>Without another processor the lock is taken exactly when it is free.\<close>

lemma acquire_free: "load32 m l = 0 \<Longrightarrow> acquire l m = Some (store32 m l 1)"
  by (simp add: acquire_def run_acquire_round enter_def regs0_def)

lemma release_word: "release l m = Some (store32 m l 0)"
proof -
  let ?m = "store32 m l 0" let ?r3 = "(enter regs0)\<lparr>lc_ecx := l, lc_eax := load32 m l, lc_pc := 3\<rparr>"
  have "release l m = run_code release_code l (?r3, ?m)"
    unfolding release_def by (rule run_exchange) (simp_all add: enter_def release_code_def)
  also have "\<dots> = run_code release_code l (?r3\<lparr>lc_ret := True\<rparr>, ?m)" by (subst run_code_step) (simp_all add: lock_code)
  finally show ?thesis by (simp add: run_code_ret)
qed

section \<open>Several processors\<close>

datatype lock_phase = Outside | Acquiring | Inside | Releasing

type_synonym cpus = "(nat \<Rightarrow> lock_phase \<times> lock_regs) \<times> mem"

text \<open>
  A processor calls \<^verbatim>\<open>acquire\<close> with whatever its registers hold, executes its instructions one by one until it
  returns, and leaves in the same way through \<^verbatim>\<open>release\<close>.  Between any two instructions of one processor every other
  may take steps of its own, and may write any memory but the lock.
\<close>

inductive cpu_step :: "u32 \<Rightarrow> cpus \<Rightarrow> cpus \<Rightarrow> bool" for l :: u32 where
  call: "fst (p i) = Outside \<Longrightarrow> cpu_step l (p, m) (p(i := (Acquiring, enter r)), m)"
| acq: "p i = (Acquiring, r) \<Longrightarrow> exec_at acquire_code l (r, m) = (r', m') \<Longrightarrow>
    cpu_step l (p, m) (p(i := (if lc_ret r' then Inside else Acquiring, r')), m')"
| leave: "fst (p i) = Inside \<Longrightarrow> cpu_step l (p, m) (p(i := (Releasing, enter r)), m)"
| rel: "p i = (Releasing, r) \<Longrightarrow> exec_at release_code l (r, m) = (r', m') \<Longrightarrow>
    cpu_step l (p, m) (p(i := (if lc_ret r' then Outside else Releasing, r')), m')"
| work: "(\<And>a. off l a < 4 \<Longrightarrow> m' a = m a) \<Longrightarrow> cpu_step l (p, m) (p, m')"

inductive reachable :: "u32 \<Rightarrow> cpus \<Rightarrow> bool" for l :: u32 where
  start: "load32 m l = 0 \<Longrightarrow> (\<And>i. fst (p i) = Outside) \<Longrightarrow> reachable l (p, m)"
| step: "reachable l s \<Longrightarrow> cpu_step l s t \<Longrightarrow> reachable l t"

text \<open>
  Where a processor stands: the registers have the values the instructions before gave them, and \<open>owns\<close> tells
  whether its last exchange took the lock and it has not given it back.
\<close>

fun owns :: "lock_phase \<times> lock_regs \<Rightarrow> bool" where
  "owns (Outside, r) \<longleftrightarrow> False"
| "owns (Acquiring, r) \<longleftrightarrow> lc_pc r = 6 \<or> (lc_pc r \<in> {3, 4, 5} \<and> lc_eax r = 0)"
| "owns (Inside, r) \<longleftrightarrow> True"
| "owns (Releasing, r) \<longleftrightarrow> lc_pc r \<le> 2"

fun cpu_wf :: "u32 \<Rightarrow> lock_phase \<times> lock_regs \<Rightarrow> bool" where
  "cpu_wf l (Acquiring, r) \<longleftrightarrow> \<not> lc_ret r \<and> lc_pc r \<le> 6 \<and> (lc_pc r = 0 \<or> lc_ecx r = l) \<and> (lc_pc r = 2 \<longrightarrow> lc_eax r = 1) \<and>
    (lc_pc r \<in> {4, 5} \<longrightarrow> lc_zf r = (lc_eax r = 0))"
| "cpu_wf l (Releasing, r) \<longleftrightarrow> \<not> lc_ret r \<and> lc_pc r \<le> 3 \<and> (lc_pc r = 0 \<or> lc_ecx r = l) \<and> (lc_pc r = 2 \<longrightarrow> lc_eax r = 0)"
| "cpu_wf l (_, r) \<longleftrightarrow> True"

text \<open>The lock is taken exactly when one processor owns it.\<close>

definition lock_inv :: "u32 \<Rightarrow> cpus \<Rightarrow> bool" where
  "lock_inv l s \<longleftrightarrow> (case s of (p, m) \<Rightarrow> (\<forall>i. cpu_wf l (p i)) \<and>
    (if load32 m l = 0 then \<forall>i. \<not> owns (p i) else \<exists>i. \<forall>j. owns (p j) \<longleftrightarrow> j = i))"

text \<open>What one instruction of each routine does to its processor and to the lock.\<close>

lemma acq_instr:
  assumes "cpu_wf l (Acquiring, r)" "exec_at acquire_code l (r, m) = (r', m')"
  shows "cpu_wf l (if lc_ret r' then Inside else Acquiring, r')"
    and "(owns (if lc_ret r' then Inside else Acquiring, r') = owns (Acquiring, r) \<and> load32 m' l = load32 m l) \<or>
      (\<not> owns (Acquiring, r) \<and> owns (if lc_ret r' then Inside else Acquiring, r') = (load32 m l = 0) \<and> load32 m' l \<noteq> 0)"
proof -
  consider "lc_pc r = 0" | "lc_pc r = 1" | "lc_pc r = 2" | "lc_pc r = 3" | "lc_pc r = 4" | "lc_pc r = 5" | "lc_pc r = 6"
    using assms(1) by fastforce
  note cs = this
  show "cpu_wf l (if lc_ret r' then Inside else Acquiring, r')"
    by (rule cs) (use assms in \<open>auto simp: lock_code\<close>)
  show "(owns (if lc_ret r' then Inside else Acquiring, r') = owns (Acquiring, r) \<and> load32 m' l = load32 m l) \<or>
      (\<not> owns (Acquiring, r) \<and> owns (if lc_ret r' then Inside else Acquiring, r') = (load32 m l = 0) \<and> load32 m' l \<noteq> 0)"
    by (rule cs) (use assms in \<open>auto simp: lock_code\<close>)
qed

lemma rel_instr:
  assumes "cpu_wf l (Releasing, r)" "exec_at release_code l (r, m) = (r', m')"
  shows "cpu_wf l (if lc_ret r' then Outside else Releasing, r')"
    and "(owns (if lc_ret r' then Outside else Releasing, r') = owns (Releasing, r) \<and> load32 m' l = load32 m l) \<or>
      (owns (Releasing, r) \<and> \<not> owns (if lc_ret r' then Outside else Releasing, r') \<and> load32 m' l = 0)"
proof -
  consider "lc_pc r = 0" | "lc_pc r = 1" | "lc_pc r = 2" | "lc_pc r = 3" using assms(1) by fastforce
  note cs = this
  show "cpu_wf l (if lc_ret r' then Outside else Releasing, r')"
    by (rule cs) (use assms in \<open>auto simp: lock_code\<close>)
  show "(owns (if lc_ret r' then Outside else Releasing, r') = owns (Releasing, r) \<and> load32 m' l = load32 m l) \<or>
      (owns (Releasing, r) \<and> \<not> owns (if lc_ret r' then Outside else Releasing, r') \<and> load32 m' l = 0)"
    by (rule cs) (use assms in \<open>auto simp: lock_code\<close>)
qed

lemma lock_inv_update:
  assumes "lock_inv l (p, m)" "cpu_wf l c"
    and "(owns c = owns (p i) \<and> load32 m' l = load32 m l) \<or> (\<not> owns (p i) \<and> owns c = (load32 m l = 0) \<and> load32 m' l \<noteq> 0) \<or>
      (owns (p i) \<and> \<not> owns c \<and> load32 m' l = 0)"
  shows "lock_inv l (p(i := c), m')"
proof -
  have wf: "\<forall>j. cpu_wf l ((p(i := c)) j)" using assms(1,2) by (simp add: lock_inv_def)
  have o: "if load32 m l = 0 then \<forall>j. \<not> owns (p j) else \<exists>k. \<forall>j. owns (p j) \<longleftrightarrow> j = k"
    using assms(1) by (simp add: lock_inv_def)
  have "if load32 m' l = 0 then \<forall>j. \<not> owns ((p(i := c)) j) else \<exists>k. \<forall>j. owns ((p(i := c)) j) \<longleftrightarrow> j = k"
    using assms(3)
  proof (elim disjE)
    assume a: "owns c = owns (p i) \<and> load32 m' l = load32 m l"
    then have "owns ((p(i := c)) j) = owns (p j)" for j by simp
    then show ?thesis using o a by (simp del: fun_upd_apply)
  next
    assume "\<not> owns (p i) \<and> owns c = (load32 m l = 0) \<and> load32 m' l \<noteq> 0"
    then show ?thesis using o by (cases "load32 m l = 0") auto
  next
    assume "owns (p i) \<and> \<not> owns c \<and> load32 m' l = 0"
    then show ?thesis using o by (cases "load32 m l = 0") auto
  qed
  with wf show ?thesis by (simp add: lock_inv_def)
qed

lemma lock_inv_step: "cpu_step l s t \<Longrightarrow> lock_inv l s \<Longrightarrow> lock_inv l t"
proof (induction rule: cpu_step.induct)
  case (call p i m r)
  then have "\<not> owns (p i)" by (cases "p i") simp
  then show ?case by (intro lock_inv_update [OF call(2)]) (simp_all add: enter_def)
next
  case (acq p i r m r' m')
  have "cpu_wf l (p i)" using acq(3) by (simp add: lock_inv_def)
  then have "cpu_wf l (Acquiring, r)" by (simp only: acq(1))
  note c = acq_instr [OF this acq(2)]
  show ?case by (rule lock_inv_update [OF acq(3) c(1)]) (use c(2) in \<open>simp only: acq(1), blast\<close>)
next
  case (leave p i m r)
  then have "owns (p i)" by (cases "p i") simp
  then show ?case by (intro lock_inv_update [OF leave(2)]) (simp_all add: enter_def)
next
  case (rel p i r m r' m')
  have "cpu_wf l (p i)" using rel(3) by (simp add: lock_inv_def)
  then have "cpu_wf l (Releasing, r)" by (simp only: rel(1))
  note c = rel_instr [OF this rel(2)]
  show ?case by (rule lock_inv_update [OF rel(3) c(1)]) (use c(2) in \<open>simp only: rel(1), blast\<close>)
next
  case (work m' m p)
  then have "load32 m' l = load32 m l" by (intro c32.ld_cong) auto
  then show ?case using work by (simp add: lock_inv_def)
qed

lemma cpu_outside: "fst c = Outside \<Longrightarrow> cpu_wf l c \<and> \<not> owns c"
  by (cases c) simp

lemma cpu_inside: "fst c = Inside \<Longrightarrow> owns c"
  by (cases c) simp

lemma reachable_lock_inv: "reachable l s \<Longrightarrow> lock_inv l s"
proof (induction rule: reachable.induct)
  case (start m p)
  then show ?case by (simp add: lock_inv_def cpu_outside)
next
  case (step s t)
  then show ?case using lock_inv_step by blast
qed

text \<open>A processor that finds the lock free can take it, whatever the others are in the middle of.\<close>

lemma reachable_acq:
  "reachable l (p(i := (Acquiring, r)), m) \<Longrightarrow> exec_at acquire_code l (r, m) = (r', m') \<Longrightarrow>
    reachable l (p(i := (if lc_ret r' then Inside else Acquiring, r')), m')"
  using step [OF _ acq [of "p(i := (Acquiring, r))" i r]] by simp

lemma reachable_take:
  assumes "reachable l (p, m)" "fst (p i) = Outside" "load32 m l = 0"
  shows "\<exists>r. reachable l (p(i := (Inside, r)), store32 m l 1)"
proof -
  let ?r1 = "(enter regs0)\<lparr>lc_ecx := l, lc_pc := 1\<rparr>" let ?r2 = "?r1\<lparr>lc_eax := 1, lc_pc := 2\<rparr>"
  let ?r3 = "?r2\<lparr>lc_eax := 0, lc_pc := 3\<rparr>" let ?r4 = "?r3\<lparr>lc_zf := True, lc_pc := 4\<rparr>"
  let ?r5 = "?r4\<lparr>lc_pc := 5\<rparr>" let ?r6 = "?r5\<lparr>lc_pc := 6\<rparr>" let ?r7 = "?r6\<lparr>lc_ret := True\<rparr>"
  have r0: "reachable l (p(i := (Acquiring, enter regs0)), m)" by (rule step [OF assms(1) call]) (rule assms(2))
  have r1: "reachable l (p(i := (Acquiring, ?r1)), m)" using reachable_acq [OF r0, of ?r1 m] by (simp add: lock_code regs0_def)
  have r2: "reachable l (p(i := (Acquiring, ?r2)), m)" using reachable_acq [OF r1, of ?r2 m] by (simp add: lock_code regs0_def numeral_2_eq_2)
  have r3: "reachable l (p(i := (Acquiring, ?r3)), store32 m l 1)"
    using reachable_acq [OF r2, of ?r3 "store32 m l 1"] assms(3) by (simp add: lock_code regs0_def)
  have r4: "reachable l (p(i := (Acquiring, ?r4)), store32 m l 1)"
    using reachable_acq [OF r3, of ?r4 "store32 m l 1"] by (simp add: lock_code regs0_def)
  have r5: "reachable l (p(i := (Acquiring, ?r5)), store32 m l 1)"
    using reachable_acq [OF r4, of ?r5 "store32 m l 1"] by (simp add: lock_code regs0_def)
  have r6: "reachable l (p(i := (Acquiring, ?r6)), store32 m l 1)"
    using reachable_acq [OF r5, of ?r6 "store32 m l 1"] by (simp add: lock_code regs0_def)
  have "reachable l (p(i := (Inside, ?r7)), store32 m l 1)"
    using reachable_acq [OF r6, of ?r7 "store32 m l 1"] by (simp add: lock_code regs0_def)
  then show ?thesis by blast
qed

text \<open>A call of \<^verbatim>\<open>acquire\<close> on a processor that runs alone returns only when the lock was free.\<close>

lemma run_acquire_taken:
  assumes "run_code acquire_code l s = Some m'" "cpu_wf l (Acquiring, fst s)" "\<not> owns (Acquiring, fst s)"
  shows "load32 (snd s) l = 0"
proof -
  have "code = acquire_code \<longrightarrow> cpu_wf l (Acquiring, fst s) \<longrightarrow> \<not> owns (Acquiring, fst s) \<longrightarrow> load32 (snd s) l = 0"
    if "run_code code l s = Some m'" for code
  proof (induction rule: run_code.raw_induct [OF _ that, consumes 0])
    case (1 f code l s m')
    show ?case
    proof (intro impI, rule ccontr)
      assume a: "code = acquire_code" "cpu_wf l (Acquiring, fst s)" "\<not> owns (Acquiring, fst s)" "load32 (snd s) l \<noteq> 0"
      obtain r m where s: "s = (r, m)" by (cases s)
      obtain r' n where e: "exec_at acquire_code l (r, m) = (r', n)" by (cases "exec_at acquire_code l (r, m)")
      have nr: "\<not> lc_ret r" using a(2) s by simp
      have wf: "cpu_wf l (Acquiring, r)" and no: "\<not> owns (Acquiring, r)" using a(2,3) s by simp_all
      have o: "\<not> owns (if lc_ret r' then Inside else Acquiring, r')" "load32 n l \<noteq> 0"
        using acq_instr(2) [OF wf e] no a(4) s by auto
      then have nr': "\<not> lc_ret r'" by (auto split: if_splits)
      have "f code l (r', n) = Some m'" using 1(2) a(1) s e nr by simp
      from 1(1) [OF this] a(1) acq_instr(1) [OF wf e] o nr' show False by (simp del: cpu_wf.simps owns.simps)
    qed
  qed
  then show ?thesis using assms by blast
qed

lemma acquire_returns: "acquire l m = Some m' \<Longrightarrow> load32 m l = 0"
  using run_acquire_taken [of l "(enter regs0, m)" m'] by (simp add: acquire_def enter_def regs0_def)

section \<open>Nesting\<close>

lemma push_pop:
  assumes "0 < sint (ncli s)" "sint (ncli s) < 2 ^ 31 - 1"
  shows "popcli pf (pushcli s) = Some (s\<lparr>intr := False\<rparr>)"
proof -
  have "\<not> ncli s <s 0" "ncli s \<noteq> 0" using assms by (auto simp: word_sless_alt)
  then show ?thesis by (simp add: popcli_def pushcli_def Let_def)
qed

section \<open>Properties\<close>

text \<open>
  C37. The spin lock excludes: when any number of processors execute the instructions of \<^verbatim>\<open>acquire\<close> and \<^verbatim>\<open>release\<close>
  in any interleaving, one instruction at a time, and otherwise leave the word of the lock alone, no two are
  between the return of \<^verbatim>\<open>acquire\<close> and the call of \<^verbatim>\<open>release\<close> at once.
\<close>

theorem mutual_exclusion:
  assumes "reachable l (p, m)" "fst (p i) = Inside" "fst (p j) = Inside"
  shows "i = j"
proof -
  have "owns (p i)" "owns (p j)" using assms(2,3) by (simp_all add: cpu_inside)
  then show ?thesis using reachable_lock_inv [OF assms(1)] by (auto simp: lock_inv_def split: if_splits)
qed

theorem mutual_exclusion_witness:
  "\<exists>p m. reachable 0x1000 (p, m) \<and> fst (p 0) = Inside \<and> fst (p 1) = Acquiring \<and> (\<forall>j. fst (p j) = Inside \<longrightarrow> j = 0)"
proof -
  let ?m = "\<lambda>_ :: u32. 0 :: u8" let ?p = "(\<lambda>_ :: nat. (Outside, regs0))(1 := (Acquiring, enter regs0))"
  have z: "load32 ?m 0x1000 = 0" by (simp add: load32_def)
  have "reachable 0x1000 (\<lambda>_. (Outside, regs0), ?m)" by (rule start) (simp_all add: z)
  then have "reachable 0x1000 (?p, ?m)" by (rule step [OF _ call]) simp
  from reachable_take [OF this, of 0] z obtain r where r: "reachable 0x1000 (?p(0 := (Inside, r)), store32 ?m 0x1000 1)" by auto
  let ?q = "?p(0 := (Inside, r))"
  have q: "fst (?q 0) = Inside" "fst (?q 1) = Acquiring" by simp_all
  have "\<forall>j. fst (?q j) = Inside \<longrightarrow> j = 0" using mutual_exclusion [OF r _ q(1)] by blast
  then show ?thesis using r q by blast
qed

end
