(* ===== verification/Mem_More.thy ===== *)
theory Mem_More
  imports Diag "HOL-Library.Signed_Division"
begin

text \<open>
  The functions of the memory components that print or allocate on the way: \<^verbatim>\<open>strdup\<close> and \<^verbatim>\<open>memmove\<close> of
  \<^verbatim>\<open>lib/string.c\<close>, the reports of \<^verbatim>\<open>mem/mm.c\<close> and \<^verbatim>\<open>mem/malloc.c\<close>, and the functions of \<^verbatim>\<open>mem/paging.c\<close> that create,
  fill, copy and walk page directories.  \<open>pf\<close> prints; \<open>hp\<close> prints the messages of the heap's own functions.
\<close>

section \<open>Strings\<close>

definition strdup :: "u32 \<Rightarrow> 'a heap_state_scheme \<Rightarrow> (u32 \<times> 'a heap_state_scheme) option" where
  "strdup str s = do {
     n \<leftarrow> strlen (mem s) str;
     (p, s) \<leftarrow> malloc n s;
     (m, r) \<leftarrow> strcpy (mem s) p str;
     Some (r, s\<lparr>mem := m\<rparr>) }"

text \<open>Both loops of \<^verbatim>\<open>memmove\<close> copy byte by byte from the front, as \<^verbatim>\<open>memcpy\<close> does.\<close>

definition memmove :: "u32 \<Rightarrow> u32 \<Rightarrow> u32 \<Rightarrow> 'a heap_state_scheme \<Rightarrow> (u32 \<times> 'a heap_state_scheme) option" where
  "memmove s1 s2 n s = do {
     (temp, s) \<leftarrow> malloc n s;
     let m = memcpy_loop (mem s) temp s2 n 0; m = memcpy_loop m s1 temp n 0 in do {
       (_, s) \<leftarrow> free temp (s\<lparr>mem := m\<rparr>);
       Some (s1, s) } }"

section \<open>Reports of the physical memory manager\<close>

text \<open>Division and remainder of an \<^verbatim>\<open>int\<close> by 32 truncate toward zero.\<close>

definition int_div32 :: "u32 \<Rightarrow> u32" where
  "int_div32 a = word_of_int (sint a sdiv 32)"

definition int_mod32 :: "u32 \<Rightarrow> u32" where
  "int_mod32 a = word_of_int (sint a smod 32)"

definition mm_debug :: "'a mm_state_scheme printer \<Rightarrow> 'a mm_state_scheme \<Rightarrow> 'a mm_state_scheme option" where
  "mm_debug pf s =
    (let ptidx = mm_first_free (mem s) (MM_CURRENT_PT s); pdidx = mm_first_free (mem s) (MM_CURRENT_PD s) in do {
       s \<leftarrow> pf (''Physical Memory Manager: First free address: 0x%x'' @ newline) [PW (pdidx * 0x00400000 + ptidx * 0x1000)] s;
       s \<leftarrow> pf (''PT (%d):'' @ [CHR 0x09] @ ''%b'' @ newline)
         [PW (int_mod32 ptidx), PW (load32 (mem s) (MM_CURRENT_PT s + 4 * int_div32 ptidx))] s;
       pf (''PD (%d):'' @ [CHR 0x09] @ ''%b'' @ newline)
         [PW (int_mod32 pdidx), PW (load32 (mem s) (MM_CURRENT_PD s + 4 * int_div32 pdidx))] s })"

text \<open>The word of the table bitmap with the first free bit; \<^verbatim>\<open>mm_first_free\<close> returns an \<^verbatim>\<open>int\<close>.\<close>

definition pt_free_word :: "'a mm_state_scheme \<Rightarrow> u32" where
  "pt_free_word s = load32 (mem s) (MM_CURRENT_PT s + 4 * int_div32 (mm_first_free (mem s) (MM_CURRENT_PT s)))"

fun mm_test_loop :: "(string \<Rightarrow> u32) \<Rightarrow> 'a vga_state_scheme printer \<Rightarrow> nat \<Rightarrow> 'a vga_state_scheme \<Rightarrow> 'a vga_state_scheme option" where
  "mm_test_loop lit pf 0 s = Some s"
| "mm_test_loop lit pf (Suc i) s = do {
     (result, s) \<leftarrow> k_page_alloc s;
     s \<leftarrow> (if result = ERR_NO_MEM then vga_pretty (lit ''[FAIL] no memory left'') 0x4 s
       else pf (''Testing allocation: 0x%x : PT$ %b'' @ newline) [PW result, PW (pt_free_word s)] s);
     mm_test_loop lit pf i s }"

definition mm_test :: "(string \<Rightarrow> u32) \<Rightarrow> 'a vga_state_scheme printer \<Rightarrow> 'a vga_state_scheme \<Rightarrow> 'a vga_state_scheme option" where
  "mm_test lit pf s =
    (let ff_pdb = mm_first_free (mem s) (MM_CURRENT_PD s); ff_ptb = mm_first_free (mem s) (MM_CURRENT_PT s) in do {
       s \<leftarrow> pf (''PD @ %x | PT @ %x'' @ newline) [PW (MM_CURRENT_PD s), PW (MM_CURRENT_PT s)] s;
       s \<leftarrow> pf (''ff_pdb %d'' @ newline) [PW ff_pdb] s;
       s \<leftarrow> pf (''ff_ptb %d'' @ newline) [PW ff_ptb] s;
       let first_address = ff_pdb * 0x1000 * 0x400 + ff_ptb * 0x1000 in do {
         s \<leftarrow> mm_test_loop lit pf 3 s;
         let (_, s) = k_page_free (first_address + 0x30) s in do {
           s \<leftarrow> pf (''Testing free offset: 0x%x :PT$ %b'' @ newline) [PW first_address, PW (pt_free_word s)] s;
           (next, s) \<leftarrow> k_page_alloc s;
           if next = first_address then vga_pretty (lit (''Success!'' @ newline)) 0x0A s
           else do {
             s \<leftarrow> vga_pretty (lit (''Something went wrong'' @ newline)) 0x4 s;
             s \<leftarrow> pf (''Current ff_pdb: 0x%x'' @ newline) [PW ff_pdb] s;
             pf (''Current bitmap value: %b'' @ newline) [PW (load32 (mem s) (MM_CURRENT_PD s + 4))] s } } } })"

section \<open>Reports of the heap\<close>

definition blockinfo ::
  "'a heap_state_scheme printer \<Rightarrow> ('a heap_state_scheme \<Rightarrow> 'a heap_state_scheme option) \<Rightarrow> u32 \<Rightarrow> 'a heap_state_scheme \<Rightarrow>
   'a heap_state_scheme option" where
  "blockinfo pf hp block s =
    (if block = 0 then Some s
     else let v = load32 (mem s) block; i = (block - BLOCKCHAIN_START s) div 4 in do {
       (link, s) \<leftarrow> translate hp block s;
       pf (''Block (%d) 0x%x | Used: %d | Size: %d | Link 0x%x'' @ newline)
         [PW i, PW block, PW (block_used v), PW (block_size v), PW link] s })"

partial_function (option) traverse_loop ::
  "'a heap_state_scheme printer \<Rightarrow> ('a heap_state_scheme \<Rightarrow> 'a heap_state_scheme option) \<Rightarrow> u32 \<Rightarrow> u32 \<Rightarrow> 'a heap_state_scheme \<Rightarrow>
   'a heap_state_scheme option" where
  "traverse_loop pf hp block i s =
    (if i < BLOCKS_ALLOCATED s
     then let v = load32 (mem s) block in do {
       (link, s) \<leftarrow> translate hp block s;
       s \<leftarrow> pf (''Block (%d) 0x%x'' @ [CHR 0x09] @ ''Used: %d'' @ [CHR 0x09] @ ''Size: %d'' @ [CHR 0x09] @ ''Link 0x%x'' @ newline)
         [PW i, PW block, PW (block_used v), PW (block_size v), PW link] s;
       traverse_loop pf hp (block + 4) (i + 1) s }
     else Some s)"

definition traverse_blockchain ::
  "'a heap_state_scheme printer \<Rightarrow> ('a heap_state_scheme \<Rightarrow> 'a heap_state_scheme option) \<Rightarrow> 'a heap_state_scheme \<Rightarrow>
   'a heap_state_scheme option" where
  "traverse_blockchain pf hp s = do {
     s \<leftarrow> traverse_loop pf hp (BLOCKCHAIN_START s) 0 s;
     s \<leftarrow> pf (''%d bytes allocated across %d blocks'' @ newline) [PW (K_LAST_ALLOC s - K_HEAP_BOTTOM), PW (BLOCKS_ALLOCATED s)] s;
     pf (''%x HEAP_BRK, %x LAST_ALLOC'' @ newline) [PW (K_HEAP_TOP s), PW (K_LAST_ALLOC s)] s }"

definition k_heap_test ::
  "'a heap_state_scheme printer \<Rightarrow> ('a heap_state_scheme \<Rightarrow> 'a heap_state_scheme option) \<Rightarrow> 'a heap_state_scheme \<Rightarrow>
   'a heap_state_scheme option" where
  "k_heap_test pf hp s = do {
     (a, s) \<leftarrow> malloc_a hp 4096 s;
     (_, s) \<leftarrow> free a s;
     (_, s) \<leftarrow> malloc_a hp 4096 s;
     traverse_blockchain pf hp s }"

section \<open>Page directories\<close>

definition PF_ACCESSED :: u32 where "PF_ACCESSED = 0x20"
definition PF_DIRTY :: u32 where "PF_DIRTY = 0x40"

text \<open>The counts of \<^verbatim>\<open>paging_info\<close>: dirty, accessed and all entries; \<open>k\<close> counts the entries left.\<close>

fun info_pt :: "mem \<Rightarrow> u32 \<Rightarrow> nat \<Rightarrow> nat \<Rightarrow> u32 \<times> u32 \<times> u32 \<Rightarrow> u32 \<times> u32 \<times> u32" where
  "info_pt m pt q 0 c = c"
| "info_pt m pt q (Suc k) (dirty, accessed, all) =
    (let e = load32 m (pt + 4 * of_nat q) in
     info_pt m pt (Suc q) k
       (if e AND PF_DIRTY \<noteq> 0 then dirty + 1 else dirty, if e AND PF_ACCESSED \<noteq> 0 then accessed + 1 else accessed,
        if e \<noteq> 0 then all + 1 else all))"

fun info_pd :: "mem \<Rightarrow> u32 \<Rightarrow> nat \<Rightarrow> nat \<Rightarrow> u32 \<times> u32 \<times> u32 \<Rightarrow> u32 \<times> u32 \<times> u32" where
  "info_pd m pd i 0 c = c"
| "info_pd m pd i (Suc k) c =
    (let e = load32 m (pd + 4 * of_nat i) AND NOT 0x3FF in
     info_pd m pd (Suc i) k (if e \<noteq> 0 then info_pt m (P2V e) 0 1024 c else c))"

definition paging_info :: "'a machine_scheme printer \<Rightarrow> u32 \<Rightarrow> 'a machine_scheme \<Rightarrow> 'a machine_scheme option" where
  "paging_info pf pd s =
    (let (dirty, accessed, all) = info_pd (mem s) pd 0 1024 (0, 0, 0) in
     pf (''Page directory 0x%x'' @ [CHR 0x09] @ ''Total pages: %d'' @ [CHR 0x09] @ ''D:%d'' @ [CHR 0x09] @ ''A:%d'' @ newline)
       [PW pd, PW all, PW dirty, PW accessed] s)"

fun walk_pt :: "'a machine_scheme printer \<Rightarrow> u32 \<Rightarrow> nat \<Rightarrow> nat \<Rightarrow> nat \<Rightarrow> 'a machine_scheme \<Rightarrow> 'a machine_scheme option" where
  "walk_pt pf pt i q 0 s = Some s"
| "walk_pt pf pt i q (Suc k) s = do {
     s \<leftarrow> (if load32 (mem s) (pt + 4 * of_nat q) AND NOT 0x3FF \<noteq> 0
       then pf (''%x -> %x'' @ newline) [PW (load32 (mem s) (pt + 4 * of_nat q)), PW (push_bit 22 (of_nat i) + push_bit 12 (of_nat q))] s
       else Some s);
     walk_pt pf pt i (Suc q) k s }"

fun walk_pd :: "'a machine_scheme printer \<Rightarrow> u32 \<Rightarrow> nat \<Rightarrow> nat \<Rightarrow> 'a machine_scheme \<Rightarrow> 'a machine_scheme option" where
  "walk_pd pf pd i 0 s = Some s"
| "walk_pd pf pd i (Suc k) s = do {
     let e = load32 (mem s) (pd + 4 * of_nat i) AND NOT 0x3FF in do {
       s \<leftarrow> (if e \<noteq> 0 then walk_pt pf e i 0 1024 s else Some s);
       walk_pd pf pd (Suc i) k s } }"

definition walk_pagedir :: "'a machine_scheme printer \<Rightarrow> u32 \<Rightarrow> 'a machine_scheme \<Rightarrow> 'a machine_scheme option" where
  "walk_pagedir pf pd s = do {
     s \<leftarrow> walk_pd pf pd 0 1024 s;
     pf (''pd @ 0x%x'' @ newline) [PW pd] s }"

definition paging_line :: "u32 \<Rightarrow> string \<Rightarrow> parg list" where
  "paging_line = at_line ''mem/paging.c''"

text \<open>\<open>numpages\<close> fresh pages at \<open>virt\<close>; a failing allocation prints and is mapped all the same.\<close>

fun map_pages ::
  "'a mm_state_scheme printer \<Rightarrow> parg list \<Rightarrow> u32 \<Rightarrow> u32 \<Rightarrow> u32 \<Rightarrow> u32 \<Rightarrow> nat \<Rightarrow> 'a mm_state_scheme \<Rightarrow> 'a mm_state_scheme option" where
  "map_pages pf loc pd virt flags i 0 s = Some s"
| "map_pages pf loc pd virt flags i (Suc k) s = do {
     (phys, s) \<leftarrow> k_page_alloc s;
     s \<leftarrow> (if phys = 0 then panic pf loc ''MM error'' s else Some s);
     map_pages pf loc pd virt flags (i + 1) k (paging_map pd phys (virt + i * 0x1000) flags s) }"

text \<open>The test looks at entry \<open>i\<close>, the store goes to the entry of the address.\<close>

fun more_tables :: "u32 \<Rightarrow> u32 \<Rightarrow> u32 \<Rightarrow> u32 \<Rightarrow> nat \<Rightarrow> 'a mm_state_scheme \<Rightarrow> 'a mm_state_scheme" where
  "more_tables pd virt flags i 0 s = s"
| "more_tables pd virt flags i (Suc k) s =
    (let pdi = drop_bit 22 (virt + i * 0x1000 * 0x400);
         s = (if load32 (mem s) (pd + 4 * i) AND NOT 0x3FF = 0
           then let (a, s) = mm_alloc 0x1000 s; pt = a - 4 * KERNEL_VIRT
                in s\<lparr>mem := store32 (mem s) (pd + 4 * pdi) (pt OR flags)\<rparr>
           else s)
     in more_tables pd virt flags (i + 1) k s)"

definition paging_map_more ::
  "'a mm_state_scheme printer \<Rightarrow> u32 \<Rightarrow> u32 \<Rightarrow> u32 \<Rightarrow> u32 \<Rightarrow> 'a mm_state_scheme \<Rightarrow> 'a mm_state_scheme option" where
  "paging_map_more pf pd virt numpages flags s =
    (if pd = 0 then panic pf (paging_line 284 ''_paging_map_more'') ''NULL page directory'' s
     else let s = (if 1024 < numpages then more_tables pd virt flags 0 (unat (numpages div 1024 + 1)) s else s)
       in map_pages pf (paging_line 303 ''_paging_map_more'') pd virt flags 0 (unat numpages) s)"

fun create_tables ::
  "'a mm_state_scheme printer \<Rightarrow> u32 \<Rightarrow> u32 \<Rightarrow> u32 \<Rightarrow> u32 \<Rightarrow> nat \<Rightarrow> 'a mm_state_scheme \<Rightarrow> 'a mm_state_scheme option" where
  "create_tables pf pd virt flags i 0 s = Some s"
| "create_tables pf pd virt flags i (Suc k) s =
    (let pdi = drop_bit 22 (virt + i * 0x1000 * 0x400) in do {
       s \<leftarrow> pf (''%d pdi'' @ newline) [PW pdi] s;
       let (pt, s) = mm_alloc 0x1000 s;
           s = s\<lparr>mem := store32 (mem s) (pd + 4 * pdi) (V2P pt OR flags)\<rparr>
       in do {
         s \<leftarrow> pf (''%x'' @ newline) [PW (load32 (mem s) (pd + 4 * pdi))] s;
         create_tables pf pd virt flags (i + 1) k s } })"

definition k_create_pagedir ::
  "'a paging_state_scheme printer \<Rightarrow> u32 \<Rightarrow> u32 \<Rightarrow> u32 \<Rightarrow> 'a paging_state_scheme \<Rightarrow> (u32 \<times> 'a paging_state_scheme) option" where
  "k_create_pagedir pf virt numpages flags s =
    (let (pd, s) = mm_alloc 0x1000 s in do {
       s \<leftarrow> (if 1024 < numpages then create_tables pf pd virt flags 0 (unat (numpages div 1024 + 1)) s else Some s);
       s \<leftarrow> map_pages pf (paging_line 459 ''k_create_pagedir'') pd virt flags 0 (unat numpages) s;
       let s = s\<lparr>mem := store32 (mem s) (pd + 4 * 1022) (V2P (KERNEL_PAGE_DIRECTORY s) OR PF_PRESENT OR PF_RW)\<rparr>;
           s = s\<lparr>mem := store32 (mem s) (pd + 4 * 1023) (V2P pd OR PF_PRESENT OR PF_RW)\<rparr>
       in Some (pd, s) })"

fun pd_cp_loop :: "u32 \<Rightarrow> u32 \<Rightarrow> nat \<Rightarrow> nat \<Rightarrow> mem \<Rightarrow> mem" where
  "pd_cp_loop pd src i 0 m = m"
| "pd_cp_loop pd src i (Suc k) m = pd_cp_loop pd src (Suc i) k (store32 m (pd + 4 * of_nat i) (load32 m (src + 4 * of_nat i)))"

text \<open>\<^verbatim>\<open>k_pd_cp\<close> has no \<^verbatim>\<open>return\<close>.\<close>

definition k_pd_cp :: "'a paging_state_scheme printer \<Rightarrow> u32 \<Rightarrow> 'a paging_state_scheme \<Rightarrow> (u32 \<times> 'a paging_state_scheme) option" where
  "k_pd_cp pf src s = do {
     (pd, s) \<leftarrow> k_create_pagedir pf 0 0 0x7 s;
     Some (indet s, s\<lparr>mem := pd_cp_loop pd src 0 1024 (mem s)\<rparr>) }"

section \<open>Copying between address spaces\<close>

text \<open>The address of a page in the current directory; one that is not mapped gets a temporary mapping.\<close>

definition page_window ::
  "('a heap_state_scheme \<Rightarrow> 'a heap_state_scheme option) \<Rightarrow> u32 \<Rightarrow> u32 \<Rightarrow> 'a heap_state_scheme \<Rightarrow>
   (u32 \<times> bool \<times> 'a heap_state_scheme) option" where
  "page_window hp pa va s =
    (if va = 0
     then do { (va, s) \<leftarrow> malloc_a hp 0x1000 s; Some (va, True, k_paging_map pa va 0x7 s) }
     else Some (va, False, s))"

text \<open>The page address advances before it is used; each iteration copies the page behind the one it is about.\<close>

partial_function (option) page_copy_loop ::
  "'a heap_state_scheme printer \<Rightarrow> ('a heap_state_scheme \<Rightarrow> 'a heap_state_scheme option) \<Rightarrow> u32 \<Rightarrow> u32 \<Rightarrow> u32 \<Rightarrow> u32 \<Rightarrow> u32 \<Rightarrow> u32 \<Rightarrow> u32 \<Rightarrow>
   'a heap_state_scheme \<Rightarrow> 'a heap_state_scheme option" where
  "page_copy_loop pf hp dest src n i va0 ofs sz s =
    (if i < n
     then let va0 = va0 + 0x1000;
              cp = (if 0x1000 \<le> sz then 0x1000 - ofs else sz);
              pa_src = virt_to_phys (mem s) src va0;
              pa_dest = virt_to_phys (mem s) dest va0
       in if pa_src = 0 then do {
            s \<leftarrow> pf ''%x '' [PW va0] s;
            panic pf (paging_line 362 ''page_copy'') ''Page not mapped in source page directory!'' s }
          else if pa_dest = 0 then panic pf (paging_line 368 ''page_copy'') ''Missing pages in dest'' s
          else let va_src = k_phys_to_virt pa_src s; va_dest = k_phys_to_virt pa_dest s in do {
            (va_src, src_free, s) \<leftarrow> page_window hp pa_src va_src s;
            (va_dest, dest_free, s) \<leftarrow> page_window hp pa_dest va_dest s;
            let s = s\<lparr>mem := fst (memcpy (mem s) (va_dest + ofs) (va_src + ofs) cp)\<rparr> in do {
              s \<leftarrow> (if dest_free then do { (_, s) \<leftarrow> free va_dest s; Some (snd (k_paging_unmap va_dest s)) } else Some s);
              s \<leftarrow> (if src_free then do { (_, s) \<leftarrow> free va_src (snd (k_paging_unmap va_src s)); Some s } else Some s);
              page_copy_loop pf hp dest src n (i + 0x1000) va0 0 (sz - cp) s } }
     else Some s)"

definition page_copy ::
  "'a heap_state_scheme printer \<Rightarrow> ('a heap_state_scheme \<Rightarrow> 'a heap_state_scheme option) \<Rightarrow> u32 \<Rightarrow> u32 \<Rightarrow> u32 \<Rightarrow> u32 \<Rightarrow>
   'a heap_state_scheme \<Rightarrow> 'a heap_state_scheme option" where
  "page_copy pf hp dest src virt n s =
    (let va0 = virt AND NOT 0xFFF in page_copy_loop pf hp dest src n 0 va0 (virt - va0) n s)"

end
