(* ===== verification/Elf.thy ===== *)
theory Elf
  imports Mutex Mem_More
begin

text \<open>
  Executables, \<^verbatim>\<open>elf.c\<close>: the table of kernel symbols and the lookup of an address in it, the dump of an object file,
  and loading a program.  The structures of \<^verbatim>\<open>elf.h\<close> are read in memory at the offsets the compiler gives their
  members; \<^verbatim>\<open>elf32_sym\<close> declares its name and its size with 16 bits, so its members lie elsewhere than in the format.
\<close>

section \<open>File structures\<close>

definition ELF_MAGIC :: u32 where "ELF_MAGIC = 0x464C457F"
definition ET_EXEC :: u16 where "ET_EXEC = 2"
definition EM_386 :: u16 where "EM_386 = 3"
definition SHT_SYMTAB :: u32 where "SHT_SYMTAB = 2"
definition SHT_STRTAB :: u32 where "SHT_STRTAB = 3"
definition SHT_REL :: u32 where "SHT_REL = 9"

definition e_ident :: "mem \<Rightarrow> u32 \<Rightarrow> u32" where "e_ident m h = load32 m h"
definition e_type :: "mem \<Rightarrow> u32 \<Rightarrow> u16" where "e_type m h = load16 m (h + 16)"
definition e_machine :: "mem \<Rightarrow> u32 \<Rightarrow> u16" where "e_machine m h = load16 m (h + 18)"
definition e_version :: "mem \<Rightarrow> u32 \<Rightarrow> u32" where "e_version m h = load32 m (h + 20)"
definition e_entry :: "mem \<Rightarrow> u32 \<Rightarrow> u32" where "e_entry m h = load32 m (h + 24)"
definition e_phoff :: "mem \<Rightarrow> u32 \<Rightarrow> u32" where "e_phoff m h = load32 m (h + 28)"
definition e_shoff :: "mem \<Rightarrow> u32 \<Rightarrow> u32" where "e_shoff m h = load32 m (h + 32)"
definition e_flags :: "mem \<Rightarrow> u32 \<Rightarrow> u32" where "e_flags m h = load32 m (h + 36)"
definition e_phentsize :: "mem \<Rightarrow> u32 \<Rightarrow> u16" where "e_phentsize m h = load16 m (h + 42)"
definition e_phnum :: "mem \<Rightarrow> u32 \<Rightarrow> u16" where "e_phnum m h = load16 m (h + 44)"
definition e_shentsize :: "mem \<Rightarrow> u32 \<Rightarrow> u16" where "e_shentsize m h = load16 m (h + 46)"
definition e_shnum :: "mem \<Rightarrow> u32 \<Rightarrow> u16" where "e_shnum m h = load16 m (h + 48)"
definition e_shstrndx :: "mem \<Rightarrow> u32 \<Rightarrow> u16" where "e_shstrndx m h = load16 m (h + 50)"

definition sizeof_shdr :: u32 where "sizeof_shdr = 40"
definition sh_name :: "mem \<Rightarrow> u32 \<Rightarrow> u32" where "sh_name m h = load32 m h"
definition sh_type :: "mem \<Rightarrow> u32 \<Rightarrow> u32" where "sh_type m h = load32 m (h + 4)"
definition sh_addr :: "mem \<Rightarrow> u32 \<Rightarrow> u32" where "sh_addr m h = load32 m (h + 12)"
definition sh_offset :: "mem \<Rightarrow> u32 \<Rightarrow> u32" where "sh_offset m h = load32 m (h + 16)"
definition sh_size :: "mem \<Rightarrow> u32 \<Rightarrow> u32" where "sh_size m h = load32 m (h + 20)"
definition sh_link :: "mem \<Rightarrow> u32 \<Rightarrow> u32" where "sh_link m h = load32 m (h + 24)"
definition sh_info :: "mem \<Rightarrow> u32 \<Rightarrow> u32" where "sh_info m h = load32 m (h + 28)"
definition sh_addralign :: "mem \<Rightarrow> u32 \<Rightarrow> u32" where "sh_addralign m h = load32 m (h + 32)"

definition sizeof_phdr :: u32 where "sizeof_phdr = 32"
definition p_offset :: "mem \<Rightarrow> u32 \<Rightarrow> u32" where "p_offset m p = load32 m (p + 4)"
definition p_vaddr :: "mem \<Rightarrow> u32 \<Rightarrow> u32" where "p_vaddr m p = load32 m (p + 8)"
definition p_paddr :: "mem \<Rightarrow> u32 \<Rightarrow> u32" where "p_paddr m p = load32 m (p + 12)"
definition p_filesz :: "mem \<Rightarrow> u32 \<Rightarrow> u32" where "p_filesz m p = load32 m (p + 16)"
definition p_memsz :: "mem \<Rightarrow> u32 \<Rightarrow> u32" where "p_memsz m p = load32 m (p + 20)"
definition p_align :: "mem \<Rightarrow> u32 \<Rightarrow> u32" where "p_align m p = load32 m (p + 28)"

definition sizeof_sym :: u32 where "sizeof_sym = 16"
definition st_name :: "mem \<Rightarrow> u32 \<Rightarrow> u16" where "st_name m p = load16 m p"
definition st_value :: "mem \<Rightarrow> u32 \<Rightarrow> u32" where "st_value m p = load32 m (p + 4)"
definition sym_size :: "mem \<Rightarrow> u32 \<Rightarrow> u16" where "sym_size m p = load16 m (p + 8)"
definition st_info :: "mem \<Rightarrow> u32 \<Rightarrow> u8" where "st_info m p = m (p + 10)"

definition sizeof_rel :: u32 where "sizeof_rel = 8"
definition r_offset :: "mem \<Rightarrow> u32 \<Rightarrow> u32" where "r_offset m p = load32 m p"
definition r_info :: "mem \<Rightarrow> u32 \<Rightarrow> u16" where "r_info m p = load16 m (p + 4)"

section \<open>Kernel symbols\<close>

text \<open>
  \<open>kernel_symbols\<close> points to an array of \<^verbatim>\<open>struct ksym\<close>: an address, 32 bytes of name, a size.  \<open>proc_pd\<close>, \<open>proc_base\<close> and
  \<open>proc_brk\<close> are the members of \<^verbatim>\<open>cp_mmap\<close>, the memory of the running program.
\<close>

record elf_state = cli_state +
  kernel_symbols :: u32
  no_ksym :: c_int
  proc_pd :: u32
  proc_base :: u32
  proc_brk :: u32

definition sizeof_ksym :: u32 where "sizeof_ksym = 40"

definition elf_line :: "u32 \<Rightarrow> string \<Rightarrow> parg list" where
  "elf_line = at_line ''elf.c''"

text \<open>The last section of each name; both names are looked at in every header.\<close>

partial_function (option) find_tables :: "(string \<Rightarrow> u32) \<Rightarrow> mem \<Rightarrow> u32 \<Rightarrow> u32 \<Rightarrow> u32 \<Rightarrow> u32 \<Rightarrow> u32 \<Rightarrow> (u32 \<times> u32) option" where
  "find_tables lit m string_table shdr last_shdr symtab strtab =
    (if shdr < last_shdr
     then do {
       a \<leftarrow> strcmp m (lit ''.symtab'') (string_table + sh_name m shdr);
       let symtab = (if a = 0 then shdr else symtab) in do {
         b \<leftarrow> strcmp m (lit ''.strtab'') (string_table + sh_name m shdr);
         let strtab = (if b = 0 then shdr else strtab) in
         find_tables lit m string_table (shdr + sizeof_shdr) last_shdr symtab strtab } }
     else Some (symtab, strtab))"

text \<open>The comma in \<^verbatim>\<open>i < 32, i < strlen(tmp)\<close> drops the bound of the array.\<close>

partial_function (option) ksym_name :: "u32 \<Rightarrow> u32 \<Rightarrow> u32 \<Rightarrow> mem \<Rightarrow> mem option" where
  "ksym_name dst tmp i m = do {
     n \<leftarrow> strlen m tmp;
     if i < n then ksym_name dst tmp (i + 1) (m(dst + i := m (tmp + i))) else Some m }"

partial_function (option) ksym_fill ::
  "'a elf_state_scheme printer \<Rightarrow> u32 \<Rightarrow> u32 \<Rightarrow> u32 \<Rightarrow> u32 \<Rightarrow> u32 \<Rightarrow> 'a elf_state_scheme \<Rightarrow> (u32 \<times> 'a elf_state_scheme) option" where
  "ksym_fill pf strtab_d sym_tab_sz last_sym sy q s =
    (if sy < last_sym
     then do {
       (q, s) \<leftarrow>
         (if st_name (mem s) sy \<noteq> 0 \<and> KERNEL_VIRT < st_value (mem s) sy
          then do {
            s \<leftarrow> (if sym_tab_sz < q then pf (''ERROR'' @ newline) [] s else Some s);
            let tmp = ucast (st_name (mem s) sy) + strtab_d;
                ks = kernel_symbols s + q * sizeof_ksym;
                s = set_word ks (st_value (mem s) sy) s;
                s = set_word (ks + 36) (ucast (sym_size (mem s) sy)) s
            in do {
              m \<leftarrow> ksym_name (ks + 4) tmp 0 (mem s);
              Some (q + 1, s\<lparr>mem := m\<rparr>) } }
          else Some (q, s));
       ksym_fill pf strtab_d sym_tab_sz last_sym (sy + sizeof_sym) q s }
     else Some (q, s))"

definition build_ksyms :: "(string \<Rightarrow> u32) \<Rightarrow> 'a elf_state_scheme printer \<Rightarrow> 'a elf_state_scheme \<Rightarrow> 'a elf_state_scheme option" where
  "build_ksyms lit pf s = do {
     (ki, s) \<leftarrow> find_inode_in_dir pf (lit ''kernel.bin'') 2 s;
     (ino, s) \<leftarrow> ext2_inode pf 1 ki s;
     (data, s) \<leftarrow> ext2_open pf ino s;
     s \<leftarrow> assert pf (elf_line 50 ''build_ksyms'') ''ehdr->e_ident[0] == ELF_MAGIC'' (e_ident (mem s) data = ELF_MAGIC) s;
     s \<leftarrow> assert pf (elf_line 51 ''build_ksyms'') ''ehdr->e_machine == EM_386'' (e_machine (mem s) data = EM_386) s;
     s \<leftarrow> assert pf (elf_line 52 ''build_ksyms'') ''ehdr->e_type == ET_EXEC'' (e_type (mem s) data = ET_EXEC) s;
     let m = mem s;
         shdr = data + e_shoff m data;
         sh_str = shdr + ucast (e_shentsize m data) * ucast (e_shstrndx m data);
         last_shdr = shdr + ucast (e_shentsize m data) * ucast (e_shnum m data);
         string_table = data + sh_offset m sh_str
     in do {
       (symtab, strtab) \<leftarrow> find_tables lit m string_table (shdr + sizeof_shdr) last_shdr 0 0;
       if strtab = 0 \<or> symtab = 0 then vga_pretty (lit ''ERROR: Could not load symbol table'') 0x4 s
       else
         let sy = data + sh_offset m symtab;
             last_sym = sy + sh_size m symtab;
             strtab_d = data + sh_offset m strtab;
             sym_tab_sz = (last_sym - sy) div sizeof_sym
         in do {
           (ks, s) \<leftarrow> malloc (sizeof_ksym * sym_tab_sz) s;
           (q, s) \<leftarrow> ksym_fill pf strtab_d sym_tab_sz last_sym sy 0 (s\<lparr>kernel_symbols := ks\<rparr>);
           (_, s) \<leftarrow> free data (s\<lparr>no_ksym := q\<rparr>);
           Some s } } }"

text \<open>\<open>k\<close> counts the symbols left.\<close>

fun ksym_loop :: "mem \<Rightarrow> u32 \<Rightarrow> u32 \<Rightarrow> u32 \<Rightarrow> nat \<Rightarrow> c_int \<times> u32 \<Rightarrow> u32" where
  "ksym_loop m ks addr i 0 (closest_diff, found) = found"
| "ksym_loop m ks addr i (Suc k) (closest_diff, found) =
    (let diff = addr - load32 m (ks + i * sizeof_ksym) in
     ksym_loop m ks addr (i + 1) k (if diff <s closest_diff \<and> 0 <s diff then (diff, i) else (closest_diff, found)))"

definition ksym_find :: "u32 \<Rightarrow> 'a elf_state_scheme \<Rightarrow> u32" where
  "ksym_find addr s =
    (if kernel_symbols s = 0 then 0
     else kernel_symbols s + ksym_loop (mem s) (kernel_symbols s) addr 0 (nat (sint (no_ksym s))) (0x1000, 0) * sizeof_ksym + 4)"

section \<open>Object files\<close>

text \<open>\<^verbatim>\<open>%x\<close> of the six numbers of a program header, as the dump and the loader print them.\<close>

definition print_phdr :: "'a machine_scheme printer \<Rightarrow> u32 \<Rightarrow> 'a machine_scheme \<Rightarrow> 'a machine_scheme option" where
  "print_phdr pf phdr s =
    pf (''LOAD:'' @ tab @ ''off 0x%x'' @ tab @ ''vaddr'' @ tab @ ''0x%x'' @ tab @ ''paddr'' @ tab @ ''0x%x'' @ newline @
        tab @ tab @ ''filesz'' @ tab @ ''%d'' @ tab @ ''memsz'' @ tab @ ''%d'' @ tab @ ''align'' @ tab @ ''%d'' @ tab @ newline)
      (map PW [p_offset (mem s) phdr, p_vaddr (mem s) phdr, p_paddr (mem s) phdr, p_filesz (mem s) phdr,
        p_memsz (mem s) phdr, p_align (mem s) phdr]) s"

partial_function (option) dump_phdrs :: "'a machine_scheme printer \<Rightarrow> u32 \<Rightarrow> u32 \<Rightarrow> 'a machine_scheme \<Rightarrow> 'a machine_scheme option" where
  "dump_phdrs pf last_phdr phdr s =
    (if phdr < last_phdr
     then do { s \<leftarrow> print_phdr pf phdr s; dump_phdrs pf last_phdr (phdr + sizeof_phdr) s }
     else Some s)"

definition named_section :: "(string \<Rightarrow> u32) \<Rightarrow> mem \<Rightarrow> u32 \<Rightarrow> string \<Rightarrow> u32 \<Rightarrow> u32 \<Rightarrow> u32 \<Rightarrow> u32 option" where
  "named_section lit m string_table name ty shdr old = do {
     a \<leftarrow> strcmp m (lit name) (string_table + sh_name m shdr);
     Some (if a = 0 \<and> sh_type m shdr = ty then shdr else old) }"

partial_function (option) dump_shdrs ::
  "(string \<Rightarrow> u32) \<Rightarrow> 'a machine_scheme printer \<Rightarrow> u32 \<Rightarrow> u32 \<Rightarrow> u32 \<Rightarrow> u32 \<Rightarrow> u32 \<Rightarrow> u32 \<Rightarrow> u32 \<Rightarrow> 'a machine_scheme \<Rightarrow>
   (u32 \<times> u32 \<times> u32 \<times> 'a machine_scheme) option" where
  "dump_shdrs lit pf string_table last_shdr q shdr symtab strtab reltab s =
    (if shdr < last_shdr
     then do {
       s \<leftarrow> pf (''%2d:%20s %#8x %#8x %5d %#5x %d'' @ newline)
         (map PW [q, string_table + sh_name (mem s) shdr, sh_size (mem s) shdr, sh_addr (mem s) shdr, sh_offset (mem s) shdr,
           sh_addralign (mem s) shdr, sh_type (mem s) shdr]) s;
       symtab \<leftarrow> named_section lit (mem s) string_table ''.symtab'' SHT_SYMTAB shdr symtab;
       strtab \<leftarrow> named_section lit (mem s) string_table ''.strtab'' SHT_STRTAB shdr strtab;
       reltab \<leftarrow> named_section lit (mem s) string_table ''.rel.text'' SHT_REL shdr reltab;
       dump_shdrs lit pf string_table last_shdr (q + 1) (shdr + sizeof_shdr) symtab strtab reltab s }
     else Some (symtab, strtab, reltab, s))"

partial_function (option) dump_syms :: "'a machine_scheme printer \<Rightarrow> u32 \<Rightarrow> u32 \<Rightarrow> u32 \<Rightarrow> 'a machine_scheme \<Rightarrow> 'a machine_scheme option" where
  "dump_syms pf strtab_d last_sym sy s =
    (if sy < last_sym
     then do {
       s \<leftarrow> (if st_name (mem s) sy \<noteq> 0
         then pf (''%x %s'' @ tab @ ''0x%x'' @ newline)
           (map PW [ucast (st_info (mem s) sy), ucast (st_name (mem s) sy) + strtab_d, st_value (mem s) sy]) s
         else Some s);
       dump_syms pf strtab_d last_sym (sy + sizeof_sym) s }
     else Some s)"

partial_function (option) dump_rels ::
  "'a machine_scheme printer \<Rightarrow> u32 \<Rightarrow> u32 \<Rightarrow> u32 \<Rightarrow> u32 \<Rightarrow> u32 \<Rightarrow> u32 \<Rightarrow> 'a machine_scheme \<Rightarrow> 'a machine_scheme option" where
  "dump_rels pf data symtab target strtab_d end_rel r s =
    (if r < end_rel
     then
       let t = ucast (r_info (mem s) r) :: u8;
           i = ucast (drop_bit 8 (r_info (mem s) r)) :: u8;
           sy = data + sh_offset (mem s) symtab + ucast i * sizeof_sym;
           sym_name = ucast (st_name (mem s) sy) + strtab_d;
           addend = load32 (mem s) (data + sh_offset (mem s) target + r_offset (mem s) r) - r_offset (mem s) r
       in do {
         s \<leftarrow> pf (''addr %x addend %x type %X %s'' @ newline) (map PW [r_offset (mem s) r, addend, ucast t, sym_name]) s;
         dump_rels pf data symtab target strtab_d end_rel (r + sizeof_rel) s }
     else Some s)"

text \<open>The names of the object types; an index behind the five is not defined.\<close>

definition elf_types :: "string list" where
  "elf_types = [''NONE'', ''RELOCATABLE'', ''EXECUTABLE'', ''SHARED'', ''CORE'']"

definition elf_type_arg :: "'a machine_scheme \<Rightarrow> u32 \<Rightarrow> parg" where
  "elf_type_arg s data =
    (if unat (e_type (mem s) data) < 5 then PS (elf_types ! unat (e_type (mem s) data)) else PW (indet s))"

definition elf_objdump :: "(string \<Rightarrow> u32) \<Rightarrow> 'a vga_state_scheme printer \<Rightarrow> u32 \<Rightarrow> 'a vga_state_scheme \<Rightarrow> 'a vga_state_scheme option" where
  "elf_objdump lit pf data s = do {
     s \<leftarrow> assert pf (elf_line 130 ''elf_objdump'') ''ehdr->e_ident[0] == ELF_MAGIC'' (e_ident (mem s) data = ELF_MAGIC) s;
     s \<leftarrow> assert pf (elf_line 131 ''elf_objdump'') ''ehdr->e_machine == EM_386'' (e_machine (mem s) data = EM_386) s;
     s \<leftarrow> pf (''OBJDUMP'' @ newline) [] s;
     s \<leftarrow> pf (''ELF ident'' @ tab @ ''%x'' @ tab) [PW (e_ident (mem s) data)] s;
     s \<leftarrow> pf (''Type %s'' @ tab) [elf_type_arg s data] s;
     s \<leftarrow> pf (''Machine %s'' @ newline) [PS ''i386''] s;
     s \<leftarrow> pf (''Version '' @ tab @ ''%x'' @ tab) [PW (e_version (mem s) data)] s;
     s \<leftarrow> pf (''Entry'' @ tab @ ''%x'' @ tab) [PW (e_entry (mem s) data)] s;
     s \<leftarrow> pf (''Flags'' @ tab @ ''%x'' @ newline) [PW (e_flags (mem s) data)] s;
     let phdr = data + e_phoff (mem s) data;
         last_phdr = phdr + ucast (e_phentsize (mem s) data) * ucast (e_phnum (mem s) data)
     in do {
       s \<leftarrow> dump_phdrs pf last_phdr phdr s;
       let shdr = data + e_shoff (mem s) data;
           sh_str = shdr + ucast (e_shentsize (mem s) data) * ucast (e_shstrndx (mem s) data);
           last_shdr = shdr + ucast (e_shentsize (mem s) data) * ucast (e_shnum (mem s) data);
           string_table = data + sh_offset (mem s) sh_str
       in do {
         s \<leftarrow> pf (''Idx %19s Size'' @ tab @ '' Address    Offset    Align Type'' @ newline) [PS ''Name''] s;
         (symtab, strtab, reltab, s) \<leftarrow> dump_shdrs lit pf string_table last_shdr 1 (shdr + sizeof_shdr) 0 0 0 s;
         if strtab = 0 \<or> symtab = 0 then vga_pretty (lit ''ERROR: Could not load symbol table'') 0x4 s
         else
           let sy = data + sh_offset (mem s) symtab;
               last_sym = sy + sh_size (mem s) symtab;
               strtab_d = data + sh_offset (mem s) strtab
           in do {
             s \<leftarrow> dump_syms pf strtab_d last_sym sy s;
             if reltab \<noteq> 0 then do {
               s \<leftarrow> pf (''Found relocation table'' @ newline) [] s;
               s \<leftarrow> pf (''Link: %x'' @ tab @ ''Info %x'' @ newline) [PW (sh_link (mem s) reltab), PW (sh_info (mem s) reltab)] s;
               let r = data + sh_offset (mem s) reltab;
                   end_rel = r + sh_size (mem s) reltab;
                   target = data + e_shoff (mem s) data + sh_info (mem s) reltab * ucast (e_shentsize (mem s) data)
               in dump_rels pf data symtab target strtab_d end_rel r s }
             else Some s } } } }"

section \<open>Loading a program\<close>

partial_function (option) load_pages :: "u32 \<Rightarrow> u32 \<Rightarrow> 'a paging_state_scheme \<Rightarrow> 'a paging_state_scheme option" where
  "load_pages phdr i s =
    (if i \<le> p_memsz (mem s) phdr
     then do {
       (phys, s) \<leftarrow> k_page_alloc s;
       load_pages phdr (i + 0x1000) (k_paging_map phys (p_vaddr (mem s) phdr + i) 0x7 s) }
     else Some s)"

partial_function (option) load_segments ::
  "'a paging_state_scheme printer \<Rightarrow> u32 \<Rightarrow> u32 \<Rightarrow> u32 \<Rightarrow> 'a paging_state_scheme \<Rightarrow> 'a paging_state_scheme option" where
  "load_segments pf data last_phdr phdr s =
    (if phdr < last_phdr
     then do {
       s \<leftarrow> print_phdr pf phdr s;
       s \<leftarrow> load_pages phdr 0 s;
       let s = mem_fill (p_vaddr (mem s) phdr) 0 (p_memsz (mem s) phdr) s;
           s = mem_copy (p_vaddr (mem s) phdr) (data + p_offset (mem s) phdr) (p_memsz (mem s) phdr) s
       in load_segments pf data last_phdr (phdr + sizeof_phdr) s }
     else Some s)"

text \<open>
  The result is the arguments of \<^verbatim>\<open>enter_usermode\<close> and the state it is called in: control leaves the kernel there, and
  what follows the call stands behind an endless loop.
\<close>

definition elf_load :: "(string \<Rightarrow> u32) \<Rightarrow> 'a elf_state_scheme printer \<Rightarrow> u32 \<Rightarrow> 'a elf_state_scheme \<Rightarrow> (u32 \<times> u32 \<times> 'a elf_state_scheme) option" where
  "elf_load lit pf i_no s = do {
     (ein, s) \<leftarrow> ext2_inode pf 1 i_no s;
     (data, s) \<leftarrow> ext2_open pf ein s;
     s \<leftarrow> assert pf (elf_line 252 ''elf_load'') ''ehdr->e_ident[0] == ELF_MAGIC'' (e_ident (mem s) data = ELF_MAGIC) s;
     let phdr = data + e_phoff (mem s) data;
         last_phdr = phdr + ucast (e_phentsize (mem s) data) * ucast (e_phnum (mem s) data)
     in do {
       (elf_pd, s) \<leftarrow> k_create_pagedir pf 0x0 0 0x7 s;
       s \<leftarrow> load_segments pf data last_phdr phdr (k_swap_pd elf_pd (k_map_kernel elf_pd s));
       let last_phdr = last_phdr - sizeof_phdr;
           base = (p_vaddr (mem s) last_phdr + p_memsz (mem s) last_phdr + 0x1000) AND NOT 0xFFF;
           s = s\<lparr>proc_pd := elf_pd, proc_base := base, proc_brk := base\<rparr>
       in do {
         (phys, s) \<leftarrow> k_page_alloc s;
         let s = k_paging_map phys base 0x7 s in do {
           s \<leftarrow> pf (''Program entry @ %#x'' @ newline) [PW (e_entry (mem s) data)] s;
           (phys, s) \<leftarrow> k_page_alloc s;
           let s = k_paging_map phys 0x4000 0x7 s;
               s = set_word 0x4500 0x4000 s
           in do {
             (m, _) \<leftarrow> strcpy (mem s) 0x4000 (lit ''new.s'');
             let s = set_word 0x4EFC 0x4000 (s\<lparr>mem := m\<rparr>);
                 s = set_word 0x4EF8 0 s
             in Some (e_entry (mem s) data, 0x4EF8, s) } } } } }"

definition elf_execute :: "(string \<Rightarrow> u32) \<Rightarrow> 'a elf_state_scheme printer \<Rightarrow> u32 \<Rightarrow> 'a elf_state_scheme \<Rightarrow> (u32 \<times> u32 \<times> 'a elf_state_scheme) option" where
  "elf_execute lit pf path s = do {
     (i, s) \<leftarrow> pathize lit pf path s;
     elf_load lit pf i s }"

section \<open>The symbol of an address\<close>

text \<open>How far \<open>addr\<close> is behind the symbol at index \<open>i\<close>.\<close>

definition ksym_dist :: "mem \<Rightarrow> u32 \<Rightarrow> u32 \<Rightarrow> nat \<Rightarrow> int" where
  "ksym_dist m ks addr i = sint (addr - load32 m (ks + of_nat i * sizeof_ksym))"

text \<open>The best of the symbols before \<open>n\<close>: the loop keeps it.\<close>

definition ksym_best :: "mem \<Rightarrow> u32 \<Rightarrow> u32 \<Rightarrow> nat \<Rightarrow> c_int \<Rightarrow> nat \<Rightarrow> bool" where
  "ksym_best m ks addr n cl j \<longleftrightarrow>
    (if \<exists>i<n. 0 < ksym_dist m ks addr i \<and> ksym_dist m ks addr i < 0x1000
     then j < n \<and> sint cl = ksym_dist m ks addr j \<and> 0 < ksym_dist m ks addr j \<and> ksym_dist m ks addr j < 0x1000 \<and>
       (\<forall>i<n. 0 < ksym_dist m ks addr i \<longrightarrow> ksym_dist m ks addr j \<le> ksym_dist m ks addr i)
     else j = 0 \<and> cl = 0x1000)"

lemma ksym_best_step:
  assumes "ksym_best m ks addr n cl j" "diff = addr - load32 m (ks + of_nat n * sizeof_ksym)"
  shows "ksym_best m ks addr (Suc n) (if diff <s cl \<and> 0 <s diff then diff else cl) (if diff <s cl \<and> 0 <s diff then n else j)"
proof -
  have d: "sint diff = ksym_dist m ks addr n" using assms(2) by (simp add: ksym_dist_def)
  have b: "diff <s cl \<longleftrightarrow> ksym_dist m ks addr n < sint cl" "0 <s diff \<longleftrightarrow> 0 < ksym_dist m ks addr n"
    using d by (simp_all add: word_sless_alt)
  define D where "D = ksym_dist m ks addr"
  note defs = ksym_best_def D_def [symmetric]
  show ?thesis
  proof (cases "\<exists>i<n. 0 < D i \<and> D i < 0x1000")
    case True
    then have old: "j < n" "sint cl = D j" "0 < D j" "D j < 0x1000" "\<forall>i<n. 0 < D i \<longrightarrow> D j \<le> D i"
      using assms(1) unfolding defs by simp_all
    have "\<exists>i<Suc n. 0 < D i \<and> D i < 0x1000" using True less_Suc_eq by blast
    then show ?thesis using old d unfolding defs b by (auto simp: less_Suc_eq)
  next
    case False
    then have "j = 0" "cl = 0x1000" using assms(1) unfolding defs by simp_all
    moreover have "(\<exists>i<Suc n. 0 < D i \<and> D i < 0x1000) \<longleftrightarrow> 0 < D n \<and> D n < 0x1000"
      using False by (auto simp: less_Suc_eq)
    moreover have "0x1000 \<le> D i" if "i < n" "0 < D i" for i using False that by force
    ultimately show ?thesis using d unfolding defs b by (force simp: less_Suc_eq)
  qed
qed

lemma ksym_loop_best:
  assumes "ksym_best m ks addr n cl j"
  shows "\<exists>j' cl'. ksym_loop m ks addr (of_nat n) k (cl, of_nat j) = of_nat j' \<and> ksym_best m ks addr (n + k) cl' j'"
  using assms
proof (induction k arbitrary: n cl j)
  case (Suc k)
  define diff where "diff = addr - load32 m (ks + of_nat n * sizeof_ksym)"
  show ?case
    using Suc.IH [OF ksym_best_step [OF Suc.prems diff_def]]
    by (cases "diff <s cl \<and> 0 <s diff") (auto simp: Let_def add.commute diff_def [symmetric])
qed auto

text \<open>
  C38. \<^verbatim>\<open>ksym_find\<close> returns the name of the symbol closest below the address among those less than 4096 bytes away,
  and of the first symbol when there is none.
\<close>

theorem ksym_find_closest:
  assumes "kernel_symbols s \<noteq> 0" "n = nat (sint (no_ksym s))" "d = ksym_dist (mem s) (kernel_symbols s) addr"
  shows "\<exists>j. ksym_find addr s = kernel_symbols s + of_nat j * sizeof_ksym + 4 \<and>
    (if \<exists>i<n. 0 < d i \<and> d i < 0x1000 then j < n \<and> 0 < d j \<and> (\<forall>i<n. 0 < d i \<longrightarrow> d j \<le> d i) else j = 0)"
proof -
  have "ksym_best (mem s) (kernel_symbols s) addr 0 0x1000 0" by (simp add: ksym_best_def)
  from ksym_loop_best [OF this, of n] obtain j cl where
    "ksym_loop (mem s) (kernel_symbols s) addr 0 n (0x1000, 0) = of_nat j" "ksym_best (mem s) (kernel_symbols s) addr n cl j"
    by auto
  then show ?thesis using assms by (intro exI [of _ j]) (auto simp: ksym_find_def ksym_best_def)
qed

text \<open>Two symbols, at \<open>0xC0001000\<close> and \<open>0xC0001100\<close>.\<close>

definition elf0 :: elf_state where
  "elf0 = \<lparr>mem = (\<lambda>_. 0)(0x1001 := 0x10, 0x1003 := 0xC0, 0x1029 := 0x11, 0x102B := 0xC0), indet = 7,
     MM_CURRENT_PD = 0xC0110000, MM_CURRENT_PT = 0xC0114000, MM_HEAP = 0xC0118000,
     KERNEL_PAGE_DIRECTORY = 0xC0108000, CURRENT_PAGE_DIRECTORY = 0xC0108000, cr3 = 0x108000, invlpg = [],
     BLOCKCHAIN_START = 0xC010A000, BLOCKS_ALLOCATED = 0, blockchain = 0, K_HEAP_TOP = 0xC0310000,
     K_LAST_ALLOC = 0xC0300000, memlock = 0, io_log = [], io_in = (\<lambda>_. 0x40),
     CURRENT_X = 0, CURRENT_Y = 0, CURRENT_ATTRIB = 7, irqmask = irqmask_init,
     idelock = 0, idequeue = 0, IDE_STATUS = 1, cache_lock = 0, cache_list = 0, strtok_ptr = 0, ncli = 0, intr = True,
     kernel_symbols = 0x1000, no_ksym = 2, proc_pd = 0, proc_base = 0, proc_brk = 0\<rparr>"

theorem ksym_find_closest_witness: "ksym_find 0xC0001104 elf0 = 0x102C"
proof -
  let ?d = "ksym_dist (mem elf0) (kernel_symbols elf0) 0xC0001104"
  have d: "?d 0 = 0x104" "?d 1 = 4" and n: "nat (sint (no_ksym elf0)) = 2" "kernel_symbols elf0 = 0x1000"
    by (simp_all add: ksym_dist_def elf0_def load32_def sizeof_ksym_def)
  have near: "\<exists>i<2. 0 < ?d i \<and> ?d i < 0x1000" by (rule exI [of _ 1]) (simp add: d [simplified])
  from ksym_find_closest [of elf0, OF _ refl refl, of "0xC0001104"] obtain j where
    j: "ksym_find 0xC0001104 elf0 = 0x1000 + of_nat j * sizeof_ksym + 4" "j < 2" "\<forall>i<2. 0 < ?d i \<longrightarrow> ?d j \<le> ?d i"
    using d n near by auto
  have "?d j \<le> 4" using j(3) d by (auto dest: spec [of _ 1])
  then have "j = 1" using j(2) d by (cases j) auto
  with j(1) show ?thesis by (simp add: sizeof_ksym_def)
qed

end
