(* ===== verification/Kstream.thy ===== *)
theory Kstream
  imports Malloc
begin

text \<open>
  Streams in memory, \<^verbatim>\<open>lib/stdio.c\<close>: a buffer with an offset.  The theorems say that a write appends to the bytes
  written so far or, when there is no room, changes nothing, and that seeking to \<open>-1\<close> is accepted.
\<close>

section \<open>Operations\<close>

text \<open>The members of \<^verbatim>\<open>STREAM\<close>; the bit field \<^verbatim>\<open>status\<close> is never used.\<close>

definition sizeof_STREAM :: u32 where "sizeof_STREAM = 16"
definition st_data :: "mem \<Rightarrow> u32 \<Rightarrow> u32" where "st_data m st = load32 m st"
definition st_size :: "mem \<Rightarrow> u32 \<Rightarrow> c_int" where "st_size m st = load32 m (st + 4)"
definition st_offset :: "mem \<Rightarrow> u32 \<Rightarrow> c_int" where "st_offset m st = load32 m (st + 8)"

definition set_offset :: "u32 \<Rightarrow> c_int \<Rightarrow> mem \<Rightarrow> mem" where
  "set_offset st v m = store32 m (st + 8) v"

definition k_new_stream :: "u32 \<Rightarrow> 'a heap_state_scheme \<Rightarrow> (u32 \<times> 'a heap_state_scheme) option" where
  "k_new_stream n s = do {
     (stream, s) \<leftarrow> malloc sizeof_STREAM s;
     (ptr, s) \<leftarrow> malloc n s;
     let m = store32 (mem s) (stream + 4) n; m = set_offset stream 0 m; m = store32 m stream ptr in
     Some (stream, s\<lparr>mem := m\<rparr>) }"

text \<open>The test that \<^verbatim>\<open>k_stream_write\<close>, \<^verbatim>\<open>k_stream_read\<close> and \<^verbatim>\<open>fputs\<close> share; \<^verbatim>\<open>size_t\<close> makes it unsigned.\<close>

definition no_room :: "mem \<Rightarrow> u32 \<Rightarrow> u32 \<Rightarrow> bool" where
  "no_room m stream n \<longleftrightarrow> st_size m stream < n \<or> st_size m stream < st_offset m stream + n"

definition k_stream_write :: "mem \<Rightarrow> u32 \<Rightarrow> u32 \<Rightarrow> u32 \<Rightarrow> mem \<times> c_int" where
  "k_stream_write m stream msg n =
    (if no_room m stream n then (m, - 1)
     else let m = fst (memcpy m (st_data m stream + st_offset m stream) msg n)
       in (set_offset stream (st_offset m stream + n) m, 1))"

text \<open>\<^verbatim>\<open>k_stream_read\<close> ends without returning its buffer.\<close>

definition k_stream_read :: "u32 \<Rightarrow> u32 \<Rightarrow> 'a heap_state_scheme \<Rightarrow> (u32 \<times> 'a heap_state_scheme) option" where
  "k_stream_read stream n s =
    (if no_room (mem s) stream n then Some (0, s)
     else do {
       (buffer, s) \<leftarrow> malloc n s;
       Some (indet s, s\<lparr>mem := fst (memcpy (mem s) buffer (st_data (mem s) stream + st_offset (mem s) stream) n)\<rparr>) })"

partial_function (option) read_until_loop :: "u32 \<Rightarrow> u8 \<Rightarrow> c_int \<Rightarrow> mem \<Rightarrow> (c_int \<times> mem) option" where
  "read_until_loop stream c count m =
    (if m (st_data m stream + st_offset m stream) \<noteq> c \<and> st_offset m stream <s st_size m stream
     then read_until_loop stream c (count + 1) (set_offset stream (st_offset m stream + 1) m)
     else Some (count, m))"

definition k_stream_read_until :: "u32 \<Rightarrow> u8 \<Rightarrow> 'a heap_state_scheme \<Rightarrow> (u32 \<times> 'a heap_state_scheme) option" where
  "k_stream_read_until stream c s = do {
     (count, m) \<leftarrow> read_until_loop stream c 0 (mem s);
     (buffer, s) \<leftarrow> malloc count (s\<lparr>mem := m\<rparr>);
     Some (buffer, s\<lparr>mem := fst (memcpy (mem s) buffer (st_data (mem s) stream + st_offset (mem s) stream - count) count)\<rparr>) }"

definition fgetc :: "mem \<Rightarrow> u32 \<Rightarrow> u8" where
  "fgetc m stream = (if 1 <s st_offset m stream then m (st_data m stream + st_offset m stream - 1) else 0)"

definition k_stream_seek :: "mem \<Rightarrow> u32 \<Rightarrow> c_int \<Rightarrow> mem \<times> c_int" where
  "k_stream_seek m stream p =
    (if p <s - 1 then (m, - 1) else if st_size m stream \<le>s p then (m, - 1) else (set_offset stream p m, p))"

definition k_stream_tell :: "mem \<Rightarrow> u32 \<Rightarrow> c_int" where
  "k_stream_tell m stream = st_offset m stream"

definition fputc :: "mem \<Rightarrow> u32 \<Rightarrow> u8 \<Rightarrow> mem \<times> c_int" where
  "fputc m stream c =
    (if st_size m stream <s 1 \<or> st_size m stream <s st_offset m stream + 1 then (m, 0)
     else let m = m(st_data m stream + st_offset m stream := c)
       in (set_offset stream (st_offset m stream + 1) m, 1))"

text \<open>The comma in the condition \<^verbatim>\<open>i < n, c[i] != 0\<close> drops its first half.\<close>

partial_function (option) fputs_loop :: "u32 \<Rightarrow> u32 \<Rightarrow> u32 \<Rightarrow> mem \<Rightarrow> mem option" where
  "fputs_loop stream c i m = (if m (c + i) \<noteq> 0 then fputs_loop stream c (i + 1) (fst (fputc m stream (m (c + i)))) else Some m)"

definition fputs :: "u32 \<Rightarrow> u32 \<Rightarrow> 'a machine_scheme \<Rightarrow> (c_int \<times> 'a machine_scheme) option" where
  "fputs stream c s = do {
     n \<leftarrow> strlen (mem s) c;
     if no_room (mem s) stream n then Some (- 1, s)
     else do {
       m \<leftarrow> fputs_loop stream c 0 (mem s);
       Some (indet s, s\<lparr>mem := m\<rparr>) } }"

definition fseek :: "mem \<Rightarrow> u32 \<Rightarrow> c_int \<Rightarrow> mem \<times> c_int" where
  "fseek m stream p = k_stream_seek m stream p"

definition ftell :: "mem \<Rightarrow> u32 \<Rightarrow> c_int" where
  "ftell m stream = k_stream_tell m stream"

definition fflush :: "mem \<Rightarrow> u32 \<Rightarrow> mem \<times> c_int" where
  "fflush m stream = fseek (fst (memset m (st_data m stream) 0 (st_size m stream))) stream 0"

section \<open>The bytes written\<close>

text \<open>
  \<open>stream_at m st d N xs\<close>: the stream at \<open>st\<close> has a buffer of \<open>N\<close> bytes at \<open>d\<close>, apart from the object itself, and
  its first bytes, up to the offset, are \<open>xs\<close>.
\<close>

definition stream_at :: "mem \<Rightarrow> u32 \<Rightarrow> u32 \<Rightarrow> nat \<Rightarrow> u8 list \<Rightarrow> bool" where
  "stream_at m st d N xs \<longleftrightarrow> st_data m st = d \<and> st_size m st = of_nat N \<and> st_offset m st = of_nat (length xs) \<and>
     N < 2 ^ 31 \<and> length xs \<le> N \<and> region st 16 \<inter> region d N = {} \<and> (\<forall>i<length xs. m (d + of_nat i) = xs ! i)"

text \<open>The bytes outside the buffer and the offset stay.\<close>

definition stream_frame :: "u32 \<Rightarrow> u32 \<Rightarrow> nat \<Rightarrow> mem \<Rightarrow> mem \<Rightarrow> bool" where
  "stream_frame st d N m m' \<longleftrightarrow> (\<forall>b. b \<notin> region d N \<and> b \<notin> region (st + 8) 4 \<longrightarrow> m' b = m b)"

lemma stream_frame_trans: "stream_frame st d N m m' \<Longrightarrow> stream_frame st d N m' m'' \<Longrightarrow> stream_frame st d N m m''"
  by (simp add: stream_frame_def)

lemma set_offset_members:
  "st_data (set_offset st v m) st = st_data m st" "st_size (set_offset st v m) st = st_size m st"
  "st_offset (set_offset st v m) st = v"
  by (simp_all add: st_data_def st_size_def st_offset_def set_offset_def c32.ld_st_sep off_def)

lemma set_offset_at: "b \<notin> region (st + 8) 4 \<Longrightarrow> set_offset st v m b = m b"
  by (simp add: set_offset_def c32.st_frame)

lemma member_region: "off (st + of_nat k) b < 4 \<Longrightarrow> k \<le> 12 \<Longrightarrow> b \<in> region st 16"
  using region_sub [of k 4 16 st] by auto

text \<open>Bytes written into the buffer and the offset set to their number.\<close>

lemma stream_update:
  assumes s: "stream_at m st d N xs"
    and out: "\<And>b. b \<notin> region d N \<Longrightarrow> m1 b = m b"
    and ys: "length ys \<le> N" "\<And>i. i < length ys \<Longrightarrow> m1 (d + of_nat i) = ys ! i"
  shows "stream_at (set_offset st (of_nat (length ys)) m1) st d N ys \<and>
    stream_frame st d N m (set_offset st (of_nat (length ys)) m1)"
proof -
  let ?m = "set_offset st (of_nat (length ys)) m1"
  have N: "N < 2 ^ 31" and dis: "region st 16 \<inter> region d N = {}" using s by (auto simp: stream_at_def)
  have agree: "m1 b = m b" if "b \<in> region st 16" for b using out [of b] dis that by blast
  have "load32 m1 st = load32 m st" "load32 m1 (st + 4) = load32 m (st + 4)"
    by (intro c32.ld_cong agree member_region [of st 0] member_region [of st 4]; simp)+
  then have "st_data ?m st = d" "st_size ?m st = of_nat N" "st_offset ?m st = of_nat (length ys)"
    using s by (simp_all add: set_offset_members stream_at_def) (simp_all add: st_data_def st_size_def)
  moreover have "?m (d + of_nat i) = ys ! i" if i: "i < length ys" for i
  proof -
    have "d + of_nat i \<in> region d N" using i ys(1) N by simp
    then have "d + of_nat i \<notin> region st 16" using dis by blast
    then have "d + of_nat i \<notin> region (st + 8) 4" using member_region [of st 8 "d + of_nat i"] by auto
    then show ?thesis using ys(2) [OF i] by (simp add: set_offset_at)
  qed
  moreover have "stream_frame st d N m ?m" using out by (simp add: stream_frame_def set_offset_at)
  ultimately show ?thesis using N dis ys(1) by (simp add: stream_at_def)
qed

lemma of_nat_sless: "a < 2 ^ 31 \<Longrightarrow> b < 2 ^ 31 \<Longrightarrow> (of_nat a :: u32) <s of_nat b \<longleftrightarrow> a < b"
  by (simp add: word_sless_alt signed_of_nat signed_take_bit_int_eq_self)

text \<open>Two bytes of the buffer have different addresses.\<close>

lemma buffer_neq: "i < j \<Longrightarrow> j < 2 ^ 31 \<Longrightarrow> d + of_nat i \<noteq> d + (of_nat j :: u32)"
  using unat_of_nat32 [of i] unat_of_nat32 [of j] by fastforce

lemma fputc_ok:
  assumes s: "stream_at m st d N xs" and room: "length xs < N"
  shows "snd (fputc m st c) = 1 \<and> stream_at (fst (fputc m st c)) st d N (xs @ [c]) \<and> stream_frame st d N m (fst (fputc m st c))"
proof -
  let ?m1 = "m(d + of_nat (length xs) := c)"
  have N: "N < 2 ^ 31" using s by (simp add: stream_at_def)
  have mem: "st_data m st = d" "st_size m st = of_nat N" "st_offset m st = of_nat (length xs)"
    using s by (simp_all add: stream_at_def)
  have guard: "\<not> (of_nat N :: u32) <s 1" "\<not> (of_nat N :: u32) <s of_nat (length xs) + 1"
    using of_nat_sless [of N 1] of_nat_sless [of N "Suc (length xs)"] room N by (simp_all add: add.commute)
  have in_buf: "d + of_nat (length xs) \<in> region d N" using room N by simp
  then have out: "?m1 b = m b" if "b \<notin> region d N" for b using that by auto
  have "region st 16 \<inter> region d N = {}" using s by (simp add: stream_at_def)
  then have "d + of_nat (length xs) \<notin> region st 16" using in_buf by blast
  then have "st_offset ?m1 st = st_offset m st"
    unfolding st_offset_def by (intro c32.ld_cong) (use member_region [of st 8] in auto)
  then have f: "fputc m st c = (set_offset st (of_nat (length (xs @ [c]))) ?m1, 1)"
    using guard by (simp add: fputc_def mem add.commute)
  have "?m1 (d + of_nat i) = (xs @ [c]) ! i" if "i < length (xs @ [c])" for i
    using that s room N buffer_neq [of i "length xs" d] by (auto simp: stream_at_def nth_append less_Suc_eq)
  then show ?thesis unfolding f fst_conv snd_conv
    using stream_update [OF s, of ?m1 "xs @ [c]"] out room by simp
qed

lemma no_room_iff:
  assumes s: "stream_at m st d N xs" and n: "n < 2 ^ 31"
  shows "no_room m st (of_nat n) \<longleftrightarrow> N < length xs + n"
proof -
  have N: "N < 2 ^ 31" "length xs \<le> N" using s by (simp_all add: stream_at_def)
  have "(of_nat (length xs) + of_nat n :: u32) = of_nat (length xs + n)" by simp
  moreover have "unat (of_nat (length xs + n) :: u32) = length xs + n" "unat (of_nat n :: u32) = n" "unat (of_nat N :: u32) = N"
    using N n by (intro unat_of_nat32; simp)+
  ultimately show ?thesis using s by (auto simp: no_room_def stream_at_def word_less_nat_alt simp del: of_nat_add)
qed

lemma k_stream_write_ok:
  assumes s: "stream_at m st d N xs" and room: "length xs + length ys \<le> N"
    and msg: "\<And>i. i < length ys \<Longrightarrow> m (msg + of_nat i) = ys ! i" "region msg (length ys) \<inter> region d N = {}"
  shows "\<exists>m'. k_stream_write m st msg (of_nat (length ys)) = (m', 1) \<and> stream_at m' st d N (xs @ ys) \<and> stream_frame st d N m m'"
proof -
  let ?p = "d + of_nat (length xs)" and ?n = "of_nat (length ys) :: u32"
  let ?m1 = "fst (memcpy m ?p msg ?n)"
  have N: "N < 2 ^ 31" and dis: "region st 16 \<inter> region d N = {}" using s by (simp_all add: stream_at_def)
  have n: "unat ?n = length ys" using room N by (intro unat_of_nat32) simp
  have sub: "region ?p (length ys) \<subseteq> region d N" using region_sub [of "length xs" "length ys" N d] room N by simp
  then have "region ?p (unat ?n) \<inter> region msg (unat ?n) = {}" using msg(2) n by auto
  note at = memcpy_at [OF this, of m, unfolded n]
  have out: "?m1 b = m b" if "b \<notin> region d N" for b using at [of b] sub that by (auto simp: subset_iff)
  have "st_offset ?m1 st = st_offset m st"
    unfolding st_offset_def by (intro c32.ld_cong out) (use member_region [of st 8] dis in \<open>auto simp: disjoint_iff\<close>)
  then have f: "k_stream_write m st msg ?n = (set_offset st (of_nat (length (xs @ ys))) ?m1, 1)"
    using no_room_iff [OF s, of "length ys"] room N s by (simp add: k_stream_write_def stream_at_def)
  have "?m1 (d + of_nat i) = (xs @ ys) ! i" if i: "i < length (xs @ ys)" for i
  proof (cases "i < length xs")
    case True
    then have "length ys \<le> off ?p (d + of_nat i)"
      using room N i off_rebase [of "length xs" d "d + of_nat i"] by simp
    then show ?thesis using True s at [of "d + of_nat i"] by (simp add: nth_append stream_at_def)
  next
    case False
    then obtain k where k: "i = length xs + k" "k < length ys" using i by (metis add_less_cancel_left length_append le_iff_add not_less)
    then have "off ?p (d + of_nat i) = k" using N room off_add_nat [of k ?p] by (simp add: algebra_simps)
    then show ?thesis using k at [of "d + of_nat i"] msg(1) [of k] by (simp add: nth_append algebra_simps)
  qed
  then show ?thesis unfolding f
    using stream_update [OF s, of ?m1 "xs @ ys"] out room by simp
qed

lemma fputs_loop_ok:
  assumes "stream_at m st d N xs" "length xs + length ys \<le> N" "cstr m (c + i) ys"
    and "region c n \<inter> (region d N \<union> region (st + 8) 4) = {}" "unat i + length ys < n" "n \<le> 2 ^ 32"
  shows "\<exists>m'. fputs_loop st c i m = Some m' \<and> stream_at m' st d N (xs @ ys) \<and> stream_frame st d N m m'"
  using assms
proof (induction ys arbitrary: m xs i)
  case Nil
  then show ?case by (subst fputs_loop.simps) (simp add: stream_frame_def)
next
  case (Cons y ys)
  let ?m1 = "fst (fputc m st y)"
  have s1: "stream_at ?m1 st d N (xs @ [y])" "stream_frame st d N m ?m1"
    using fputc_ok [OF Cons.prems(1), of y] Cons.prems(2) by simp_all
  have keep: "?m1 (c + of_nat k) = m (c + of_nat k)" if "k < n" for k
  proof -
    have "c + of_nat k \<in> region c n" using that Cons.prems(6) by simp
    then show ?thesis using s1(2) Cons.prems(4) unfolding stream_frame_def by blast
  qed
  have c1: "cstr m (c + (i + 1)) ys" and y: "m (c + i) = y" "y \<noteq> 0" using Cons.prems(3) by (simp_all add: algebra_simps)
  have i1: "unat (i + 1) = unat i + 1" using Cons.prems(5,6) by (simp add: unat_word_ariths)
  have shift: "?m1 (c + (i + 1) + of_nat k) = m (c + (i + 1) + of_nat k)" if "k \<le> length ys" for k
    using keep [of "unat (i + 1) + k"] Cons.prems(5) that i1 by (simp add: algebra_simps)
  have "cstr ?m1 (c + (i + 1)) ys"
    by (rule cstrI) (use shift cstr_nth [OF c1] cstr_end [OF c1] cstr_nonzero [OF c1] in auto)
  then obtain m' where "fputs_loop st c (i + 1) ?m1 = Some m'" "stream_at m' st d N ((xs @ [y]) @ ys)" "stream_frame st d N ?m1 m'"
    using Cons.IH [OF s1(1), of "i + 1"] Cons.prems(2,4,5,6) i1 by auto
  with y stream_frame_trans [OF s1(2)] show ?case by (subst fputs_loop.simps) auto
qed

section \<open>Properties\<close>

text \<open>A stream of eight bytes at 64 with one byte written, and the text at 128.\<close>

definition stream_ex :: machine where
  "stream_ex = \<lparr>mem = (\<lambda>_. 0)(64 := 32, 68 := 8, 72 := 1, 32 := 65, 128 := 66, 129 := 67), indet = 5\<rparr>"

lemma stream_ex_at: "stream_at (mem stream_ex) 64 32 8 [65]" "cstr (mem stream_ex) 128 [66, 67]"
  "region 128 3 \<inter> (region 32 8 \<union> region (64 + 8) 4) = {}"
proof -
  have "region 64 16 \<inter> region (32 :: u32) 8 = {}"
    using off_apart(1) [of 32 8 64 16] by (fastforce simp: disjoint_iff)
  then show "stream_at (mem stream_ex) 64 32 8 [65]"
    by (simp add: stream_at_def stream_ex_def st_data_def st_size_def st_offset_def load32_def)
  show "cstr (mem stream_ex) 128 [66, 67]" by (simp add: stream_ex_def)
  have "off 32 b < 8 \<Longrightarrow> 3 \<le> off 128 b" "off 72 b < 4 \<Longrightarrow> 3 \<le> off 128 b" for b :: u32
    using off_apart [of 32 8 128 3 b] off_apart [of 72 4 128 3 b] by auto
  then show "region 128 3 \<inter> (region 32 8 \<union> region (64 + 8) 4) = ({} :: u32 set)"
    by (fastforce simp: disjoint_iff)
qed

text \<open>
  C39. \<^verbatim>\<open>fputs\<close> returns.  It appends the string to the bytes written so far and changes nothing outside the buffer and
  the offset when there is room; otherwise it returns \<open>-1\<close> and changes nothing.
\<close>

theorem fputs_appends:
  assumes "stream_at (mem s) st d N xs" "cstr (mem s) c ys" "length ys < 2 ^ 31"
    and "region c (length ys + 1) \<inter> (region d N \<union> region (st + 8) 4) = {}"
  shows "\<exists>r s'. fputs st c s = Some (r, s') \<and>
    (if length xs + length ys \<le> N then stream_at (mem s') st d N (xs @ ys) \<and> stream_frame st d N (mem s) (mem s')
     else r = - 1 \<and> s' = s)"
proof (cases "length xs + length ys \<le> N")
  case True
  then obtain m' where "fputs_loop st c 0 (mem s) = Some m'" "stream_at m' st d N (xs @ ys)" "stream_frame st d N (mem s) m'"
    using fputs_loop_ok [OF assms(1) True, of c 0 "length ys + 1"] assms(2-4) by auto
  with True show ?thesis
    using no_room_iff [OF assms(1,3)] strlen_cstr [OF assms(2)] by (simp add: fputs_def)
next
  case False
  then show ?thesis using no_room_iff [OF assms(1,3)] strlen_cstr [OF assms(2)] by (simp add: fputs_def)
qed

theorem fputs_appends_witness:
  "\<exists>r s'. fputs 64 128 stream_ex = Some (r, s') \<and> stream_at (mem s') 64 32 8 [65, 66, 67]"
  using fputs_appends [OF stream_ex_at(1,2)] stream_ex_at(3) by (auto simp: numeral_3_eq_3)

text \<open>
  C40. Seeking to \<open>-1\<close>, which \<^verbatim>\<open>k_stream_seek\<close> lets pass, sets the offset to \<open>-1\<close>, and the next \<^verbatim>\<open>fputc\<close> writes the byte
  in front of the buffer.
\<close>

theorem seek_before_start:
  assumes "stream_at m st d N xs" "0 < N" "4 \<le> off (st + 8) (d - 1)"
  shows "\<exists>m'. k_stream_seek m st (- 1) = (m', - 1) \<and> st_offset m' st = - 1 \<and>
    snd (fputc m' st c) = 1 \<and> fst (fputc m' st c) (d - 1) = c"
proof -
  let ?m = "set_offset st (- 1) m" and ?n = "of_nat N :: u32"
  have N: "N < 2 ^ 31" "st_data m st = d" "st_size m st = ?n" using assms(1) by (simp_all add: stream_at_def)
  have "sint ?n = int N" using N(1) by (simp add: signed_of_nat signed_take_bit_int_eq_self)
  then have g: "\<not> ?n \<le>s - 1" "\<not> ?n <s 1" "\<not> ?n <s 0" using assms(2) by (simp_all add: word_sle_eq word_sless_alt)
  then have "k_stream_seek m st (- 1) = (?m, - 1)" by (simp add: k_stream_seek_def N word_sless_alt)
  moreover have "fputc ?m st c = (set_offset st (st_offset (?m(d - 1 := c)) st + 1) (?m(d - 1 := c)), 1)"
    using g by (simp add: fputc_def set_offset_members N Let_def)
  ultimately show ?thesis
    using assms(3) by (auto simp: set_offset_members set_offset_at)
qed

theorem seek_before_start_witness:
  "\<exists>m'. k_stream_seek (mem stream_ex) 64 (- 1) = (m', - 1) \<and> fst (fputc m' 64 90) 31 = 90"
  using seek_before_start [OF stream_ex_at(1), of 90] by (auto simp: off_def)

end
