(* ===== verification/X86.thy ===== *)
theory X86
  imports Ports
begin

text \<open>
  Segment and gate descriptors of \<^verbatim>\<open>include/x86.h\<close> and the tables \<^verbatim>\<open>arch/x86.c\<close> fills with them.
  A bit field of width \<open>n\<close> is an \<open>n\<close>-bit word; the processor sees a descriptor as 64 bits with the
  fields packed from the low end, which is what the packing functions give.
\<close>

section \<open>Descriptors\<close>

record segdesc =
  lim_15_0 :: u16
  base_15_0 :: u16
  base_23_16 :: u8
  seg_type :: "4 word"
  seg_s :: "1 word"
  seg_dpl :: "2 word"
  seg_p :: "1 word"
  lim_19_16 :: "4 word"
  avl :: "1 word"
  rsv1 :: "1 word"
  db :: "1 word"
  seg_g :: "1 word"
  base_31_24 :: u8

definition SEG :: "u32 \<Rightarrow> u32 \<Rightarrow> u32 \<Rightarrow> u32 \<Rightarrow> segdesc" where
  "SEG ty base lim dpl =
    \<lparr>lim_15_0 = ucast (drop_bit 12 lim AND 0xFFFF), base_15_0 = ucast (base AND 0xFFFF),
     base_23_16 = ucast (drop_bit 16 base AND 0xFF), seg_type = ucast ty, seg_s = 1, seg_dpl = ucast dpl, seg_p = 1,
     lim_19_16 = ucast (drop_bit 28 lim), avl = 0, rsv1 = 0, db = 1, seg_g = 1, base_31_24 = ucast (drop_bit 24 base)\<rparr>"

definition SEG16 :: "u32 \<Rightarrow> u32 \<Rightarrow> u32 \<Rightarrow> u32 \<Rightarrow> segdesc" where
  "SEG16 ty base lim dpl =
    \<lparr>lim_15_0 = ucast (lim AND 0xFFFF), base_15_0 = ucast (base AND 0xFFFF),
     base_23_16 = ucast (drop_bit 16 base AND 0xFF), seg_type = ucast ty, seg_s = 1, seg_dpl = ucast dpl, seg_p = 1,
     lim_19_16 = ucast (drop_bit 16 lim), avl = 0, rsv1 = 0, db = 1, seg_g = 0, base_31_24 = ucast (drop_bit 24 base)\<rparr>"

record gatedesc =
  off_15_0 :: u16
  gate_cs :: u16
  gate_args :: "5 word"
  gate_rsv1 :: "3 word"
  gate_type :: "4 word"
  gate_s :: "1 word"
  gate_dpl :: "2 word"
  gate_p :: "1 word"
  off_31_16 :: u16

definition STS_TG32 :: u32 where "STS_TG32 = 0xF"
definition STS_IG32 :: u32 where "STS_IG32 = 0xE"

definition SETGATE :: "bool \<Rightarrow> u32 \<Rightarrow> u32 \<Rightarrow> u32 \<Rightarrow> gatedesc" where
  "SETGATE istrap sel target d =
    \<lparr>off_15_0 = ucast (target AND 0xFFFF), gate_cs = ucast sel, gate_args = 0, gate_rsv1 = 0,
     gate_type = ucast (if istrap then STS_TG32 else STS_IG32), gate_s = 0, gate_dpl = ucast d, gate_p = 1,
     off_31_16 = ucast (drop_bit 16 target)\<rparr>"

section \<open>Tables\<close>

definition SEG_KCODE :: nat where "SEG_KCODE = 1"
definition SEG_KDATA :: nat where "SEG_KDATA = 2"
definition SEG_KCPU :: nat where "SEG_KCPU = 3"
definition SEG_UCODE :: nat where "SEG_UCODE = 4"
definition SEG_UDATA :: nat where "SEG_UDATA = 5"
definition SEG_TSS :: nat where "SEG_TSS = 6"

definition DPL_USER :: u32 where "DPL_USER = 3"
definition STA_X :: u32 where "STA_X = 0x8"
definition STA_W :: u32 where "STA_W = 0x2"
definition STA_R :: u32 where "STA_R = 0x2"
definition STS_T32A :: u32 where "STS_T32A = 0x9"
definition T_SYSCALL :: nat where "T_SYSCALL = 0x80"

text \<open>
  \<open>vectors i\<close> is the address of the assembly stub of interrupt \<open>i\<close>.  \<^verbatim>\<open>pic_init\<close> runs first and touches
  only ports.
\<close>

definition idt_init :: "(nat \<Rightarrow> u32) \<Rightarrow> gatedesc list" where
  "idt_init vectors =
    (let idt = map (\<lambda>i. SETGATE False 0x8 (vectors i) 0) [0..<256] in
     idt[T_SYSCALL := SETGATE True 0x8 (vectors T_SYSCALL) DPL_USER])"

text \<open>The operand of \<^verbatim>\<open>lidt\<close> and \<^verbatim>\<open>lgdt\<close>: the limit and the two halves of the address.\<close>

definition lidt :: "u32 \<Rightarrow> u32 \<Rightarrow> u16 list" where
  "lidt p sz = [ucast (sz - 1), ucast p, ucast (drop_bit 16 p)]"

record cpu =
  cpu_id :: u32
  cpu_stack :: u32
  cpu_ncli :: u32
  cpu_gdt :: "segdesc list"
  cpu_self :: u32

text \<open>
  \<open>cpu_field\<close> is the address of the \<^verbatim>\<open>cpu\<close> pointer inside the structure, \<open>cpu_size\<close> the size of the
  structure; \<open>tss\<close> and \<open>tss_size\<close> describe the task state segment.
\<close>

definition gdt_init_cpu :: "u32 \<Rightarrow> u32 \<Rightarrow> u32 \<Rightarrow> u32 \<Rightarrow> cpu \<Rightarrow> cpu" where
  "gdt_init_cpu cpu_field cpu_size tss tss_size c =
    (let g = cpu_gdt c;
         g = g[SEG_KCODE := SEG (STA_X OR STA_R) 0 0xFFFFFFFF 0];
         g = g[SEG_KDATA := SEG STA_W 0 0xFFFFFFFF 0];
         g = g[SEG_UCODE := SEG (STA_X OR STA_R) 0 0xFFFFFFFF DPL_USER];
         g = g[SEG_UDATA := SEG STA_W 0 0xFFFFFFFF DPL_USER];
         g = g[SEG_KCPU := SEG STA_W cpu_field cpu_size 0];
         g = g[SEG_TSS := SEG STS_T32A tss (tss_size - 1) 0];
         g = g[SEG_TSS := (g ! SEG_TSS)\<lparr>seg_s := 0\<rparr>]
     in c\<lparr>cpu_gdt := g\<rparr>)"

record tss_state =
  tss_cs :: u16
  tss_ss0 :: u16
  tss_esp0 :: u32

text \<open>
  \<open>addr\<close> is the address of \<^verbatim>\<open>cpus[0]\<close> and \<open>esp\<close> the stack pointer while \<^verbatim>\<open>gdt_init\<close> runs.  The assignment
  \<^verbatim>\<open>cpu = &cpu[0]\<close> stores the pointer at \<^verbatim>\<open>%gs:0\<close> back to where it was read from and changes nothing.
\<close>

definition gdt_init :: "u32 \<Rightarrow> u32 \<Rightarrow> u32 \<Rightarrow> u32 \<Rightarrow> u32 \<Rightarrow> u32 \<Rightarrow> u32 \<Rightarrow> cpu \<times> tss_state \<Rightarrow> cpu \<times> tss_state" where
  "gdt_init stack_top addr cpu_field cpu_size tss tss_size esp = (\<lambda>(c, t).
    (let c = c\<lparr>cpu_id := 0, cpu_stack := stack_top, cpu_self := addr, cpu_ncli := 0\<rparr>;
         c = gdt_init_cpu cpu_field cpu_size tss tss_size c
     in (c, t\<lparr>tss_cs := of_nat (SEG_KCODE * 8), tss_ss0 := of_nat (SEG_KDATA * 8), tss_esp0 := esp\<rparr>)))"

section \<open>The processor's view\<close>

definition gate_target :: "gatedesc \<Rightarrow> u32" where
  "gate_target g = ucast (off_15_0 g) OR push_bit 16 (ucast (off_31_16 g))"

definition seg_base :: "segdesc \<Rightarrow> u32" where
  "seg_base d = ucast (base_15_0 d) OR push_bit 16 (ucast (base_23_16 d)) OR push_bit 24 (ucast (base_31_24 d))"

text \<open>The highest valid offset: with the granularity bit the limit counts pages.\<close>

definition seg_limit :: "segdesc \<Rightarrow> u32" where
  "seg_limit d =
    (let l = ucast (lim_15_0 d) OR push_bit 16 (ucast (lim_19_16 d)) in
     if seg_g d = 1 then push_bit 12 l OR 0xFFF else l)"

text \<open>The eight bytes of a segment descriptor as the processor reads them.\<close>

definition segdesc_word :: "segdesc \<Rightarrow> u64" where
  "segdesc_word d = ucast (lim_15_0 d) OR push_bit 16 (ucast (base_15_0 d)) OR push_bit 32 (ucast (base_23_16 d)) OR
    push_bit 40 (ucast (seg_type d)) OR push_bit 44 (ucast (seg_s d)) OR push_bit 45 (ucast (seg_dpl d)) OR push_bit 47 (ucast (seg_p d)) OR
    push_bit 48 (ucast (lim_19_16 d)) OR push_bit 52 (ucast (avl d)) OR push_bit 53 (ucast (rsv1 d)) OR push_bit 54 (ucast (db d)) OR
    push_bit 55 (ucast (seg_g d)) OR push_bit 56 (ucast (base_31_24 d))"

lemma mask_consts: "(0xFFFF :: u32) = mask 16" "(0xFF :: u32) = mask 8" "(0xFFF :: u32) = mask 12"
  by (simp_all add: mask_eq_exp_minus_1)

lemma gate_target_SETGATE: "gate_target (SETGATE t sel h d) = h"
  unfolding gate_target_def SETGATE_def mask_consts
  by (rule bit_word_eqI) (auto simp: bit_simps)

lemma seg_base_SEG: "seg_base (SEG ty base lim d) = base"
  unfolding seg_base_def SEG_def mask_consts
  apply (rule bit_word_eqI)
  subgoal for n by (cases "n < 24") (auto simp: bit_simps)
  done

lemma seg_limit_SEG: "seg_limit (SEG ty base lim d) = lim OR 0xFFF"
  unfolding seg_limit_def SEG_def mask_consts Let_def
  apply (rule bit_word_eqI)
  subgoal for n by (cases "n < 28") (auto simp: bit_simps)
  done

section \<open>Properties\<close>

text \<open>
  C24. \<^verbatim>\<open>idt_init\<close> builds a well-formed table: each of the 256 gates is a present system gate that enters
  the kernel code segment at the stub of its own vector, and the gate of the system call is the only one
  user code may invoke and the only one that leaves interrupts enabled.
\<close>

theorem idt_init_correct:
  "length (idt_init vectors) = 256 \<and>
   (\<forall>i<256. let g = idt_init vectors ! i in
      gate_target g = vectors i \<and> gate_cs g = 8 \<and> gate_p g = 1 \<and> gate_s g = 0 \<and>
      gate_dpl g = (if i = T_SYSCALL then 3 else 0) \<and> gate_type g = (if i = T_SYSCALL then 0xF else 0xE))"
proof -
  have "let g = SETGATE t 8 h d in gate_cs g = 8 \<and> gate_p g = 1 \<and> gate_s g = 0 \<and> gate_dpl g = ucast d \<and>
      gate_type g = (if t then 0xF else 0xE)" for t h d
    by (simp add: SETGATE_def STS_TG32_def STS_IG32_def)
  then show ?thesis
    by (auto simp: idt_init_def Let_def T_SYSCALL_def DPL_USER_def gate_target_SETGATE nth_list_update)
qed

theorem idt_init_correct_witness:
  "gate_target (idt_init (\<lambda>i. of_nat (16 * i)) ! 14) = 224 \<and> gate_dpl (idt_init (\<lambda>i. of_nat (16 * i)) ! 14) = 0 \<and>
   gate_dpl (idt_init (\<lambda>i. of_nat (16 * i)) ! 0x80) = 3"
proof -
  note * = idt_init_correct [of "\<lambda>i. of_nat (16 * i)", THEN conjunct2, rule_format]
  show ?thesis using * [of 14] * [of "0x80"] by (simp add: Let_def T_SYSCALL_def)
qed

text \<open>
  C25. \<^verbatim>\<open>gdt_init_cpu\<close> writes the descriptors the processor expects, bit for bit: present, 32-bit, page-granular code
  segments (execute and read) and data segments (read and write) over the whole address space, once for ring 0 and
  once for ring 3.  The per-processor segment is a ring 0 data segment that starts at the structure's own pointer;
  the task state segment is a present system descriptor of an available 32-bit task at the structure's address.
  Their limits are rounded up to the end of a page.  The null descriptor and the last one are left alone.
\<close>

theorem gdt_init_cpu_correct:
  fixes fld sz tss n :: u32
  assumes "length (cpu_gdt c) = 8"
  defines "g \<equiv> cpu_gdt (gdt_init_cpu fld sz tss n c)"
  shows "segdesc_word (g ! SEG_KCODE) = 0x00CF9A000000FFFF \<and> segdesc_word (g ! SEG_KDATA) = 0x00CF92000000FFFF \<and>
    segdesc_word (g ! SEG_UCODE) = 0x00CFFA000000FFFF \<and> segdesc_word (g ! SEG_UDATA) = 0x00CFF2000000FFFF \<and>
    seg_base (g ! SEG_KCPU) = fld \<and> seg_limit (g ! SEG_KCPU) = sz OR 0xFFF \<and> seg_type (g ! SEG_KCPU) = 2 \<and>
    seg_s (g ! SEG_KCPU) = 1 \<and> seg_dpl (g ! SEG_KCPU) = 0 \<and> seg_p (g ! SEG_KCPU) = 1 \<and>
    seg_base (g ! SEG_TSS) = tss \<and> seg_limit (g ! SEG_TSS) = (n - 1) OR 0xFFF \<and> seg_type (g ! SEG_TSS) = 9 \<and>
    seg_s (g ! SEG_TSS) = 0 \<and> seg_dpl (g ! SEG_TSS) = 0 \<and> seg_p (g ! SEG_TSS) = 1 \<and>
    g ! 0 = cpu_gdt c ! 0 \<and> g ! 7 = cpu_gdt c ! 7 \<and> length g = 8"
proof -
  have s: "seg_base (d\<lparr>seg_s := x\<rparr>) = seg_base d" "seg_limit (d\<lparr>seg_s := x\<rparr>) = seg_limit d" for d x
    by (simp_all add: seg_base_def seg_limit_def)
  have f: "seg_s (SEG ty b l d) = 1" "seg_dpl (SEG ty b l d) = ucast d" "seg_type (SEG ty b l d) = ucast ty" "seg_p (SEG ty b l d) = 1"
    for ty b l d by (simp_all add: SEG_def)
  have w: "segdesc_word (SEG (STA_X OR STA_R) 0 0xFFFFFFFF 0) = 0x00CF9A000000FFFF" "segdesc_word (SEG STA_W 0 0xFFFFFFFF 0) = 0x00CF92000000FFFF"
      "segdesc_word (SEG (STA_X OR STA_R) 0 0xFFFFFFFF 3) = 0x00CFFA000000FFFF" "segdesc_word (SEG STA_W 0 0xFFFFFFFF 3) = 0x00CFF2000000FFFF"
    by (simp_all add: segdesc_word_def SEG_def STA_X_def STA_R_def STA_W_def)
  have "(ucast STS_T32A :: 4 word) = 9" "(ucast STA_W :: 4 word) = 2" by (simp_all add: STS_T32A_def STA_W_def)
  then show ?thesis
    using assms(1) w unfolding g_def
    by (simp add: gdt_init_cpu_def Let_def SEG_KCODE_def SEG_KDATA_def SEG_KCPU_def SEG_UCODE_def SEG_UDATA_def SEG_TSS_def
        DPL_USER_def seg_base_SEG seg_limit_SEG s f)
qed

definition cpu0 :: cpu where
  "cpu0 = \<lparr>cpu_id = 0, cpu_stack = 0, cpu_ncli = 0, cpu_gdt = replicate 8 (SEG 0 0 0 0), cpu_self = 0\<rparr>"

theorem gdt_init_cpu_correct_witness:
  "seg_base (cpu_gdt (gdt_init_cpu 0x60 100 0xC0110000 104 cpu0) ! SEG_TSS) = 0xC0110000"
  using gdt_init_cpu_correct [of cpu0 "0x60" 100 "0xC0110000" 104] by (simp add: cpu0_def)

end
