(* ===== verification/Opcodes.thy ===== *)
theory Opcodes
  imports Prelude
begin

text \<open>
  The tables of the assembler, \<^verbatim>\<open>user/opcodes.h\<close>: operand classes, register names and the
  instruction set \<^verbatim>\<open>x86[]\<close>, row by row.  A mnemonic has room for ten bytes.  Three of the names
  contain a two-byte no-break space; two of these are longer and appear as they are stored, cut to ten.
\<close>

section \<open>Register codes and operand classes\<close>

definition EAX :: u32 where "EAX = 0"
definition ECX :: u32 where "ECX = 1"
definition EDX :: u32 where "EDX = 2"
definition EBX :: u32 where "EBX = 3"
definition ESP :: u32 where "ESP = 4"
definition EBP :: u32 where "EBP = 5"
definition ESI :: u32 where "ESI = 6"
definition EDI :: u32 where "EDI = 7"

definition MOD_ZERO :: u32 where "MOD_ZERO = 0"
definition MOD_ONE :: u32 where "MOD_ONE = 1"
definition MOD_FOUR :: u32 where "MOD_FOUR = 2"
definition MOD_REG :: u32 where "MOD_REG = 3"

definition none :: u32 where "none = 0"
definition r32 :: u32 where "r32 = 0x10"
definition rm32 :: u32 where "rm32 = r32"
definition r8 :: u32 where "r8 = 0x20"
definition rm8 :: u32 where "rm8 = r8"
definition imm8 :: u32 where "imm8 = 0x40"
definition imm32 :: u32 where "imm32 = 0x80"
definition crn :: u32 where "crn = 0x100"
definition rel8 :: u32 where "rel8 = 0x200"
definition rel32 :: u32 where "rel32 = 0x400"
definition eax :: u32 where "eax = r32 OR EAX OR 0x800"
definition edx :: u32 where "edx = r32 OR EDX"
definition ecx :: u32 where "ecx = r32 OR ECX"
definition ebx :: u32 where "ebx = r32 OR EBX"
definition sreg :: u32 where "sreg = 0x1000"
definition ss :: u32 where "ss = sreg OR 2"
definition cs :: u32 where "cs = sreg OR 1"
definition ds :: u32 where "ds = sreg OR 3"
definition es :: u32 where "es = sreg OR 0"
definition fs :: u32 where "fs = sreg OR 4"
definition gs :: u32 where "gs = sreg OR 5"

lemmas class_defs = none_def r32_def rm32_def r8_def rm8_def imm8_def imm32_def crn_def rel8_def rel32_def
  eax_def edx_def ecx_def ebx_def sreg_def ss_def cs_def ds_def es_def fs_def gs_def
lemmas code_defs = EAX_def ECX_def EDX_def EBX_def ESP_def EBP_def ESI_def EDI_def
lemmas mod_defs = MOD_ZERO_def MOD_ONE_def MOD_FOUR_def MOD_REG_def

text \<open>The Mod/RM and SIB bytes share one layout.\<close>

definition MODRM :: "u32 \<Rightarrow> u32 \<Rightarrow> u32 \<Rightarrow> u32" where
  "MODRM md reg rm = push_bit 6 (md AND 0x3) OR push_bit 3 (reg AND 0x7) OR (rm AND 0x7)"

section \<open>Register names\<close>

record syntax_row =
  syn_name :: string
  syn_code :: u32

text \<open>
  The segment table stands before the redefinition of \<^verbatim>\<open>ss\<close> to \<^verbatim>\<open>gs\<close>, so its codes do not carry
  \<^verbatim>\<open>sreg\<close>.
\<close>

definition registers :: "syntax_row list" where
  "registers =
   [syntax_row.make ''eax'' EAX, syntax_row.make ''ecx'' ECX, syntax_row.make ''edx'' EDX, syntax_row.make ''ebx'' EBX,
    syntax_row.make ''esp'' ESP, syntax_row.make ''ebp'' EBP, syntax_row.make ''esi'' ESI, syntax_row.make ''edi'' EDI,
    syntax_row.make ''ax'' EAX, syntax_row.make ''cx'' ECX, syntax_row.make ''dx'' EDX, syntax_row.make ''bx'' EBX,
    syntax_row.make ''sp'' ESP, syntax_row.make ''bp'' EBP, syntax_row.make ''si'' ESI, syntax_row.make ''di'' EDI]"

definition half :: "syntax_row list" where
  "half =
   [syntax_row.make ''al'' EAX, syntax_row.make ''cl'' ECX, syntax_row.make ''dl'' EDX, syntax_row.make ''bl'' EBX,
    syntax_row.make ''ah'' EAX, syntax_row.make ''ch'' ECX, syntax_row.make ''dh'' EDX, syntax_row.make ''bh'' EBX]"

definition segments :: "syntax_row list" where
  "segments =
   [syntax_row.make ''ss'' 2, syntax_row.make ''cs'' 1, syntax_row.make ''es'' 0, syntax_row.make ''fs'' 4,
    syntax_row.make ''gs'' 5, syntax_row.make ''ds'' 3]"

section \<open>The instruction set\<close>

record isa =
  isa_name :: string
  isa_op1 :: u32
  isa_op2 :: u32
  primary :: u32
  extension :: u32
  secondary :: u32
  isa_prefix :: u32

definition x86_1 :: "isa list" where
  "x86_1 =
  [isa.make ''adc'' r8 rm8 0x12 0x0 0x0 0x0,
   isa.make ''adc'' r32 rm32 0x13 0x0 0x0 0x0,
   isa.make ''adc'' eax imm32 0x15 0x0 0x0 0x0,
   isa.make ''adc'' rm8 imm8 0x80 0x2 0x0 0x0,
   isa.make ''adc'' rm32 imm32 0x81 0x2 0x0 0x0,
   isa.make ''adc'' rm8 imm8 0x82 0x2 0x0 0x0,
   isa.make ''adc'' rm32 imm8 0x83 0x2 0x0 0x0,
   isa.make ''add'' rm32 imm8 0x83 0x2 0x0 0x0,
   isa.make ''add'' r8 rm8 0x2 0x0 0x0 0x0,
   isa.make ''add'' r32 rm32 0x3 0x0 0x0 0x0,
   isa.make ''add'' eax imm32 0x5 0x0 0x0 0x0,
   isa.make ''add'' rm8 imm8 0x80 0x0 0x0 0x0,
   isa.make ''add'' rm32 imm32 0x81 0x0 0x0 0x0,
   isa.make ''add'' rm8 imm8 0x82 0x0 0x0 0x0,
   isa.make ''add'' rm32 imm8 0x83 0x0 0x0 0x0,
   isa.make ''and'' r8 rm8 0x22 0x0 0x0 0x0,
   isa.make ''and'' r32 rm32 0x23 0x0 0x0 0x0,
   isa.make ''and'' eax imm32 0x25 0x0 0x0 0x0,
   isa.make ''and'' rm8 imm8 0x80 0x4 0x0 0x0,
   isa.make ''and'' rm32 imm32 0x81 0x4 0x0 0x0,
   isa.make ''and'' rm8 imm8 0x82 0x4 0x0 0x0,
   isa.make ''and'' rm32 imm8 0x83 0x4 0x0 0x0,
   isa.make ''bsf'' r32 rm32 0xBC 0x0 0x0 0x0F,
   isa.make ''bsr'' r32 rm32 0xBD 0x0 0x0 0x0F,
   isa.make ''bswap'' r32 none 0xC8 0xDEAD 0x0 0x0F,
   isa.make ''bt'' rm32 imm8 0xBA 0x4 0x0 0x0F,
   isa.make ''btc'' rm32 imm8 0xBA 0x7 0x0 0x0F,
   isa.make ''btr'' rm32 imm8 0xBA 0x6 0x0 0x0F,
   isa.make ''bts'' rm32 imm8 0xBA 0x5 0x0 0x0F,
   isa.make ''call'' rel32 none 0xE8 0x0 0x0 0x0,
   isa.make ''call'' rm32 none 0xFF 0x2 0x0 0x0,
   isa.make ''cdq'' edx eax 0x99 0x0 0x0 0x0,
   isa.make ''clc'' none none 0xF8 0x0 0x0 0x0,
   isa.make ''cld'' none none 0xFC 0x0 0x0 0x0,
   isa.make ''cli'' none none 0xFA 0x0 0x0 0x0,
   isa.make ''cmc'' none none 0xF5 0x0 0x0 0x0,
   isa.make ''cmovb'' r32 rm32 0x42 0x0 0x0 0x0F,
   isa.make ''cmovnae'' r32 rm32 0x42 0x0 0x0 0x0F,
   isa.make ''cmovc'' r32 rm32 0x42 0x0 0x0 0x0F,
   isa.make ''cmovbe'' r32 rm32 0x46 0x0 0x0 0x0F,
   isa.make ''cmovna'' r32 rm32 0x46 0x0 0x0 0x0F,
   isa.make ''cmovl'' r32 rm32 0x4C 0x0 0x0 0x0F,
   isa.make ''cmovnge'' r32 rm32 0x4C 0x0 0x0 0x0F,
   isa.make ''cmovle'' r32 rm32 0x4E 0x0 0x0 0x0F,
   isa.make ''cmovng'' r32 rm32 0x4E 0x0 0x0 0x0F,
   isa.make ''cmovnb'' r32 rm32 0x43 0x0 0x0 0x0F,
   isa.make ''cmovae'' r32 rm32 0x43 0x0 0x0 0x0F,
   isa.make ''cmovnc'' r32 rm32 0x43 0x0 0x0 0x0F,
   isa.make ''cmovnbe'' r32 rm32 0x47 0x0 0x0 0x0F,
   isa.make ''cmova'' r32 rm32 0x47 0x0 0x0 0x0F,
   isa.make ''cmovnl'' r32 rm32 0x4D 0x0 0x0 0x0F,
   isa.make ''cmovge'' r32 rm32 0x4D 0x0 0x0 0x0F,
   isa.make ''cmovnle'' r32 rm32 0x4F 0x0 0x0 0x0F,
   isa.make ''cmovg'' r32 rm32 0x4F 0x0 0x0 0x0F,
   isa.make ''cmovno'' r32 rm32 0x41 0x0 0x0 0x0F,
   isa.make ''cmovnp'' r32 rm32 0x4B 0x0 0x0 0x0F,
   isa.make ''cmovpo'' r32 rm32 0x4B 0x0 0x0 0x0F,
   isa.make ''cmovns'' r32 rm32 0x49 0x0 0x0 0x0F,
   isa.make ''cmovnz'' r32 rm32 0x45 0x0 0x0 0x0F,
   isa.make ''cmovne'' r32 rm32 0x45 0x0 0x0 0x0F,
   isa.make ''cmovo'' r32 rm32 0x40 0x0 0x0 0x0F,
   isa.make ''cmovp'' r32 rm32 0x4A 0x0 0x0 0x0F,
   isa.make ''cmovpe'' r32 rm32 0x4A 0x0 0x0 0x0F,
   isa.make ''cmovs'' r32 rm32 0x48 0x0 0x0 0x0F,
   isa.make ''cmovz'' r32 rm32 0x44 0x0 0x0 0x0F,
   isa.make ''cmove'' r32 rm32 0x44 0x0 0x0 0x0F,
   isa.make ''cmp'' r8 rm8 0x3A 0x0 0x0 0x0,
   isa.make ''cmp'' r32 rm32 0x3B 0x0 0x0 0x0,
   isa.make ''cmp'' eax imm32 0x3D 0x0 0x0 0x0,
   isa.make ''cmp'' rm8 imm8 0x80 0x7 0x0 0x0,
   isa.make ''cmp'' rm32 imm32 0x81 0x7 0x0 0x0,
   isa.make ''cmp'' rm8 imm8 0x82 0x7 0x0 0x0,
   isa.make ''cmp'' rm32 imm8 0x83 0x7 0x0 0x0,
   isa.make ''cmpsb'' rm32 imm8 0x83 0x7 0x0 0x0,
   isa.make ''cmpsw'' rm32 imm8 0x83 0x7 0x0 0x0,
   isa.make ''cmpsd'' rm32 imm8 0x83 0x7 0x0 0x0,
   isa.make ''cmpxchg'' rm32 eax 0xB1 0x0 0x0 0x0F,
   isa.make ''crc32'' r32 rm8 0x38 0x0 0xF2 0x0F,
   isa.make ''crc32'' r32 rm32 0x38 0x0 0xF2 0x0F,
   isa.make ''cs'' r32 rm32 0x38 0x0 0xF2 0x0F,
   isa.make ''dec'' r32 none 0x48 0xDEAD 0x0 0x0,
   isa.make ''dec'' rm8 none 0xFE 0x0 0x0 0x0,
   isa.make ''dec'' rm32 none 0xFF 0x0 0x0 0x0,
   isa.make ''div'' rm8 none 0xF6 0x6 0x0 0x0,
   isa.make ''div'' rm32 none 0xF7 0x6 0x0 0x0,
   isa.make ''ds'' rm32 none 0xF7 0x6 0x0 0x0,
   isa.make ''emms'' none none 0x77 0x0 0x0 0x0F,
   isa.make ''es'' none none 0x77 0x0 0x0 0x0F,
   isa.make ''fadd'' none none 0x77 0x0 0x0 0x0F,
   isa.make ''fclex'' none none 0xDB 0x4 0x9B 0x0,
   isa.make ''fdecstp'' none none 0xD9 0x6 0x0 0x0,
   isa.make ''fdiv'' none none 0xD9 0x6 0x0 0x0,
   isa.make ''fdivr'' none none 0xD9 0x6 0x0 0x0,
   isa.make ''fincstp'' none none 0xD9 0x6 0x0 0x0,
   isa.make ''finit'' none none 0xDB 0x4 0x9B 0x0,
   isa.make ''fmul'' none none 0xDB 0x4 0x9B 0x0,
   isa.make ''fnclex'' none none 0xDB 0x4 0x0 0x0,
   isa.make (''fndisi'' @ CHR 0xC2 # CHR 0xA0 # ''no'') none none 0xDB 0x4 0x0 0x0,
   isa.make (''fneni'' @ CHR 0xC2 # CHR 0xA0 # ''nop'') none none 0xDB 0x4 0x0 0x0,
   isa.make ''fninit'' none none 0xDB 0x4 0x0 0x0,
   isa.make ''fnop'' none none 0xD9 0x2 0x0 0x0,
   isa.make (''fnsetpm'' @ CHR 0xC2 # CHR 0xA0 # ''n'') none none 0xDB 0x4 0x0 0x0,
   isa.make ''fs'' none none 0xDB 0x4 0x0 0x0,
   isa.make ''fsub'' none none 0xDB 0x4 0x0 0x0,
   isa.make ''fsubr'' none none 0xDB 0x4 0x0 0x0,
   isa.make ''fwait'' none none 0x9B 0x0 0x0 0x0,
   isa.make ''wait'' none none 0x9B 0x0 0x0 0x0,
   isa.make ''getsec'' eax none 0x37 0x0 0x0 0x0F,
   isa.make ''gs'' eax none 0x37 0x0 0x0 0x0F,
   isa.make ''hint_nop'' rm32 none 0x18 0x4 0x0 0x0F,
   isa.make ''hint_nop'' rm32 none 0x18 0x5 0x0 0x0F,
   isa.make ''hint_nop'' rm32 none 0x18 0x6 0x0 0x0F,
   isa.make ''hint_nop'' rm32 none 0x18 0x7 0x0 0x0F,
   isa.make ''hint_nop'' rm32 none 0x19 0x0 0x0 0x0F,
   isa.make ''hint_nop'' rm32 none 0x1A 0x0 0x0 0x0F,
   isa.make ''hint_nop'' rm32 none 0x1B 0x0 0x0 0x0F,
   isa.make ''hint_nop'' rm32 none 0x1C 0x0 0x0 0x0F,
   isa.make ''hint_nop'' rm32 none 0x1D 0x0 0x0 0x0F,
   isa.make ''hint_nop'' rm32 none 0x1E 0x0 0x0 0x0F]"

definition x86_2 :: "isa list" where
  "x86_2 =
  [isa.make ''hint_nop'' rm32 none 0x1F 0x0 0x0 0x0F,
   isa.make ''hint_nop'' rm32 none 0x1F 0x2 0x0 0x0F,
   isa.make ''hint_nop'' rm32 none 0x1F 0x3 0x0 0x0F,
   isa.make ''hint_nop'' rm32 none 0x1F 0x4 0x0 0x0F,
   isa.make ''hint_nop'' rm32 none 0x1F 0x5 0x0 0x0F,
   isa.make ''hint_nop'' rm32 none 0x1F 0x6 0x0 0x0F,
   isa.make ''hint_nop'' rm32 none 0x1F 0x7 0x0 0x0F,
   isa.make ''hlt'' none none 0xF4 0x0 0x0 0x0,
   isa.make ''idiv'' edx eax 0xF7 0x7 0x0 0x0,
   isa.make ''imul'' r32 rm32 0x69 0x0 0x0 0x0,
   isa.make ''imul'' r32 rm32 0x6B 0x0 0x0 0x0,
   isa.make ''imul'' edx eax 0xF7 0x5 0x0 0x0,
   isa.make ''imul'' r32 rm32 0xAF 0x0 0x0 0x0F,
   isa.make ''in'' eax imm8 0xE5 0x0 0x0 0x0,
   isa.make ''inc'' r32 none 0x40 0xDEAD 0x0 0x0,
   isa.make ''inc'' rm8 none 0xFE 0x0 0x0 0x0,
   isa.make ''inc'' rm32 none 0xFF 0x0 0x0 0x0,
   isa.make ''insb'' rm32 none 0xFF 0x0 0x0 0x0,
   isa.make ''insw'' rm32 none 0xFF 0x0 0x0 0x0,
   isa.make ''insd'' rm32 none 0xFF 0x0 0x0 0x0,
   isa.make ''insertps'' rm32 none 0xFF 0x0 0x0 0x0,
   isa.make ''int'' imm8 none 0xCD 0x0 0x0 0x0,
   isa.make ''int1'' none none 0xF1 0x0 0x0 0x0,
   isa.make ''icebp'' none none 0xF1 0x0 0x0 0x0,
   isa.make ''into'' none none 0xCE 0x0 0x0 0x0,
   isa.make ''invd'' none none 0x8 0x0 0x0 0x0F,
   isa.make ''invlpg'' none none 0x8 0x0 0x0 0x0F,
   isa.make ''iret'' none none 0xCF 0x0 0x0 0x0,
   isa.make ''iretd'' none none 0xCF 0x0 0x0 0x0,
   isa.make ''jb'' rel8 none 0x72 0x0 0x0 0x0,
   isa.make ''jnae'' rel8 none 0x72 0x0 0x0 0x0,
   isa.make ''jc'' rel8 none 0x72 0x0 0x0 0x0,
   isa.make ''jb'' rel32 none 0x82 0x0 0x0 0x0F,
   isa.make ''jnae'' rel32 none 0x82 0x0 0x0 0x0F,
   isa.make ''jc'' rel32 none 0x82 0x0 0x0 0x0F,
   isa.make ''jbe'' rel8 none 0x76 0x0 0x0 0x0,
   isa.make ''jna'' rel8 none 0x76 0x0 0x0 0x0,
   isa.make ''jbe'' rel32 none 0x86 0x0 0x0 0x0F,
   isa.make ''jna'' rel32 none 0x86 0x0 0x0 0x0F,
   isa.make ''jecxz'' rel32 none 0x86 0x0 0x0 0x0F,
   isa.make ''jl'' rel8 none 0x7C 0x0 0x0 0x0,
   isa.make ''jnge'' rel8 none 0x7C 0x0 0x0 0x0,
   isa.make ''jl'' rel32 none 0x8C 0x0 0x0 0x0F,
   isa.make ''jnge'' rel32 none 0x8C 0x0 0x0 0x0F,
   isa.make ''jle'' rel8 none 0x7E 0x0 0x0 0x0,
   isa.make ''jng'' rel8 none 0x7E 0x0 0x0 0x0,
   isa.make ''jle'' rel32 none 0x8E 0x0 0x0 0x0F,
   isa.make ''jng'' rel32 none 0x8E 0x0 0x0 0x0F,
   isa.make ''jmp'' rel32 none 0xE9 0x0 0x0 0x0,
   isa.make ''jmp'' rel8 none 0xEB 0x0 0x0 0x0,
   isa.make ''jmp'' rm32 none 0xFF 0x4 0x0 0x0,
   isa.make ''jnb'' rel8 none 0x73 0x0 0x0 0x0,
   isa.make ''jae'' rel8 none 0x73 0x0 0x0 0x0,
   isa.make ''jnc'' rel8 none 0x73 0x0 0x0 0x0,
   isa.make ''jnb'' rel32 none 0x83 0x0 0x0 0x0F,
   isa.make ''jae'' rel32 none 0x83 0x0 0x0 0x0F,
   isa.make ''jnc'' rel32 none 0x83 0x0 0x0 0x0F,
   isa.make ''jnbe'' rel8 none 0x77 0x0 0x0 0x0,
   isa.make ''ja'' rel8 none 0x77 0x0 0x0 0x0,
   isa.make ''jnbe'' rel32 none 0x87 0x0 0x0 0x0F,
   isa.make ''ja'' rel32 none 0x87 0x0 0x0 0x0F,
   isa.make ''jnl'' rel8 none 0x7D 0x0 0x0 0x0,
   isa.make ''jge'' rel8 none 0x7D 0x0 0x0 0x0,
   isa.make ''jnl'' rel32 none 0x8D 0x0 0x0 0x0F,
   isa.make ''jge'' rel32 none 0x8D 0x0 0x0 0x0F,
   isa.make ''jnle'' rel8 none 0x7F 0x0 0x0 0x0,
   isa.make ''jg'' rel8 none 0x7F 0x0 0x0 0x0,
   isa.make ''jnle'' rel32 none 0x8F 0x0 0x0 0x0F,
   isa.make ''jg'' rel32 none 0x8F 0x0 0x0 0x0F,
   isa.make ''jno'' rel8 none 0x71 0x0 0x0 0x0,
   isa.make ''jno'' rel32 none 0x81 0x0 0x0 0x0F,
   isa.make ''jnp'' rel8 none 0x7B 0x0 0x0 0x0,
   isa.make ''jpo'' rel8 none 0x7B 0x0 0x0 0x0,
   isa.make ''jnp'' rel32 none 0x8B 0x0 0x0 0x0F,
   isa.make ''jpo'' rel32 none 0x8B 0x0 0x0 0x0F,
   isa.make ''jns'' rel8 none 0x79 0x0 0x0 0x0,
   isa.make ''jns'' rel32 none 0x89 0x0 0x0 0x0F,
   isa.make ''jnz'' rel8 none 0x75 0x0 0x0 0x0,
   isa.make ''jne'' rel8 none 0x75 0x0 0x0 0x0,
   isa.make ''jnz'' rel32 none 0x85 0x0 0x0 0x0F,
   isa.make ''jne'' rel32 none 0x85 0x0 0x0 0x0F,
   isa.make ''jo'' rel8 none 0x70 0x0 0x0 0x0,
   isa.make ''jo'' rel32 none 0x80 0x0 0x0 0x0F,
   isa.make ''jp'' rel8 none 0x7A 0x0 0x0 0x0,
   isa.make ''jpe'' rel8 none 0x7A 0x0 0x0 0x0,
   isa.make ''jp'' rel32 none 0x8A 0x0 0x0 0x0F,
   isa.make ''jpe'' rel32 none 0x8A 0x0 0x0 0x0F,
   isa.make ''js'' rel8 none 0x78 0x0 0x0 0x0,
   isa.make ''js'' rel32 none 0x88 0x0 0x0 0x0F,
   isa.make ''jz'' rel8 none 0x74 0x0 0x0 0x0,
   isa.make ''je'' rel8 none 0x74 0x0 0x0 0x0,
   isa.make ''jz'' rel32 none 0x84 0x0 0x0 0x0F,
   isa.make ''je'' rel32 none 0x84 0x0 0x0 0x0F,
   isa.make ''lar'' rel32 none 0x84 0x0 0x0 0x0F,
   isa.make ''lds'' ds r32 0xC5 0x0 0x0 0x0,
   isa.make ''lea'' r32 rel32 0x8D 0x0 0x0 0x0,
   isa.make ''les'' es r32 0xC4 0x0 0x0 0x0,
   isa.make ''lfence'' none none 0xAE 0x5 0x0 0x0F,
   isa.make ''lfs'' fs r32 0xB4 0x0 0x0 0x0F,
   isa.make ''lgdt'' r32 none 0x1 0x0 0x0 0x0F,
   isa.make ''lgs'' gs r32 0xB5 0x0 0x0 0x0F,
   isa.make ''lidt'' rel32 none 0x1 0x0 0x0 0x0F,
   isa.make ''lmsw'' gs r32 0xB5 0x0 0x0 0x0F,
   isa.make ''lock'' gs r32 0xB5 0x0 0x0 0x0F,
   isa.make ''lodsb'' gs r32 0xB5 0x0 0x0 0x0F,
   isa.make ''lodsw'' gs r32 0xB5 0x0 0x0 0x0F,
   isa.make ''lodsd'' gs r32 0xB5 0x0 0x0 0x0F,
   isa.make ''loop'' ecx rel8 0xE2 0x0 0x0 0x0,
   isa.make ''loopnz'' ecx rel8 0xE0 0x0 0x0 0x0,
   isa.make ''loopne'' ecx rel8 0xE0 0x0 0x0 0x0,
   isa.make ''loopz'' ecx rel8 0xE1 0x0 0x0 0x0,
   isa.make ''loope'' ecx rel8 0xE1 0x0 0x0 0x0,
   isa.make ''lsl'' ecx rel8 0xE1 0x0 0x0 0x0,
   isa.make ''lss'' ss r32 0xB2 0x0 0x0 0x0F,
   isa.make ''mfence'' none none 0xAE 0x6 0x0 0x0F,
   isa.make ''monitor'' none none 0xAE 0x6 0x0 0x0F,
   isa.make ''mov'' r8 rm8 0x8A 0x0 0x0 0x0,
   isa.make ''mov'' r32 rm32 0x8B 0x0 0x0 0x0,
   isa.make ''mov'' r32 rm32 0x8B 0x0 0x0 0x0]"

definition x86_3 :: "isa list" where
  "x86_3 =
  [isa.make ''mov'' sreg rm32 0x8E 0x0 0x0 0x0,
   isa.make ''mov'' r8 imm8 0xB0 0xDEAD 0x0 0x0,
   isa.make ''mov'' r32 imm32 0xB8 0xDEAD 0x0 0x0,
   isa.make ''mov'' rm8 imm8 0xC6 0x0 0x0 0x0,
   isa.make ''mov'' rm32 imm32 0xC7 0x0 0x0 0x0,
   isa.make ''mov'' r32 crn 0x20 0x0 0x0 0x0F,
   isa.make ''mov'' r32 crn 0x20 0x0 0x0 0x0F,
   isa.make ''mov'' crn r32 0x22 0x0 0x0 0x0F,
   isa.make ''mov'' crn r32 0x22 0x0 0x0 0x0F,
   isa.make ''movsb'' crn r32 0x22 0x0 0x0 0x0F,
   isa.make ''movsw'' crn r32 0x22 0x0 0x0 0x0F,
   isa.make ''movsd'' crn r32 0x22 0x0 0x0 0x0F,
   isa.make ''movsx'' r32 rm8 0xBE 0x0 0x0 0x0F,
   isa.make ''movsx'' r32 rm32 0xBF 0x0 0x0 0x0F,
   isa.make ''movzx'' r32 rm8 0xB6 0x0 0x0 0x0F,
   isa.make ''movzx'' r32 rm32 0xB7 0x0 0x0 0x0F,
   isa.make ''mul'' rm8 none 0xF6 0x4 0x0 0x0,
   isa.make ''mul'' rm32 none 0xF7 0x4 0x0 0x0,
   isa.make ''mwait'' rm32 none 0xF7 0x4 0x0 0x0,
   isa.make ''neg'' rm8 none 0xF6 0x3 0x0 0x0,
   isa.make ''neg'' rm32 none 0xF7 0x3 0x0 0x0,
   isa.make ''nop'' none none 0x90 0x0 0x0 0x0,
   isa.make ''nop'' rm32 none 0x0D 0x0 0x0 0x0F,
   isa.make ''nop'' rm32 none 0x1F 0x0 0x0 0x0F,
   isa.make ''not'' rm8 none 0xF6 0x2 0x0 0x0,
   isa.make ''not'' rm32 none 0xF7 0x2 0x0 0x0,
   isa.make ''or'' r8 rm8 0x0A 0x0 0x0 0x0,
   isa.make ''or'' r32 rm32 0x0B 0x0 0x0 0x0,
   isa.make ''or'' eax imm32 0x0D 0x0 0x0 0x0,
   isa.make ''or'' rm8 imm8 0x80 0x0 0x0 0x0,
   isa.make ''or'' rm32 imm32 0x81 0x0 0x0 0x0,
   isa.make ''or'' rm8 imm8 0x82 0x0 0x0 0x0,
   isa.make ''or'' rm32 imm8 0x83 0x0 0x0 0x0,
   isa.make ''out'' imm8 eax 0xE7 0x0 0x0 0x0,
   isa.make ''outsb'' imm8 eax 0xE7 0x0 0x0 0x0,
   isa.make ''outsw'' imm8 eax 0xE7 0x0 0x0 0x0,
   isa.make ''outsd'' imm8 eax 0xE7 0x0 0x0 0x0,
   isa.make ''pause'' none none 0x90 0x0 0xF3 0x0,
   isa.make ''pextrb'' none none 0x90 0x0 0xF3 0x0,
   isa.make ''pextrq'' none none 0x90 0x0 0xF3 0x0,
   isa.make ''pextrw'' none none 0x90 0x0 0xF3 0x0,
   isa.make ''pinsrb'' none none 0x90 0x0 0xF3 0x0,
   isa.make ''pinsrq'' none none 0x90 0x0 0xF3 0x0,
   isa.make ''pinsrw'' none none 0x90 0x0 0xF3 0x0,
   isa.make ''pinsrw'' none none 0x90 0x0 0xF3 0x0,
   isa.make ''pmovsxbd'' none none 0x90 0x0 0xF3 0x0,
   isa.make ''pmovsxbq'' none none 0x90 0x0 0xF3 0x0,
   isa.make ''pmovsxbw'' none none 0x90 0x0 0xF3 0x0,
   isa.make ''pmovsxdq'' none none 0x90 0x0 0xF3 0x0,
   isa.make ''pmovsxwd'' none none 0x90 0x0 0xF3 0x0,
   isa.make ''pmovsxwq'' none none 0x90 0x0 0xF3 0x0,
   isa.make ''pmovzxbd'' none none 0x90 0x0 0xF3 0x0,
   isa.make ''pmovzxbq'' none none 0x90 0x0 0xF3 0x0,
   isa.make ''pmovzxbw'' none none 0x90 0x0 0xF3 0x0,
   isa.make ''pmovzxdq'' none none 0x90 0x0 0xF3 0x0,
   isa.make ''pmovzxwd'' none none 0x90 0x0 0xF3 0x0,
   isa.make ''pmovzxwq'' none none 0x90 0x0 0xF3 0x0,
   isa.make ''pop'' es none 0x7 0x0 0x0 0x0,
   isa.make ''pop'' ss none 0x17 0x0 0x0 0x0,
   isa.make ''pop'' ds none 0x1F 0x0 0x0 0x0,
   isa.make ''pop'' r32 none 0x58 0xDEAD 0x0 0x0,
   isa.make ''pop'' rm32 none 0x8F 0x0 0x0 0x0,
   isa.make ''pop'' fs none 0xA1 0x0 0x0 0x0F,
   isa.make ''pop'' gs none 0xA9 0x0 0x0 0x0F,
   isa.make ''popa'' none none 0x61 0x0 0x0 0x0,
   isa.make ''popad'' none none 0x61 0x0 0x0 0x0,
   isa.make ''popcnt'' r32 rm32 0xB8 0x0 0xF3 0x0F,
   isa.make ''popf'' none none 0x9D 0x0 0x0 0x0,
   isa.make ''popfd'' none none 0x9D 0x0 0x0 0x0,
   isa.make ''push'' es none 0x6 0x0 0x0 0x0,
   isa.make ''push'' cs none 0x0E 0x0 0x0 0x0,
   isa.make ''push'' ss none 0x32 0x0 0x0 0x0,
   isa.make ''push'' ds none 0x1E 0x0 0x0 0x0,
   isa.make ''push'' r32 none 0x50 0xDEAD 0x0 0x0,
   isa.make ''push'' imm32 none 0x68 0x0 0x0 0x0,
   isa.make ''push'' imm8 none 0x6A 0x0 0x0 0x0,
   isa.make ''push'' rm32 none 0xFF 0x6 0x0 0x0,
   isa.make ''push'' fs none 0xA0 0x0 0x0 0x0F,
   isa.make ''push'' gs none 0xA8 0x0 0x0 0x0F,
   isa.make ''pusha'' none none 0x60 0x0 0x0 0x0,
   isa.make ''pushad'' none none 0x60 0x0 0x0 0x0,
   isa.make ''pushf'' none none 0x9C 0x0 0x0 0x0,
   isa.make ''pushfd'' none none 0x9C 0x0 0x0 0x0,
   isa.make ''rcl'' rm8 imm8 0xC0 0x2 0x0 0x0,
   isa.make ''rcl'' rm32 imm8 0xC1 0x2 0x0 0x0,
   isa.make ''rcl'' rm8 none 0xD0 0x2 0x0 0x0,
   isa.make ''rcl'' rm32 none 0xD1 0x2 0x0 0x0,
   isa.make ''rcr'' rm8 imm8 0xC0 0x3 0x0 0x0,
   isa.make ''rcr'' rm32 imm8 0xC1 0x3 0x0 0x0,
   isa.make ''rcr'' rm8 none 0xD0 0x3 0x0 0x0,
   isa.make ''rcr'' rm32 none 0xD1 0x3 0x0 0x0,
   isa.make ''rdmsr'' eax edx 0x32 0x0 0x0 0x0F,
   isa.make ''rdpmc'' eax edx 0x33 0x0 0x0 0x0F,
   isa.make ''rdtsc'' eax edx 0x31 0x0 0x0 0x0F,
   isa.make ''rdtscp'' eax edx 0x31 0x0 0x0 0x0F,
   isa.make ''rep'' eax edx 0x31 0x0 0x0 0x0F,
   isa.make ''rep'' eax edx 0x31 0x0 0x0 0x0F,
   isa.make ''repnz'' eax edx 0x31 0x0 0x0 0x0F,
   isa.make ''repne'' eax edx 0x31 0x0 0x0 0x0F,
   isa.make ''repz'' eax edx 0x31 0x0 0x0 0x0F,
   isa.make ''repe'' eax edx 0x31 0x0 0x0 0x0F,
   isa.make ''retf'' imm32 none 0xCA 0x0 0x0 0x0,
   isa.make ''retf'' none none 0xCB 0x0 0x0 0x0,
   isa.make ''retn'' imm32 none 0xC2 0x0 0x0 0x0,
   isa.make ''retn'' none none 0xC3 0x0 0x0 0x0,
   isa.make ''rol'' rm8 imm8 0xC0 0x0 0x0 0x0,
   isa.make ''rol'' rm32 imm8 0xC1 0x0 0x0 0x0,
   isa.make ''rol'' rm8 none 0xD0 0x0 0x0 0x0,
   isa.make ''rol'' rm32 none 0xD1 0x0 0x0 0x0,
   isa.make ''ror'' rm8 imm8 0xC0 0x0 0x0 0x0,
   isa.make ''ror'' rm32 imm8 0xC1 0x0 0x0 0x0,
   isa.make ''ror'' rm8 none 0xD0 0x0 0x0 0x0,
   isa.make ''ror'' rm32 none 0xD1 0x0 0x0 0x0,
   isa.make ''rsm'' none none 0xAA 0x0 0x0 0x0F,
   isa.make ''sal'' rm8 imm8 0xC0 0x6 0x0 0x0,
   isa.make ''shl'' rm8 imm8 0xC0 0x6 0x0 0x0,
   isa.make ''sal'' rm32 imm8 0xC1 0x6 0x0 0x0,
   isa.make ''shl'' rm32 imm8 0xC1 0x6 0x0 0x0,
   isa.make ''sal'' rm8 none 0xD0 0x6 0x0 0x0]"

definition x86_4 :: "isa list" where
  "x86_4 =
  [isa.make ''shl'' rm8 none 0xD0 0x6 0x0 0x0,
   isa.make ''sal'' rm32 none 0xD1 0x6 0x0 0x0,
   isa.make ''shl'' rm32 none 0xD1 0x6 0x0 0x0,
   isa.make ''shl'' rm32 none 0xD1 0x6 0x0 0x0,
   isa.make ''shl'' rm32 none 0xD1 0x6 0x0 0x0,
   isa.make ''setalc'' rm32 none 0xD1 0x6 0x0 0x0,
   isa.make ''sar'' rm8 imm8 0xC0 0x7 0x0 0x0,
   isa.make ''sar'' rm32 imm8 0xC1 0x7 0x0 0x0,
   isa.make ''sar'' rm8 none 0xD0 0x7 0x0 0x0,
   isa.make ''sar'' rm32 none 0xD1 0x7 0x0 0x0,
   isa.make ''sbb'' r8 rm8 0x1A 0x0 0x0 0x0,
   isa.make ''sbb'' r32 rm32 0x1B 0x0 0x0 0x0,
   isa.make ''sbb'' eax imm32 0x1D 0x0 0x0 0x0,
   isa.make ''sbb'' rm8 imm8 0x80 0x3 0x0 0x0,
   isa.make ''sbb'' rm32 imm32 0x81 0x3 0x0 0x0,
   isa.make ''sbb'' rm8 imm8 0x82 0x3 0x0 0x0,
   isa.make ''sbb'' rm32 imm8 0x83 0x3 0x0 0x0,
   isa.make ''scasb'' rm32 imm8 0x83 0x3 0x0 0x0,
   isa.make ''scasw'' rm32 imm8 0x83 0x3 0x0 0x0,
   isa.make ''scasd'' rm32 imm8 0x83 0x3 0x0 0x0,
   isa.make ''setb'' rm8 none 0x92 0x0 0x0 0x0F,
   isa.make ''setnae'' rm8 none 0x92 0x0 0x0 0x0F,
   isa.make ''setc'' rm8 none 0x92 0x0 0x0 0x0F,
   isa.make ''setbe'' rm8 none 0x96 0x0 0x0 0x0F,
   isa.make ''setna'' rm8 none 0x96 0x0 0x0 0x0F,
   isa.make ''setl'' rm8 none 0x9C 0x0 0x0 0x0F,
   isa.make ''setnge'' rm8 none 0x9C 0x0 0x0 0x0F,
   isa.make ''setle'' rm8 none 0x9E 0x0 0x0 0x0F,
   isa.make ''setng'' rm8 none 0x9E 0x0 0x0 0x0F,
   isa.make ''setnb'' rm8 none 0x93 0x0 0x0 0x0F,
   isa.make ''setae'' rm8 none 0x93 0x0 0x0 0x0F,
   isa.make ''setnc'' rm8 none 0x93 0x0 0x0 0x0F,
   isa.make ''setnbe'' rm8 none 0x97 0x0 0x0 0x0F,
   isa.make ''seta'' rm8 none 0x97 0x0 0x0 0x0F,
   isa.make ''setnl'' rm8 none 0x9D 0x0 0x0 0x0F,
   isa.make ''setge'' rm8 none 0x9D 0x0 0x0 0x0F,
   isa.make ''setnle'' rm8 none 0x9F 0x0 0x0 0x0F,
   isa.make ''setg'' rm8 none 0x9F 0x0 0x0 0x0F,
   isa.make ''setno'' rm8 none 0x91 0x0 0x0 0x0F,
   isa.make ''setnp'' rm8 none 0x9B 0x0 0x0 0x0F,
   isa.make ''setpo'' rm8 none 0x9B 0x0 0x0 0x0F,
   isa.make ''setns'' rm8 none 0x99 0x0 0x0 0x0F,
   isa.make ''setnz'' rm8 none 0x95 0x0 0x0 0x0F,
   isa.make ''setne'' rm8 none 0x95 0x0 0x0 0x0F,
   isa.make ''seto'' rm8 none 0x90 0x0 0x0 0x0F,
   isa.make ''setp'' rm8 none 0x9A 0x0 0x0 0x0F,
   isa.make ''setpe'' rm8 none 0x9A 0x0 0x0 0x0F,
   isa.make ''sets'' rm8 none 0x98 0x0 0x0 0x0F,
   isa.make ''setz'' rm8 none 0x94 0x0 0x0 0x0F,
   isa.make ''sete'' rm8 none 0x94 0x0 0x0 0x0F,
   isa.make ''sfence'' none none 0xAE 0x7 0x0 0x0F,
   isa.make ''sgdt'' none none 0xAE 0x7 0x0 0x0F,
   isa.make ''shl'' rm8 imm8 0xC0 0x4 0x0 0x0,
   isa.make ''sal'' rm8 imm8 0xC0 0x4 0x0 0x0,
   isa.make ''shl'' rm32 imm8 0xC1 0x4 0x0 0x0,
   isa.make ''sal'' rm32 imm8 0xC1 0x4 0x0 0x0,
   isa.make ''shl'' rm8 none 0xD0 0x4 0x0 0x0,
   isa.make ''sal'' rm8 none 0xD0 0x4 0x0 0x0,
   isa.make ''shl'' rm32 none 0xD1 0x4 0x0 0x0,
   isa.make ''sal'' rm32 none 0xD1 0x4 0x0 0x0,
   isa.make ''sal'' rm32 none 0xD1 0x4 0x0 0x0,
   isa.make ''sal'' rm32 none 0xD1 0x4 0x0 0x0,
   isa.make ''shr'' rm8 imm8 0xC0 0x5 0x0 0x0,
   isa.make ''shr'' rm32 imm8 0xC1 0x5 0x0 0x0,
   isa.make ''shr'' rm8 none 0xD0 0x5 0x0 0x0,
   isa.make ''shr'' rm32 none 0xD1 0x5 0x0 0x0,
   isa.make ''sidt'' rm32 none 0xD1 0x5 0x0 0x0,
   isa.make ''sldt'' rm32 none 0xD1 0x5 0x0 0x0,
   isa.make ''smsw'' rm32 none 0xD1 0x5 0x0 0x0,
   isa.make ''smsw'' rm32 none 0xD1 0x5 0x0 0x0,
   isa.make ''ss'' rm32 none 0xD1 0x5 0x0 0x0,
   isa.make ''stc'' none none 0xF9 0x0 0x0 0x0,
   isa.make ''std'' none none 0xFD 0x0 0x0 0x0,
   isa.make ''sti'' none none 0xFB 0x0 0x0 0x0,
   isa.make ''stos'' none none 0xAA 0x0 0x0 0x0,
   isa.make ''stosb'' none none 0xAA 0x0 0x0 0x0,
   isa.make ''stos'' none none 0xAB 0x0 0x0 0x0,
   isa.make ''stosw'' none none 0xAB 0x0 0x0 0x0,
   isa.make ''stos'' none none 0xAB 0x0 0x0 0x0,
   isa.make ''stosd'' none none 0xAB 0x0 0x0 0x0,
   isa.make ''str'' none none 0xAB 0x0 0x0 0x0,
   isa.make ''sub'' r8 rm8 0x2A 0x0 0x0 0x0,
   isa.make ''sub'' r32 rm32 0x2B 0x0 0x0 0x0,
   isa.make ''sub'' eax imm32 0x2D 0x0 0x0 0x0,
   isa.make ''sub'' rm8 imm8 0x80 0x5 0x0 0x0,
   isa.make ''sub'' rm32 imm32 0x81 0x5 0x0 0x0,
   isa.make ''sub'' rm8 imm8 0x82 0x5 0x0 0x0,
   isa.make ''sub'' rm32 imm8 0x83 0x5 0x0 0x0,
   isa.make ''sysenter'' none none 0x34 0x0 0x0 0x0F,
   isa.make ''sysexit'' none none 0x35 0x0 0x0 0x0F,
   isa.make ''test'' rm8 r8 0x84 0x0 0x0 0x0,
   isa.make ''test'' rm32 r32 0x85 0x0 0x0 0x0,
   isa.make ''test'' eax imm32 0xA9 0x0 0x0 0x0,
   isa.make ''test'' rm8 imm8 0xF6 0x0 0x0 0x0,
   isa.make ''test'' rm8 imm8 0xF6 0x0 0x0 0x0,
   isa.make ''test'' rm32 imm32 0xF7 0x0 0x0 0x0,
   isa.make ''test'' rm32 imm32 0xF7 0x0 0x0 0x0,
   isa.make ''ud2'' none none 0x0B 0x0 0x0 0x0F,
   isa.make ''verr'' rm32 none 0x0 0x4 0x0 0x0F,
   isa.make ''verw'' rm32 none 0x0 0x5 0x0 0x0F,
   isa.make ''vmcall'' rm32 none 0x0 0x5 0x0 0x0F,
   isa.make ''vmlaunch'' rm32 none 0x0 0x5 0x0 0x0F,
   isa.make ''vmresume'' rm32 none 0x0 0x5 0x0 0x0F,
   isa.make ''vmwrite'' r32 rm32 0x79 0x0 0x0 0x0F,
   isa.make ''vmxoff'' r32 rm32 0x79 0x0 0x0 0x0F,
   isa.make ''wbinvd'' none none 0x9 0x0 0x0 0x0F,
   isa.make ''xchg'' r8 rm8 0x86 0x0 0x0 0x0,
   isa.make ''xchg'' r32 rm32 0x87 0x0 0x0 0x0,
   isa.make ''xchg'' r32 eax 0x90 0xDEAD 0x0 0x0,
   isa.make ''xgetbv'' r32 eax 0x90 0xDEAD 0x0 0x0,
   isa.make ''xlatb'' r32 eax 0x90 0xDEAD 0x0 0x0,
   isa.make ''xor'' r8 rm8 0x32 0x0 0x0 0x0,
   isa.make ''xor'' r32 rm32 0x33 0x0 0x0 0x0,
   isa.make ''xor'' eax imm32 0x35 0x0 0x0 0x0,
   isa.make ''xor'' rm8 imm8 0x80 0x6 0x0 0x0,
   isa.make ''xor'' rm32 imm32 0x81 0x6 0x0 0x0,
   isa.make ''xor'' rm8 imm8 0x82 0x6 0x0 0x0,
   isa.make ''xor'' rm32 imm8 0x83 0x6 0x0 0x0]"

definition x86 :: "isa list" where
  "x86 = x86_1 @ x86_2 @ x86_3 @ x86_4"

end
