(* ===== verification/Libc.thy ===== *)
theory Libc
  imports Prelude
begin

text \<open>
  The part of the user-space C library (\<^verbatim>\<open>libc/usr\<close>) that only reads strings or cuts them into
  tokens.  A string is the list of its bytes before the terminator; reading past its end reads the
  terminator.  A pointer into a line is the offset from the start of the line together with the bytes
  from there on, \<open>None\<close> being \<^verbatim>\<open>NULL\<close>.
\<close>

section \<open>Strings\<close>

type_synonym cstr = "u8 list"

type_synonym strptr = "(nat \<times> cstr) option"

definition asc :: "string \<Rightarrow> cstr" where
  "asc s = map of_char s"

text \<open>The byte a pointer to the string refers to.\<close>

fun deref :: "cstr \<Rightarrow> u8" where
  "deref [] = 0"
| "deref (c # s) = c"

fun libc_strlen :: "cstr \<Rightarrow> nat" where
  "libc_strlen [] = 0"
| "libc_strlen (c # s) = (if c \<noteq> 0 then Suc (libc_strlen s) else 0)"

fun libc_strncmp :: "cstr \<Rightarrow> cstr \<Rightarrow> nat \<Rightarrow> int" where
  "libc_strncmp s1 s2 0 = 0"
| "libc_strncmp s1 s2 (Suc n) =
    (if deref s1 \<noteq> deref s2 then (if deref s1 < deref s2 then - 1 else 1)
     else if deref s1 = 0 then 0
     else libc_strncmp (tl s1) (tl s2) n)"

definition libc_strcmp :: "cstr \<Rightarrow> cstr \<Rightarrow> int" where
  "libc_strcmp s1 s2 = libc_strncmp s1 s2 (libc_strlen s1)"

text \<open>\<^verbatim>\<open>strchr\<close> and \<^verbatim>\<open>strpbrk\<close> return the offset of the byte they find.\<close>

fun libc_strchr :: "cstr \<Rightarrow> u8 \<Rightarrow> nat option" where
  "libc_strchr [] c = None"
| "libc_strchr (x # s) c =
    (if x = 0 then None else if x = c then Some 0 else map_option Suc (libc_strchr s c))"

text \<open>\<^verbatim>\<open>while (*s++)\<close> looks at the byte after the one it tests: the first byte is never compared.\<close>

fun libc_strpbrk :: "cstr \<Rightarrow> cstr \<Rightarrow> nat option" where
  "libc_strpbrk [] delim = None"
| "libc_strpbrk (x # s) delim =
    (if x = 0 then None
     else if deref s \<in> set delim then Some 1
     else map_option Suc (libc_strpbrk s delim))"

fun libc_strspn :: "cstr \<Rightarrow> cstr \<Rightarrow> nat" where
  "libc_strspn [] s2 = 0"
| "libc_strspn (x # s) s2 =
    (if x = 0 then 0 else if libc_strchr s2 x = None then 0 else Suc (libc_strspn s s2))"

text \<open>
  \<^verbatim>\<open>strtok(s, delim)\<close> with the value \<open>ptr\<close> of its static variable; the result is the token and the
  new value of the variable.
\<close>

definition libc_strtok :: "strptr \<Rightarrow> cstr \<Rightarrow> strptr \<Rightarrow> strptr \<times> strptr" where
  "libc_strtok s delim ptr =
    (case (if s \<noteq> None then s else ptr) of
       None \<Rightarrow> (None, None)
     | Some (i, p) \<Rightarrow>
         let k = libc_strspn p delim; i = i + k; p = drop k p in
         (case libc_strpbrk p delim of
            Some t \<Rightarrow> (Some (i, take t p), Some (i + t + 1, drop (t + 1) p))
          | None \<Rightarrow> (Some (i, p), None)))"

definition libc_abs :: "u32 \<Rightarrow> u32" where
  "libc_abs x = (if x <s 0 then x * - 1 else x)"

section \<open>Character classes\<close>

text \<open>The macros of \<^verbatim>\<open>ctype.h\<close> on a \<^verbatim>\<open>char\<close>, which is signed.\<close>

definition isdigit :: "u8 \<Rightarrow> bool" where
  "isdigit c \<longleftrightarrow> 48 \<le> sint c \<and> sint c \<le> 57"

definition islower :: "u8 \<Rightarrow> bool" where
  "islower c \<longleftrightarrow> 97 \<le> sint c \<and> sint c \<le> 122"

definition tolower :: "u8 \<Rightarrow> int" where
  "tolower c = (if isdigit c then sint c else if islower c then sint c else (sint c - 65) + 97)"

section \<open>What they compute\<close>

definition nul_free :: "cstr \<Rightarrow> bool" where
  "nul_free s \<longleftrightarrow> 0 \<notin> set s"

lemma nul_free_simps [simp]:
  "nul_free []" "nul_free (c # s) \<longleftrightarrow> c \<noteq> 0 \<and> nul_free s" "nul_free (s @ t) \<longleftrightarrow> nul_free s \<and> nul_free t"
  by (auto simp: nul_free_def)

lemma nul_free_take_drop: "nul_free s \<Longrightarrow> nul_free (take n s)" "nul_free s \<Longrightarrow> nul_free (drop n s)"
  by (auto simp: nul_free_def dest: in_set_takeD in_set_dropD)

lemma strlen_length [simp]: "nul_free s \<Longrightarrow> libc_strlen s = length s"
  by (induction s) auto

lemma deref_zero: "nul_free s \<Longrightarrow> deref s = 0 \<longleftrightarrow> s = []"
  by (cases s) auto

lemma strncmp_zero:
  "nul_free s1 \<Longrightarrow> nul_free s2 \<Longrightarrow> libc_strncmp s1 s2 n = 0 \<longleftrightarrow> take n s1 = take n s2"
proof (induction s1 s2 n rule: libc_strncmp.induct)
  case (2 s1 s2 n)
  then show ?case by (cases s1; cases s2) auto
qed simp

text \<open>The comparison every table lookup of the programs uses is a prefix test.\<close>

lemma strcmp_prefix:
  assumes "nul_free s1" "nul_free s2"
  shows "libc_strcmp s1 s2 = 0 \<longleftrightarrow> (\<exists>t. s2 = s1 @ t)"
proof -
  have "libc_strcmp s1 s2 = 0 \<longleftrightarrow> s1 = take (length s1) s2"
    using assms by (simp add: libc_strcmp_def strncmp_zero)
  also have "\<dots> \<longleftrightarrow> (\<exists>t. s2 = s1 @ t)"
    by (metis append_eq_conv_conj append_take_drop_id)
  finally show ?thesis .
qed

lemma strchr_None [simp]: "nul_free s \<Longrightarrow> libc_strchr s c = None \<longleftrightarrow> c \<notin> set s"
  by (induction s) auto

lemma strspn_takeWhile: "nul_free s \<Longrightarrow> nul_free d \<Longrightarrow> libc_strspn s d = length (takeWhile (\<lambda>c. c \<in> set d) s)"
  by (induction s) auto

lemma strpbrk_takeWhile:
  assumes "nul_free (x # s)" "nul_free d"
  shows "libc_strpbrk (x # s) d =
    (if \<exists>c\<in>set s. c \<in> set d then Some (Suc (length (takeWhile (\<lambda>c. c \<notin> set d) s))) else None)"
  using assms
proof (induction s arbitrary: x)
  case Nil then show ?case by (auto simp: nul_free_def)
next
  case (Cons y s)
  from Cons.prems Cons.IH [of y]
  show ?case by (subst libc_strpbrk.simps) (simp del: libc_strpbrk.simps)
qed

lemma strpbrk_bound: "libc_strpbrk s d = Some t \<Longrightarrow> 0 < t \<and> t \<le> length s"
proof (induction s arbitrary: t)
  case (Cons x s)
  then show ?case by (cases "libc_strpbrk s d") (auto split: if_splits)
qed simp

section \<open>All the tokens of a line\<close>

fun bytes_left :: "strptr \<Rightarrow> nat" where
  "bytes_left None = 0"
| "bytes_left (Some (i, p)) = Suc (length p)"

lemma strtok_shorter: "libc_strtok None d ptr = (Some t, ptr') \<Longrightarrow> bytes_left ptr' < bytes_left ptr"
  by (auto simp: libc_strtok_def Let_def split: option.splits prod.splits dest!: strpbrk_bound)

text \<open>The results of the calls \<^verbatim>\<open>strtok(NULL, delim)\<close> up to the first that returns \<^verbatim>\<open>NULL\<close>.\<close>

function libc_tokens :: "cstr \<Rightarrow> strptr \<Rightarrow> (nat \<times> cstr) list" where
  "libc_tokens delim ptr =
    (case libc_strtok None delim ptr of
       (None, _) \<Rightarrow> []
     | (Some t, ptr') \<Rightarrow> t # libc_tokens delim ptr')"
  by auto

termination
  by (relation "measure (\<lambda>(d, ptr). bytes_left ptr)") (simp_all, metis strtok_shorter)

declare libc_tokens.simps [simp del]

lemma tokens_None [simp]: "libc_tokens d None = []"
  by (subst libc_tokens.simps) (simp add: libc_strtok_def)

text \<open>
  Reference: leading delimiters are skipped; the token extends to the next delimiter, which is
  swallowed.  What is left is a token too, even when it is empty.
\<close>

function split_at :: "cstr \<Rightarrow> cstr \<Rightarrow> cstr list" where
  "split_at d s =
    (let s = dropWhile (\<lambda>c. c \<in> set d) s; t = takeWhile (\<lambda>c. c \<notin> set d) s; r = dropWhile (\<lambda>c. c \<notin> set d) s
     in if r = [] then [t] else t # split_at d (tl r))"
  by auto
termination
proof (relation "measure (\<lambda>(d, s). length s)", goal_cases)
  case (2 d s x t r)
  have "length (tl r) < length r" using 2 by (cases r) auto
  also have "length r \<le> length x" using 2 by (simp add: length_dropWhile_le)
  also have "length x \<le> length s" using 2 by (simp add: length_dropWhile_le)
  finally show ?case by simp
qed simp

declare split_at.simps [simp del]

lemma drop_takeWhile: "drop (length (takeWhile P s)) s = dropWhile P s"
  by (induction s) auto

lemma strtok_split:
  fixes i :: nat
  assumes "nul_free s" "nul_free d"
  defines "u \<equiv> dropWhile (\<lambda>c. c \<in> set d) s"
  defines "t \<equiv> takeWhile (\<lambda>c. c \<notin> set d) u" and "r \<equiv> dropWhile (\<lambda>c. c \<notin> set d) u"
  defines "i' \<equiv> i + length (takeWhile (\<lambda>c. c \<in> set d) s)"
  shows "libc_strtok None d (Some (i, s)) =
    (Some (i', t), if r = [] then None else Some (i' + length t + 1, tl r))"
proof -
  have u: "drop (libc_strspn s d) s = u" by (simp add: strspn_takeWhile assms drop_takeWhile)
  have nu: "nul_free u" unfolding u_def using assms(1) by (auto simp: nul_free_def dest: set_dropWhileD)
  have hd: "u = x # v \<Longrightarrow> x \<notin> set d" for x v
    unfolding u_def using hd_dropWhile [of "\<lambda>c. c \<in> set d" s] by (metis list.distinct(1) list.sel(1))
  show ?thesis
  proof (cases u)
    case Nil
    then show ?thesis using u by (simp add: libc_strtok_def Let_def t_def r_def i'_def strspn_takeWhile assms(1,2))
  next
    case (Cons x v)
    note x = hd [OF Cons]
    have p: "libc_strpbrk u d = (if \<exists>c\<in>set v. c \<in> set d then Some (Suc (length (takeWhile (\<lambda>c. c \<notin> set d) v))) else None)"
      using strpbrk_takeWhile [of x v d] nu assms(2) unfolding Cons by blast
    have tr: "t = x # takeWhile (\<lambda>c. c \<notin> set d) v" "r = dropWhile (\<lambda>c. c \<notin> set d) v"
      by (simp_all add: t_def r_def Cons x)
    have st: "libc_strtok None d (Some (i, s)) =
      (case libc_strpbrk u d of Some n \<Rightarrow> (Some (i', take n u), Some (i' + n + 1, drop (n + 1) u)) | None \<Rightarrow> (Some (i', u), None))"
      by (simp add: libc_strtok_def Let_def i'_def u [symmetric] strspn_takeWhile assms(1,2) split: option.split)
    show ?thesis
    proof (cases "\<exists>c\<in>set v. c \<in> set d")
      case True
      then have "r \<noteq> []" unfolding tr dropWhile_eq_Nil_conv by auto
      moreover have "take (length (takeWhile (\<lambda>c. c \<notin> set d) v)) v = takeWhile (\<lambda>c. c \<notin> set d) v"
        by (metis takeWhile_eq_take)
      moreover have "drop (Suc (length (takeWhile (\<lambda>c. c \<notin> set d) v))) v = tl r"
        unfolding tr by (metis drop_Suc drop_takeWhile tl_drop)
      ultimately show ?thesis using True by (simp add: st p) (simp add: Cons tr)
    next
      case False
      then have "r = []" unfolding tr dropWhile_eq_Nil_conv by auto
      moreover from False have "u = t" unfolding Cons tr by (subst takeWhile_eq_all_conv [THEN iffD2]) auto
      moreover have "libc_strpbrk u d = None" using False p by simp
      ultimately show ?thesis by (simp only: st option.case refl if_True)
    qed
  qed
qed

theorem strtok_tokens:
  assumes "nul_free s" "nul_free d"
  shows "map snd (libc_tokens d (Some (i, s))) = split_at d s"
  using assms
proof (induction d s arbitrary: i rule: split_at.induct)
  case (1 d s)
  define u where "u = dropWhile (\<lambda>c. c \<in> set d) s"
  define t where "t = takeWhile (\<lambda>c. c \<notin> set d) u"
  define r where "r = dropWhile (\<lambda>c. c \<notin> set d) u"
  have "set (tl r) \<subseteq> set s"
    unfolding r_def u_def by (metis list.set_sel(2) set_dropWhileD subsetI tl_Nil)
  then have nf: "nul_free (tl r)" using 1(2) by (auto simp: nul_free_def)
  note st = strtok_split [OF 1(2,3), of i, folded u_def, folded t_def r_def]
  have IH: "r \<noteq> [] \<Longrightarrow> map snd (libc_tokens d (Some (j, tl r))) = split_at d (tl r)" for j
    by (rule 1(1) [OF u_def t_def r_def _ nf 1(3)])
  have "split_at d s = (if r = [] then [t] else t # split_at d (tl r))"
    by (subst split_at.simps) (simp only: Let_def r_def t_def u_def)
  moreover have "map snd (libc_tokens d (Some (i, s))) =
      t # map snd (libc_tokens d (if r = [] then None else Some (i + length (takeWhile (\<lambda>c. c \<in> set d) s) + length t + 1, tl r)))"
    by (subst libc_tokens.simps) (simp only: st prod.case option.case list.map snd_conv)
  ultimately show ?case by (cases "r = []") (simp_all del: One_nat_def add: IH)
qed

end
