(* ===== verification/Lass.thy ===== *)
theory Lass
  imports Opcodes Libc
begin

text \<open>
  The assembler \<^verbatim>\<open>user/lass.c\<close>.  Its globals are the fields of \<open>lass\<close>; an \<^verbatim>\<open>int\<close> is kept as its 32
  bits and the two \<^verbatim>\<open>uint64_t\<close> operand words, which only ever hold operand classes, as 32 bits too.
  An access outside an array, or the use of the mnemonic before it is set, is the result \<open>None\<close>.
  Messages are not modelled.
\<close>

section \<open>State\<close>

record symbol =
  sym_name :: "u8 list"
  position :: u32

text \<open>
  \<open>heap_tail\<close> holds the bytes that follow a fresh allocation up to the first zero byte: \<^verbatim>\<open>strdup\<close>
  allocates no room for the terminator.
\<close>

record lass =
  program_length :: u32
  current_position :: u32
  num_symbols :: nat
  unr_symbols :: nat
  output_buf :: "u8 list"
  elf_output :: "u8 list"
  elf_offset :: u32
  ORG :: u32
  symtab :: "symbol list"
  unresolved :: "symbol list"
  heap_tail :: cstr

section \<open>Output\<close>

definition put_byte :: "u32 \<Rightarrow> lass \<Rightarrow> lass option" where
  "put_byte x s =
    (if unat (current_position s) < length (output_buf s)
     then Some (s\<lparr>output_buf := (output_buf s)[unat (current_position s) := ucast (x AND 0xFF)],
                  current_position := current_position s + 1\<rparr>)
     else None)"

definition write_byte :: "u32 \<Rightarrow> lass \<Rightarrow> lass option" where
  "write_byte x s = put_byte x s"

definition write_word :: "u32 \<Rightarrow> lass \<Rightarrow> lass option" where
  "write_word x s = do { s \<leftarrow> put_byte x s; put_byte (drop_bit 8 x) s }"

definition write_dword :: "u32 \<Rightarrow> lass \<Rightarrow> lass option" where
  "write_dword x s = do {
     s \<leftarrow> put_byte x s; s \<leftarrow> put_byte (drop_bit 8 x) s;
     s \<leftarrow> put_byte (drop_bit 16 x) s; put_byte (drop_bit 24 x) s }"

section \<open>Symbols\<close>

text \<open>
  The name of entry \<open>i\<close> as the string functions read it: a name that fills its 32 bytes runs on into
  the position and the entries behind.
\<close>

definition le32 :: "u32 \<Rightarrow> u8 list" where
  "le32 x = [ucast x, ucast (drop_bit 8 x), ucast (drop_bit 16 x), ucast (drop_bit 24 x)]"

definition entry_name :: "symbol list \<Rightarrow> nat \<Rightarrow> cstr" where
  "entry_name tab i = takeWhile (\<lambda>c. c \<noteq> 0) (concat (map (\<lambda>e. sym_name e @ le32 (position e)) (drop i tab)))"

definition put_name :: "(u8 \<Rightarrow> bool) \<Rightarrow> cstr \<Rightarrow> u8 list \<Rightarrow> u8 list" where
  "put_name P label old =
    map (\<lambda>i. if i < libc_strlen label \<and> P (label ! i) then label ! i else old ! i) [0..<32]"

definition patch_word :: "u32 \<Rightarrow> u32 \<Rightarrow> u32 \<Rightarrow> u8 list \<Rightarrow> u8 list option" where
  "patch_word dummy i pos out =
    (if unat i + 1 < length out
     then Some (if unat (out ! (unat i + 1)) * 256 + unat (out ! unat i) = unat dummy
                then out[unat i := ucast (pos AND 0xFF), unat i + 1 := ucast (drop_bit 8 pos AND 0xFF)]
                else out)
     else None)"

fun resolve :: "cstr \<Rightarrow> nat \<Rightarrow> nat \<Rightarrow> lass \<Rightarrow> lass option" where
  "resolve label i 0 s = Some s"
| "resolve label i (Suc k) s =
    (let name = entry_name (unresolved s) i in
     if libc_strncmp label name (libc_strlen name) = 0
     then let dummy = position (unresolved s ! i) in do {
       out \<leftarrow> patch_word dummy dummy (current_position s) (output_buf s);
       out \<leftarrow> patch_word dummy (dummy + 2) (current_position s) out;
       resolve label (i + 1) k (s\<lparr>output_buf := out\<rparr>) }
     else resolve label (i + 1) k s)"

definition add_symbol :: "cstr \<Rightarrow> lass \<Rightarrow> lass option" where
  "add_symbol label s =
    (let n = num_symbols s in
     if n < length (symtab s)
     then let e = symtab s ! n;
              s = s\<lparr>symtab := (symtab s)[n := e\<lparr>sym_name := put_name (\<lambda>c. c \<noteq> 58) label (sym_name e)\<rparr>]\<rparr> in do {
       s \<leftarrow> resolve label 0 (unr_symbols s) s;
       Some (s\<lparr>symtab := (symtab s)[n := (symtab s ! n)\<lparr>position := current_position s\<rparr>], num_symbols := n + 1\<rparr>) }
     else None)"

fun lookup_symbol :: "symbol list \<Rightarrow> cstr \<Rightarrow> nat \<Rightarrow> nat \<Rightarrow> u32 option" where
  "lookup_symbol tab label i 0 = None"
| "lookup_symbol tab label i (Suc k) =
    (if libc_strcmp (entry_name tab i) label = 0 then Some (position (tab ! i))
     else lookup_symbol tab label (i + 1) k)"

definition find_symbol :: "cstr \<Rightarrow> lass \<Rightarrow> (u32 \<times> lass) option" where
  "find_symbol label s =
    (case lookup_symbol (symtab s) label 0 (num_symbols s) of
       Some p \<Rightarrow> Some (p + elf_offset s, s)
     | None \<Rightarrow>
         if libc_strncmp label (asc ''$$'') 2 = 0 then Some (0, s)
         else if libc_strcmp label (asc ''$'') = 0 then Some (current_position s + elf_offset s, s)
         else let n = unr_symbols s in
           if n < length (unresolved s)
           then let e = unresolved s ! n in
             Some (current_position s,
               s\<lparr>unresolved := (unresolved s)[n := e\<lparr>position := current_position s,
                                                 sym_name := put_name (\<lambda>_. True) label (sym_name e)\<rparr>],
                 unr_symbols := n + 1\<rparr>)
           else None)"

section \<open>Numbers and operand classes\<close>

text \<open>\<^verbatim>\<open>while (s /= 2)\<close>: the division truncates, so it halves the absolute value.\<close>

fun log2_loop :: "nat \<Rightarrow> nat" where
  "log2_loop n = (if n div 2 = 0 then 0 else Suc (log2_loop (n div 2)))"

declare log2_loop.simps [simp del]

definition log2 :: "u32 \<Rightarrow> u32" where
  "log2 s = of_nat (log2_loop (nat \<bar>sint s\<bar>))"

definition ishex :: "u8 \<Rightarrow> bool" where
  "ishex c \<longleftrightarrow> tolower c \<le> 102 \<and> tolower c \<ge> 48"

definition atoi_step :: "u64 \<Rightarrow> u64 \<Rightarrow> u8 \<Rightarrow> u64" where
  "atoi_step base num c =
    (if isdigit c then num * base + of_int (sint c - 48)
     else if ishex c then num * base + of_int (tolower c - 97) + 10
     else num)"

definition lass_atoi :: "cstr \<Rightarrow> u64" where
  "lass_atoi s =
    (let (base, s) = (case libc_strpbrk s (asc ''x'') of Some d \<Rightarrow> (16, drop (d + 1) s) | None \<Rightarrow> (10, s));
         sign = (if deref s = 45 then - 1 else 1)
     in sign * foldl (atoi_step base) 0 (take (libc_strlen s) s))"

definition lookup_name :: "syntax_row list \<Rightarrow> cstr \<Rightarrow> u32 option" where
  "lookup_name tab s = map_option syn_code (find (\<lambda>r. libc_strcmp (asc (syn_name r)) s = 0) tab)"

text \<open>\<^verbatim>\<open>abs\<close> is used undeclared: its result is compared as an \<^verbatim>\<open>int\<close>.\<close>

definition classify :: "cstr \<Rightarrow> u32" where
  "classify s =
    (if isdigit (deref s)
     then if 255 <s libc_abs (ucast (lass_atoi s)) then imm32 else imm8
     else case lookup_name registers s of
       Some c \<Rightarrow> c OR r32
     | None \<Rightarrow> (case lookup_name half s of
         Some c \<Rightarrow> c OR r8
       | None \<Rightarrow> (case lookup_name segments s of
           Some c \<Rightarrow> c OR sreg
         | None \<Rightarrow> - 1)))"

section \<open>Looking an instruction up\<close>

definition match_first :: "u32 \<Rightarrow> u32 \<Rightarrow> isa \<Rightarrow> bool" where
  "match_first op1 op2 r \<longleftrightarrow>
    (if op1 AND sreg \<noteq> 0
     then isa_op1 r = op1 \<and> (isa_op2 r = op2 \<or> isa_op2 r = none)
     else isa_op1 r AND op1 = isa_op1 r \<and> (isa_op2 r = op2 \<or> isa_op2 r = none) \<or>
          isa_op1 r = none \<and> isa_op2 r = none)"

definition match_second :: "u32 \<Rightarrow> u32 \<Rightarrow> isa \<Rightarrow> bool" where
  "match_second op1 op2 r \<longleftrightarrow>
    isa_op1 r AND op1 = isa_op1 r \<and>
    (isa_op2 r AND (if op2 AND (imm8 OR rel8) \<noteq> 0 then 0x6C0 else op2) \<noteq> 0 \<or> isa_op2 r = none)"

definition find_instruction :: "cstr \<Rightarrow> u32 \<Rightarrow> u32 \<Rightarrow> isa option" where
  "find_instruction s op1 op2 =
    (case find (\<lambda>r. libc_strcmp (asc (isa_name r)) s = 0 \<and> match_first op1 op2 r) x86 of
       Some r \<Rightarrow> Some r
     | None \<Rightarrow> find (\<lambda>r. libc_strcmp (asc (isa_name r)) s = 0 \<and> match_second op1 op2 r) x86)"

section \<open>Addressing modes\<close>

record instruction_s =
  in_prefix :: u32
  operand :: u32
  modrm :: u32
  in_sib :: u32
  in_disp :: u32

text \<open>The lookup of the register operand when the memory operand comes first.\<close>

definition sib_operand :: "cstr \<Rightarrow> u32 \<Rightarrow> u32 \<times> u32" where
  "sib_operand line op1 =
    (if op1 = 0
     then case libc_strchr line 44 of
         Some k \<Rightarrow>
           let op = dropWhile (\<lambda>c. c = 32 \<or> c = 44) (drop k line);
               op1 = classify op
           in (op1, if op1 AND (imm8 OR imm32) \<noteq> 0 then ucast (lass_atoi op) else 0)
       | None \<Rightarrow> (op1, 0)
     else (op1, 0))"

text \<open>
  The token loop without a scale: the loop variables are \<^verbatim>\<open>c\<close>, \<^verbatim>\<open>index\<close>, \<^verbatim>\<open>base\<close> and \<^verbatim>\<open>disp\<close>.
\<close>

fun disp_loop :: "cstr list \<Rightarrow> nat \<Rightarrow> u32 \<Rightarrow> u32 \<Rightarrow> u32 \<Rightarrow> u32 \<times> u32 \<times> u32" where
  "disp_loop [] c index base disp = (index, base, disp)"
| "disp_loop (pch # ts) c index base disp =
    (if isdigit (deref pch) then disp_loop ts c index base (ucast (lass_atoi pch))
     else disp_loop ts (c + 1)
       (if c = 0 then classify pch AND NOT (rm32 OR rm8) else index)
       (if c = 1 then classify pch else base) disp)"

text \<open>Comparison of two pointers into the line, either of which may be \<^verbatim>\<open>NULL\<close>.\<close>

fun ptr_less :: "nat option \<Rightarrow> nat option \<Rightarrow> bool" where
  "ptr_less _ None = False"
| "ptr_less None (Some _) = True"
| "ptr_less (Some i) (Some j) = (i < j)"

fun sib_loop :: "nat option \<Rightarrow> nat option \<Rightarrow> (nat \<times> cstr) list \<Rightarrow> nat \<Rightarrow> u32 \<Rightarrow> u32 \<Rightarrow> u32 \<Rightarrow> u32 \<Rightarrow>
    u32 \<times> u32 \<times> u32 \<times> u32" where
  "sib_loop pls str [] c scale index base disp = (scale, index, base, disp)"
| "sib_loop pls str ((i, pch) # ts) c scale index base disp =
    (if isdigit (deref pch)
     then let n = ucast (lass_atoi pch) in
       sib_loop pls str ts c
         (if ptr_less pls str \<and> ptr_less pls (Some i) then n else scale) index base
         (if ptr_less pls str \<and> ptr_less (Some i) pls then n else disp)
     else sib_loop pls str ts (c + 1) scale
       (if c = 0 then classify pch else index)
       (if c = 1 then classify pch else base) disp)"

definition calc_sib :: "cstr \<Rightarrow> u32 \<Rightarrow> instruction_s" where
  "calc_sib line op1 =
    (let pls = libc_strchr line 43; mns = libc_strchr line 45; str = libc_strchr line 42;
         ret = \<lparr>in_prefix = 0, operand = 0, modrm = 0, in_sib = 0, in_disp = 0\<rparr>;
         (op1, disp) = sib_operand line op1
     in if str = None
     then let ts = (case libc_strtok (Some (0, line)) (asc '' [+-],'') None of
                      (Some t, ptr) \<Rightarrow> t # libc_tokens (asc '' [+-],*'') ptr | (None, _) \<Rightarrow> []);
              (index, base, disp) = disp_loop (map snd ts) 0 (- 1) (- 1) disp;
              reg = op1 AND NOT (r8 OR r32)
       in if disp \<noteq> 0
       then let disp = disp * (if mns \<noteq> None then - 1 else 1) in
         ret\<lparr>modrm := MODRM (if 255 <s disp then MOD_FOUR else MOD_ONE) reg index, in_disp := disp\<rparr>
       else ret\<lparr>modrm := MODRM (if index = EBP then MOD_ONE else MOD_ZERO) reg index, in_disp := 0\<rparr>
     else let (scale, index, base, disp) =
                sib_loop pls str (libc_tokens (asc '' [+],*'') (Some (0, line))) 0 (- 1) (- 1) (- 1) disp;
              (md, index, base) =
                (if index \<noteq> 0 \<and> base \<noteq> 0
                 then (if index AND r32 \<noteq> 0 then 2 else 1, index AND NOT (r8 OR r32), base AND NOT (r8 OR r32))
                 else (0, index, base));
              (md, base) = (if base = - 1 then (0, 5) else (md, base))
       in ret\<lparr>modrm := MODRM md op1 4, in_sib := MODRM (log2 scale) index base, in_disp := disp\<rparr>)"

section \<open>One line\<close>

text \<open>The data directives.  \<^verbatim>\<open>db\<close> also takes strings, the other two skip what is not a number.\<close>

fun write_chars :: "cstr \<Rightarrow> lass \<Rightarrow> lass option" where
  "write_chars [] s = Some s"
| "write_chars (c # l) s = do { s \<leftarrow> write_byte (scast c) s; write_chars l s }"

fun db_loop :: "cstr list \<Rightarrow> lass \<Rightarrow> lass option" where
  "db_loop [] s = Some s"
| "db_loop (pch # ts) s = do {
     s \<leftarrow> (if isdigit (deref pch) then write_byte (ucast (lass_atoi pch)) s else write_chars pch s);
     db_loop ts s }"

fun dn_loop :: "(u32 \<Rightarrow> lass \<Rightarrow> lass option) \<Rightarrow> cstr list \<Rightarrow> lass \<Rightarrow> lass option" where
  "dn_loop write [] s = Some s"
| "dn_loop write (pch # ts) s = do {
     s \<leftarrow> (if isdigit (deref pch) then write (ucast (lass_atoi pch)) s else Some s);
     dn_loop write ts s }"

text \<open>The local variables of \<^verbatim>\<open>parse_line\<close>.\<close>

record line_vars =
  syn0 :: u32
  syn1 :: u32
  cnt :: nat
  immediate :: u32
  imm :: bool
  mode :: u32
  lm :: u32
  rev_flag :: bool
  sib :: u32
  inst :: "cstr option"

definition line_start :: line_vars where
  "line_start = \<lparr>syn0 = 0, syn1 = 0, cnt = 0, immediate = 0, imm = False, mode = MOD_REG, lm = - 1,
     rev_flag = False, sib = 0, inst = None\<rparr>"

text \<open>A memory operand ends the loop over the tokens.\<close>

definition mem_operand :: "cstr \<Rightarrow> line_vars \<Rightarrow> line_vars" where
  "mem_operand displacement v =
    (let a = calc_sib displacement (syn0 v);
         m = modrm a;
         v = v\<lparr>lm := m, sib := in_sib a, immediate := in_disp a, mode := drop_bit 6 m, imm := True,
               syn1 := syn1 v OR r32\<rparr>
     in if syn0 v = 0 then v\<lparr>syn0 := (drop_bit 3 m AND 0x7) OR r32, rev_flag := True\<rparr> else v)"

text \<open>Any other operand; a third one is stored outside the array.\<close>

definition plain_operand :: "cstr \<Rightarrow> line_vars \<Rightarrow> lass \<Rightarrow> (line_vars \<times> lass) option" where
  "plain_operand pch v s =
    (let n = classify pch;
         v = (if n AND (imm8 OR imm32) \<noteq> 0 then v\<lparr>imm := True, immediate := ucast (lass_atoi pch)\<rparr> else v)
     in do {
       (n, v, s) \<leftarrow> (if n = - 1
         then do { (x, s) \<leftarrow> find_symbol pch s; Some (rel8, v\<lparr>immediate := x, imm := True\<rparr>, s) }
         else Some (n, v, s));
       if cnt v = 1 then Some (v\<lparr>syn0 := n\<rparr>, s)
       else if cnt v = 2 then Some (v\<lparr>syn1 := n\<rparr>, s)
       else None })"

fun parse_tokens :: "nat option \<Rightarrow> cstr \<Rightarrow> (nat \<times> cstr) list \<Rightarrow> line_vars \<Rightarrow> lass \<Rightarrow> (line_vars \<times> lass) option" where
  "parse_tokens disp displacement [] v s = Some (v, s)"
| "parse_tokens disp displacement ((i, pch) # ts) v s =
    (if deref pch = 59 then Some (v, s)
     else if disp = Some i then Some (mem_operand displacement v, s)
     else do {
       (v, s) \<leftarrow> (if cnt v = 0 then Some (v\<lparr>inst := Some (pch @ heap_tail s)\<rparr>, s) else plain_operand pch v s);
       parse_tokens disp displacement ts (v\<lparr>cnt := cnt v + 1\<rparr>) s })"

text \<open>
  The Mod/RM byte of a two-operand instruction.  \<^verbatim>\<open>MODRM\<close> is a macro whose parameters are not
  bracketed: in \<^verbatim>\<open>MODRM(mode, syn[0] &= ~c, ...)\<close> the mask \<^verbatim>\<open>& 0x7\<close> belongs to the right-hand side
  of the assignment.
\<close>

definition two_modrm :: "isa \<Rightarrow> line_vars \<Rightarrow> line_vars" where
  "two_modrm r v =
    (let regs = r32 OR r8 OR sreg; imms = imm8 OR imm32 OR rel8 OR rel32;
         v = (if syn0 v AND regs \<noteq> 0 \<and> syn1 v AND regs \<noteq> 0
              then if lm v = - 1
                then let a = syn0 v AND (NOT regs AND 0x7); b = syn1 v AND (NOT regs AND 0x7) in
                  v\<lparr>syn0 := a, syn1 := b, lm := MODRM (mode v) a b\<rparr>
                else v
              else if syn0 v AND (r32 OR r8) \<noteq> 0 \<and> syn1 v AND imms \<noteq> 0
              then if lm v = - 1
                then let a = syn0 v AND (NOT (r32 OR r8) AND 0x7) in
                  v\<lparr>syn0 := a, lm := MODRM (mode v) (extension r) a\<rparr>
                else v
              else v)
     in if syn0 v AND imms \<noteq> 0 then v\<lparr>lm := MODRM (mode v) (extension r) 0\<rparr> else v)"

definition emit_two :: "isa \<Rightarrow> line_vars \<Rightarrow> lass \<Rightarrow> lass option" where
  "emit_two r v s =
    (let o1 = (if rev_flag v then primary r XOR 0x2 else primary r);
         v = two_modrm r v
     in if extension r = 0xDEAD then write_byte ((o1 AND NOT 0x7) OR (syn0 v AND NOT (r32 OR r8))) s
        else write_word (push_bit 8 (lm v) OR o1) s)"

definition emit_one :: "isa \<Rightarrow> line_vars \<Rightarrow> lass \<Rightarrow> lass option" where
  "emit_one r v s =
    (let o1 = primary r in
     if extension r = 0xDEAD \<and> lm v = - 1
     then write_byte ((o1 AND NOT 0x7) OR (syn0 v AND NOT (r32 OR r8 OR sreg))) s
     else if syn0 v = 0 then write_byte o1 s
     else if syn0 v AND 0x6C0 \<noteq> 0 \<or> syn0 v AND sreg \<noteq> 0 then write_byte o1 s
     else if syn0 v \<noteq> none
     then let m = (if lm v = - 1 then MODRM (mode v) (extension r) (syn0 v AND NOT (r32 OR r8 OR sreg)) else lm v) in
       write_word (push_bit 8 m OR o1) s
     else Some s)"

definition emit_imm :: "isa \<Rightarrow> u32 \<Rightarrow> line_vars \<Rightarrow> lass \<Rightarrow> lass option" where
  "emit_imm r start v s =
    (let sw = (if isa_op2 r = none then isa_op1 r else isa_op2 r);
         rel = immediate v - current_position s - (current_position s - start) - elf_offset s
     in if sw = imm8 then write_byte (immediate v AND 0xFF) s
        else if sw = imm32 then write_dword (immediate v) s
        else if sw = rel8 then write_byte rel s
        else if sw = rel32 then write_dword rel s
        else if mode v = 1 then write_byte (immediate v) s
        else write_dword (immediate v) s)"

definition emit :: "isa \<Rightarrow> line_vars \<Rightarrow> lass \<Rightarrow> lass option" where
  "emit r v s =
    (let start = current_position s in do {
       s \<leftarrow> (if secondary r \<noteq> 0 then write_byte (secondary r) s else Some s);
       s \<leftarrow> (if isa_prefix r \<noteq> 0 then write_byte 0x0F s else Some s);
       s \<leftarrow> (if syn1 v \<noteq> 0 then emit_two r v s else emit_one r v s);
       s \<leftarrow> (if sib v \<noteq> 0 then write_byte (sib v) s else Some s);
       if imm v then emit_imm r start v s else Some s })"

definition encode_line :: "line_vars \<Rightarrow> lass \<Rightarrow> lass option" where
  "encode_line v s =
    (case inst v of
       None \<Rightarrow> None
     | Some i \<Rightarrow> (case find_instruction i (syn0 v) (syn1 v) of
         Some r \<Rightarrow> emit r v s
       | None \<Rightarrow> Some s))"

text \<open>\<open>pass_no\<close> only decides whether the line is printed.\<close>

definition parse_line :: "cstr \<Rightarrow> nat \<Rightarrow> lass \<Rightarrow> lass option" where
  "parse_line line pass_no s =
    (let disp = libc_strpbrk line (asc ''['');
         displacement = (case disp of Some d \<Rightarrow> drop d line | None \<Rightarrow> [])
     in case libc_strtok (Some (0, line)) (asc '' ,'' @ [9]) None of
       (None, _) \<Rightarrow> None
     | (Some pch, ptr) \<Rightarrow>
         let data = map snd (libc_tokens (asc '', '' @ [39, 34]) ptr) in
         if libc_strcmp (snd pch) (asc ''db'') = 0 then db_loop data s
         else if libc_strcmp (snd pch) (asc ''dw'') = 0 then dn_loop write_word data s
         else if libc_strcmp (snd pch) (asc ''dd'') = 0 then dn_loop write_dword data s
         else do {
           (v, s) \<leftarrow> parse_tokens disp displacement (pch # libc_tokens (asc '' ,'' @ [9]) ptr) line_start s;
           encode_line v s })"

section \<open>A pass over the source\<close>

text \<open>
  Line \<open>i\<close> of a buffer whose line ends have been overwritten; the byte behind the buffer counts as a
  terminator.
\<close>

definition line_at :: "u8 list \<Rightarrow> nat \<Rightarrow> nat \<Rightarrow> cstr" where
  "line_at buffer sz i =
    takeWhile (\<lambda>c. c \<noteq> 0) (drop i (map (\<lambda>c. if c = 10 then 0 else c) (take sz buffer) @ drop sz buffer))"

text \<open>
  The entries of the line array: each line end stores the start of the line behind it, the first one
  over the start of the buffer.
\<close>

definition line_starts :: "u8 list \<Rightarrow> nat \<Rightarrow> nat list" where
  "line_starts buffer sz =
    (case [i + 1. i \<leftarrow> [0..<sz], i < length buffer \<and> buffer ! i = 10 \<and> deref (drop (i + 1) buffer) \<noteq> 0] of
       [] \<Rightarrow> [0]
     | is \<Rightarrow> is)"

definition pass_line :: "nat \<Rightarrow> cstr \<Rightarrow> lass \<Rightarrow> lass option" where
  "pass_line pass_no line s =
    (if deref line \<noteq> 59 \<and> deref line \<noteq> 0
     then case libc_strchr line 58 of
         Some c \<Rightarrow> if pass_no = 1 then add_symbol (take c line) s else Some s
       | None \<Rightarrow> parse_line line pass_no s
     else Some s)"

fun pass_lines :: "nat \<Rightarrow> cstr list \<Rightarrow> lass \<Rightarrow> lass option" where
  "pass_lines pass_no [] s = Some s"
| "pass_lines pass_no (l # ls) s = do { s \<leftarrow> pass_line pass_no l s; pass_lines pass_no ls s }"

text \<open>
  The array is not cleared: \<open>stale\<close> are the lines that pointers left behind the last entry refer to,
  up to the first null pointer.  An array that fills its \<^verbatim>\<open>sz\<close> bytes has no end.
\<close>

definition pass :: "cstr list \<Rightarrow> u8 list \<Rightarrow> nat \<Rightarrow> nat \<Rightarrow> lass \<Rightarrow> lass option" where
  "pass stale buffer sz pass_no s =
    (let is = line_starts buffer sz in
     if 4 * (length is + 1) \<le> sz then pass_lines pass_no (map (line_at buffer sz) is @ stale) s else None)"

text \<open>
  \<^verbatim>\<open>main\<close> on the bytes of the opened file; \<open>fresh\<close> is what the allocated output buffer holds.  The second
  component of the result is the page at \<^verbatim>\<open>ORG\<close>, where the code is copied to.
\<close>

definition overlay :: "u8 list \<Rightarrow> u8 list \<Rightarrow> u8 list" where
  "overlay xs page = xs @ drop (length xs) page"

definition main :: "u8 list \<Rightarrow> u8 list \<Rightarrow> cstr list \<Rightarrow> cstr list \<Rightarrow> lass \<Rightarrow> (lass \<times> u8 list) option" where
  "main file fresh stale1 stale2 s =
    (let sz = 129; buff2 = take sz file; s = s\<lparr>output_buf := take sz fresh\<rparr> in do {
       s \<leftarrow> pass stale1 file sz 1 s;
       s \<leftarrow> Some (s\<lparr>program_length := current_position s, current_position := 0\<rparr>);
       s \<leftarrow> pass stale2 buff2 sz 2 s;
       page \<leftarrow> Some (replicate 0x1000 0);
       page \<leftarrow> Some (overlay (take (unat (elf_offset s)) (elf_output s)) page);
       page \<leftarrow> Some (overlay (take (unat (program_length s)) (output_buf s)) page);
       (entry, s) \<leftarrow> find_symbol (asc ''main'') s;
       Some (s, page) })"

section \<open>The bytes of an instruction\<close>

text \<open>
  Reference for the emission functions: the bytes of an instruction as a function of the table row and
  the parsed operands, and appending them to the output.
\<close>

definition append_bytes :: "u8 list \<Rightarrow> lass \<Rightarrow> lass option" where
  "append_bytes bs s =
    (let p = unat (current_position s); out = output_buf s in
     if p + length bs \<le> length out
     then Some (s\<lparr>output_buf := take p out @ bs @ drop (p + length bs) out,
                  current_position := current_position s + of_nat (length bs)\<rparr>)
     else None)"

definition le16 :: "u32 \<Rightarrow> u8 list" where
  "le16 x = [ucast x, ucast (drop_bit 8 x)]"

lemma ucast_mask8 [simp]: "ucast (x AND 0xFF :: u32) = (ucast x :: u8)"
proof -
  have m: "(0xFF :: u32) = mask 8" by (simp add: mask_eq_exp_minus_1)
  show ?thesis unfolding m by (rule bit_word_eqI) (auto simp: bit_simps)
qed

definition small :: "lass \<Rightarrow> bool" where
  "small s \<longleftrightarrow> unat (current_position s) \<le> length (output_buf s) \<and> length (output_buf s) < 2 ^ 32"

lemma small_pos:
  "small s \<Longrightarrow> unat (current_position s) + n \<le> length (output_buf s) \<Longrightarrow>
    unat (current_position s + of_nat n) = unat (current_position s) + n"
  by (simp add: unat_word_ariths unat_of_nat small_def)

lemma small_append: "append_bytes bs s = Some s' \<Longrightarrow> small s \<Longrightarrow> small s'"
  using small_pos [of s "length bs"] by (auto simp: append_bytes_def small_def Let_def split: if_splits)

lemma append_append:
  assumes "small s"
  shows "append_bytes (bs @ ys) s = append_bytes bs s \<bind> append_bytes ys"
proof (cases "unat (current_position s) + length bs \<le> length (output_buf s)")
  case True
  note u = small_pos [OF assms this]
  have m: "min (length (output_buf s)) (unat (current_position s)) = unat (current_position s)" using True by simp
  show ?thesis
    using True by (auto simp: append_bytes_def Let_def u m take_append drop_append ac_simps)
qed (simp add: append_bytes_def Let_def)

lemma put_byte_append: "put_byte x s = append_bytes [ucast x] s"
  by (auto simp: put_byte_def append_bytes_def Let_def upd_conv_take_nth_drop)

lemma append_Nil [simp]: "small s \<Longrightarrow> append_bytes [] s = Some s"
  by (simp add: append_bytes_def small_def Let_def)

lemma write_byte_append: "write_byte x s = append_bytes [ucast x] s"
  by (simp add: write_byte_def put_byte_append)

lemma write_word_append: "small s \<Longrightarrow> write_word x s = append_bytes (le16 x) s"
  using append_append [of s "[ucast x]" "[ucast (drop_bit 8 x)]"]
  by (simp add: write_word_def put_byte_append le16_def)

lemma write_dword_append: "small s \<Longrightarrow> write_dword x s = append_bytes (le32 x) s"
  using append_append [of s "[ucast x]" "[ucast (drop_bit 8 x), ucast (drop_bit 16 x), ucast (drop_bit 24 x)]"]
    append_append [of _ "[ucast (drop_bit 8 x)]" "[ucast (drop_bit 16 x), ucast (drop_bit 24 x)]"]
    append_append [of _ "[ucast (drop_bit 16 x)]" "[ucast (drop_bit 24 x)]"] small_append
  apply (simp add: write_dword_def put_byte_append le32_def)
  apply (cases "append_bytes [ucast x] s"; simp)
  apply (rename_tac a; case_tac "append_bytes [ucast (drop_bit 8 x)] a"; simp)
  done

lemma append_pos: "append_bytes bs s = Some s' \<Longrightarrow> current_position s' = current_position s + of_nat (length bs)"
  by (auto simp: append_bytes_def Let_def split: if_splits)

lemma append_keeps:
  assumes "append_bytes bs s = Some s'"
  shows "elf_offset s' = elf_offset s" "heap_tail s' = heap_tail s" "symtab s' = symtab s"
    "num_symbols s' = num_symbols s" "length (output_buf s') = length (output_buf s)"
  using assms by (auto simp: append_bytes_def Let_def split: if_splits)

definition prefix_bytes :: "isa \<Rightarrow> u8 list" where
  "prefix_bytes r = (if secondary r \<noteq> 0 then [ucast (secondary r)] else []) @ (if isa_prefix r \<noteq> 0 then [0x0F] else [])"

definition two_bytes :: "isa \<Rightarrow> line_vars \<Rightarrow> u8 list" where
  "two_bytes r v =
    (let o1 = (if rev_flag v then primary r XOR 0x2 else primary r); v = two_modrm r v in
     if extension r = 0xDEAD then [ucast ((o1 AND NOT 0x7) OR (syn0 v AND NOT (r32 OR r8)))]
     else le16 (push_bit 8 (lm v) OR o1))"

definition one_bytes :: "isa \<Rightarrow> line_vars \<Rightarrow> u8 list" where
  "one_bytes r v =
    (if extension r = 0xDEAD \<and> lm v = - 1 then [ucast ((primary r AND NOT 0x7) OR (syn0 v AND NOT (r32 OR r8 OR sreg)))]
     else if syn0 v = 0 \<or> syn0 v AND 0x6C0 \<noteq> 0 \<or> syn0 v AND sreg \<noteq> 0 then [ucast (primary r)]
     else le16 (push_bit 8 (if lm v = - 1 then MODRM (mode v) (extension r) (syn0 v AND NOT (r32 OR r8 OR sreg)) else lm v)
                OR primary r))"

definition imm_bytes :: "isa \<Rightarrow> u32 \<Rightarrow> line_vars \<Rightarrow> u8 list" where
  "imm_bytes r rel v =
    (let sw = (if isa_op2 r = none then isa_op1 r else isa_op2 r) in
     if sw = imm8 then [ucast (immediate v)]
     else if sw = imm32 then le32 (immediate v)
     else if sw = rel8 then [ucast rel]
     else if sw = rel32 then le32 rel
     else if mode v = 1 then [ucast (immediate v)] else le32 (immediate v))"

text \<open>\<open>eo\<close> is \<^verbatim>\<open>elf_offset\<close>; a displacement is relative to \<open>start\<close>, the position of the instruction.\<close>

definition encoding :: "isa \<Rightarrow> line_vars \<Rightarrow> u32 \<Rightarrow> u32 \<Rightarrow> u8 list" where
  "encoding r v start eo =
    (let code = prefix_bytes r @ (if syn1 v \<noteq> 0 then two_bytes r v else one_bytes r v) @ (if sib v \<noteq> 0 then [ucast (sib v)] else []);
         n = of_nat (length code)
     in code @ (if imm v then imm_bytes r (immediate v - (start + n) - n - eo) v else []))"

lemma emit_two_append: "small s \<Longrightarrow> emit_two r v s = append_bytes (two_bytes r v) s"
  by (simp add: emit_two_def two_bytes_def Let_def write_byte_append write_word_append)

lemma emit_one_append: "small s \<Longrightarrow> emit_one r v s = append_bytes (one_bytes r v) s"
  by (simp add: emit_one_def one_bytes_def Let_def write_byte_append write_word_append none_def)

lemma emit_imm_append:
  "small s \<Longrightarrow> emit_imm r start v s =
    append_bytes (imm_bytes r (immediate v - current_position s - (current_position s - start) - elf_offset s) v) s"
  by (simp add: emit_imm_def imm_bytes_def Let_def write_byte_append write_dword_append)

lemma bind_append:
  assumes "small s"
    and "\<And>t. small t \<Longrightarrow> current_position t = current_position s + of_nat (length bs) \<Longrightarrow> elf_offset t = elf_offset s \<Longrightarrow>
      f t = append_bytes ys t"
  shows "append_bytes bs s \<bind> f = append_bytes (bs @ ys) s"
  unfolding append_append [OF assms(1)]
  using assms(2) small_append [OF _ assms(1)] append_pos append_keeps(1)
  by (cases "append_bytes bs s") auto

lemma emit_append:
  assumes s: "small s"
  shows "emit r v s = append_bytes (encoding r v (current_position s) (elf_offset s)) s"
proof -
  let ?a = "if secondary r \<noteq> 0 then [ucast (secondary r)] else []" and ?b = "if isa_prefix r \<noteq> 0 then [ucast (0x0F :: u32)] else []"
    and ?c = "if syn1 v \<noteq> 0 then two_bytes r v else one_bytes r v" and ?d = "if sib v \<noteq> 0 then [ucast (sib v)] else []"
  have *: "(if b then write_byte x t else Some t) = append_bytes (if b then [ucast x] else []) t" if "small t" for b x t
    using that by (simp add: write_byte_append)
  show ?thesis
    unfolding emit_def Let_def
    apply (subst * [OF s])
    apply (subst bind_append [OF s, where ys = "?b @ ?c @ ?d @
      (if imm v then imm_bytes r (immediate v - (current_position s + of_nat (length (?a @ ?b @ ?c @ ?d))) - of_nat (length (?a @ ?b @ ?c @ ?d)) - elf_offset s) v else [])"])
     apply (subst *, assumption)
     apply (rule bind_append, assumption)
     apply (simp only: emit_two_append emit_one_append flip: if_distrib [of "\<lambda>b. append_bytes b _"])
     apply (rule bind_append, assumption)
     apply (subst *, assumption)
     apply (rule bind_append, assumption)
     apply (simp add: emit_imm_append algebra_simps)
    apply (simp add: encoding_def Let_def prefix_bytes_def)
    done
qed

section \<open>The two passes agree\<close>

text \<open>
  The passes see different symbol values, so the parsed operands of a line differ in the immediate only;
  the length of the encoding does not depend on it.
\<close>

definition same_but_imm :: "line_vars \<Rightarrow> line_vars \<Rightarrow> bool" where
  "same_but_imm v w \<longleftrightarrow> w = v\<lparr>immediate := immediate w\<rparr>"

lemma same_but_imm_refl [simp]: "same_but_imm v v"
  by (simp add: same_but_imm_def)

lemma same_fields:
  assumes "same_but_imm v w"
  shows "syn0 w = syn0 v" "syn1 w = syn1 v" "cnt w = cnt v" "imm w = imm v" "mode w = mode v" "lm w = lm v"
    "rev_flag w = rev_flag v" "sib w = sib v" "inst w = inst v"
  using assms unfolding same_but_imm_def by (metis line_vars.select_convs line_vars.surjective line_vars.update_convs(4))+

lemma same_upd:
  assumes "same_but_imm v w"
  shows "same_but_imm (v\<lparr>syn0 := a\<rparr>) (w\<lparr>syn0 := a\<rparr>)" "same_but_imm (v\<lparr>syn1 := a\<rparr>) (w\<lparr>syn1 := a\<rparr>)"
    "same_but_imm (v\<lparr>cnt := k\<rparr>) (w\<lparr>cnt := k\<rparr>)" "same_but_imm (v\<lparr>inst := i\<rparr>) (w\<lparr>inst := i\<rparr>)"
    "same_but_imm (v\<lparr>imm := b, immediate := x\<rparr>) (w\<lparr>imm := b, immediate := y\<rparr>)"
    "same_but_imm (v\<lparr>immediate := x, imm := b\<rparr>) (w\<lparr>immediate := y, imm := b\<rparr>)"
  using same_fields [OF assms] by (auto simp: same_but_imm_def intro!: line_vars.equality)

lemma same_two_modrm:
  assumes "same_but_imm v w"
  shows "lm (two_modrm r w) = lm (two_modrm r v)" "syn0 (two_modrm r w) = syn0 (two_modrm r v)"
  by (simp_all add: two_modrm_def Let_def same_fields [OF assms])

lemma le_length [simp]: "length (le16 x) = 2" "length (le32 x) = 4"
  by (simp_all add: le16_def le32_def)

lemma same_imm_length: "same_but_imm v w \<Longrightarrow> length (imm_bytes r x w) = length (imm_bytes r y v)"
  by (simp add: imm_bytes_def Let_def same_fields)

lemma same_length:
  assumes "same_but_imm v w"
  shows "length (encoding r w p e) = length (encoding r v q f)"
  by (simp add: encoding_def Let_def same_fields [OF assms] two_bytes_def one_bytes_def same_two_modrm [OF assms]
      same_imm_length [OF assms])

definition same_place :: "lass \<Rightarrow> lass \<Rightarrow> bool" where
  "same_place s t \<longleftrightarrow> current_position t = current_position s \<and> heap_tail t = heap_tail s \<and>
    length (output_buf t) = length (output_buf s)"

lemma find_symbol_place: "find_symbol l s = Some (x, s') \<Longrightarrow> same_place s s'"
  by (auto simp: find_symbol_def same_place_def Let_def split: option.splits if_splits)

lemma find_symbol_out: "find_symbol l s = Some (x, s') \<Longrightarrow> output_buf s' = output_buf s \<and> elf_offset s' = elf_offset s"
  by (auto simp: find_symbol_def Let_def split: option.splits if_splits)

lemma plain_operand_place: "plain_operand p v s = Some (v', s') \<Longrightarrow> same_place s s'"
  by (auto simp: plain_operand_def Let_def bind_eq_Some_conv same_place_def split: if_splits
      dest!: find_symbol_place)

lemma plain_operand_same:
  assumes "plain_operand p v s = Some (v', s')" "plain_operand p w t = Some (w', t')" "same_but_imm v w"
  shows "same_but_imm v' w'"
  using assms(1,2) same_fields [OF assms(3)] assms(3)
  by (auto simp: plain_operand_def Let_def bind_eq_Some_conv same_upd split: if_splits)

lemma mem_operand_same: "same_but_imm v w \<Longrightarrow> same_but_imm (mem_operand d v) (mem_operand d w)"
  using same_fields [of v w] by (auto simp: mem_operand_def Let_def same_but_imm_def intro!: line_vars.equality)

lemma parse_tokens_place: "parse_tokens d dp ts v s = Some (v', s') \<Longrightarrow> same_place s s'"
proof (induction ts arbitrary: v s)
  case (Cons a ts)
  obtain i pch where a: "a = (i, pch)" by force
  show ?case
  proof (cases "deref pch = 59 \<or> d = Some i")
    case True
    then show ?thesis using Cons.prems by (auto simp: a same_place_def split: if_splits)
  next
    case False
    with Cons.prems obtain v1 s1 where
      1: "(if cnt v = 0 then Some (v\<lparr>inst := Some (pch @ heap_tail s)\<rparr>, s) else plain_operand pch v s) = Some (v1, s1)"
         "parse_tokens d dp ts (v1\<lparr>cnt := cnt v1 + 1\<rparr>) s1 = Some (v', s')"
      by (auto simp: a bind_eq_Some_conv)
    have "same_place s s1" using 1(1) plain_operand_place by (auto simp: same_place_def split: if_splits)
    then show ?thesis using Cons.IH [OF 1(2)] by (simp add: same_place_def)
  qed
qed (simp add: same_place_def)

lemma parse_tokens_same:
  assumes "parse_tokens d dp ts v s = Some (v', s')" "parse_tokens d dp ts w t = Some (w', t')"
    and "same_but_imm v w" "heap_tail t = heap_tail s"
  shows "same_but_imm v' w'"
  using assms
proof (induction ts arbitrary: v s w t)
  case (Cons a ts)
  obtain i pch where a: "a = (i, pch)" by force
  note f = same_fields [OF Cons.prems(3)]
  show ?case
  proof (cases "deref pch = 59 \<or> d = Some i")
    case True
    then show ?thesis using Cons.prems by (auto simp: a mem_operand_same split: if_splits)
  next
    case False
    with Cons.prems(1,2) obtain v1 s1 w1 t1 where
      1: "(if cnt v = 0 then Some (v\<lparr>inst := Some (pch @ heap_tail s)\<rparr>, s) else plain_operand pch v s) = Some (v1, s1)"
         "parse_tokens d dp ts (v1\<lparr>cnt := cnt v1 + 1\<rparr>) s1 = Some (v', s')" and
      2: "(if cnt w = 0 then Some (w\<lparr>inst := Some (pch @ heap_tail t)\<rparr>, t) else plain_operand pch w t) = Some (w1, t1)"
         "parse_tokens d dp ts (w1\<lparr>cnt := cnt w1 + 1\<rparr>) t1 = Some (w', t')"
      by (auto simp: a bind_eq_Some_conv)
    have vw: "same_but_imm v1 w1"
      using 1(1) 2(1) Cons.prems(3,4) f plain_operand_same [of pch v s v1 s1 w t w1 t1] by (auto simp: same_upd split: if_splits)
    have ht: "heap_tail s1 = heap_tail s" "heap_tail t1 = heap_tail t"
      using 1(1) 2(1) plain_operand_place [of pch v s v1 s1] plain_operand_place [of pch w t w1 t1]
      by (auto simp: same_place_def split: if_splits)
    have "same_but_imm (v1\<lparr>cnt := cnt v1 + 1\<rparr>) (w1\<lparr>cnt := cnt w1 + 1\<rparr>)"
      by (simp only: same_fields(3) [OF vw] same_upd(3) [OF vw])
    then show ?thesis by (rule Cons.IH [OF 1(2) 2(2)]) (simp add: ht Cons.prems(4))
  qed
qed simp

lemma encode_line_length:
  assumes "small s" "small t" "encode_line v s = Some s'" "encode_line w t = Some t'" "same_but_imm v w"
  shows "current_position s' - current_position s = current_position t' - current_position t"
  using assms(1-4) same_fields [OF assms(5)]
    same_length [OF assms(5), of _ "current_position t" "elf_offset t" "current_position s" "elf_offset s"]
  by (auto simp: encode_line_def emit_append split: option.splits dest!: append_pos)

lemma encode_line_keeps:
  assumes "small s" "encode_line v s = Some s'"
  shows "small s'" "heap_tail s' = heap_tail s" "length (output_buf s') = length (output_buf s)"
  using assms by (auto simp: encode_line_def emit_append split: option.splits dest: small_append append_keeps)

subsection \<open>Data directives\<close>

definition db_bytes :: "cstr \<Rightarrow> u8 list" where
  "db_bytes pch = (if isdigit (deref pch) then [ucast (lass_atoi pch)] else pch)"

definition dn_bytes :: "(u32 \<Rightarrow> u8 list) \<Rightarrow> cstr \<Rightarrow> u8 list" where
  "dn_bytes f pch = (if isdigit (deref pch) then f (ucast (lass_atoi pch)) else [])"

lemma ucast_scast_byte: "ucast (scast (c :: u8) :: u32) = c"
  by (rule bit_word_eqI) (simp add: bit_simps)

lemma ucast_ucast_u64: "ucast (ucast (x :: u64) :: u32) = (ucast x :: u8)"
  by (rule bit_word_eqI) (auto simp: bit_simps)

lemma write_chars_append: "small s \<Longrightarrow> write_chars l s = append_bytes l s"
proof (induction l arbitrary: s)
  case (Cons c l)
  show ?case
    using bind_append [OF Cons.prems, of "[c]" "write_chars l" l] Cons.IH
    by (simp add: write_byte_append ucast_scast_byte)
qed simp

lemma db_loop_append: "small s \<Longrightarrow> db_loop ts s = append_bytes (concat (map db_bytes ts)) s"
proof (induction ts arbitrary: s)
  case (Cons p ts)
  have "(if isdigit (deref p) then write_byte (ucast (lass_atoi p)) s else write_chars p s) = append_bytes (db_bytes p) s"
    using Cons.prems by (simp add: db_bytes_def write_chars_append write_byte_append ucast_ucast_u64)
  then show ?case using bind_append [OF Cons.prems, of "db_bytes p" "db_loop ts"] Cons.IH by simp
qed simp

lemma dn_loop_append:
  assumes "\<And>x s. small s \<Longrightarrow> write x s = append_bytes (f x) s" and "small s"
  shows "dn_loop write ts s = append_bytes (concat (map (dn_bytes f) ts)) s"
  using assms(2)
proof (induction ts arbitrary: s)
  case (Cons p ts)
  have "(if isdigit (deref p) then write (ucast (lass_atoi p)) s else Some s) = append_bytes (dn_bytes f p) s"
    using Cons.prems assms(1) by (simp add: dn_bytes_def)
  then show ?case using bind_append [OF Cons.prems, of "dn_bytes f p" "dn_loop write ts"] Cons.IH by simp
qed simp

subsection \<open>Lines\<close>

text \<open>What a line does: it appends the bytes of a directive, or parses its tokens and encodes them.\<close>

definition directive :: "cstr \<Rightarrow> u8 list option" where
  "directive line =
    (case libc_strtok (Some (0, line)) (asc '' ,'' @ [9]) None of
       (Some pch, ptr) \<Rightarrow>
         let data = map snd (libc_tokens (asc '', '' @ [39, 34]) ptr) in
         if libc_strcmp (snd pch) (asc ''db'') = 0 then Some (concat (map db_bytes data))
         else if libc_strcmp (snd pch) (asc ''dw'') = 0 then Some (concat (map (dn_bytes le16) data))
         else if libc_strcmp (snd pch) (asc ''dd'') = 0 then Some (concat (map (dn_bytes le32) data))
         else None
     | _ \<Rightarrow> None)"

lemma strtok_start: "libc_strtok (Some p) d ptr = libc_strtok None d (Some p)"
  by (simp add: libc_strtok_def)

lemma strtok_some: "\<exists>t ptr'. libc_strtok None d (Some p) = (Some t, ptr')"
  by (cases p) (simp add: libc_strtok_def Let_def split: option.splits)

lemma parse_line_cases:
  assumes "small s"
  shows "parse_line line n s = (case directive line of
     Some bs \<Rightarrow> append_bytes bs s
   | None \<Rightarrow> do {
       (v, s) \<leftarrow> parse_tokens (libc_strpbrk line (asc ''['')) (case libc_strpbrk line (asc ''['') of Some d \<Rightarrow> drop d line | None \<Rightarrow> [])
         (libc_tokens (asc '' ,'' @ [9]) (Some (0, line))) line_start s;
       encode_line v s })"
proof -
  obtain pch ptr where t: "libc_strtok None (asc '' ,'' @ [9]) (Some (0, line)) = (Some pch, ptr)"
    using strtok_some by blast
  have ts: "libc_tokens (asc '' ,'' @ [9]) (Some (0, line)) = pch # libc_tokens (asc '' ,'' @ [9]) ptr"
    by (subst libc_tokens.simps) (simp add: t)
  show ?thesis
    unfolding parse_line_def directive_def strtok_start t ts Let_def
    by (simp add: db_loop_append [OF assms] dn_loop_append [OF write_word_append assms] dn_loop_append [OF write_dword_append assms])
qed

lemma same_place_small: "same_place s t \<Longrightarrow> small t \<longleftrightarrow> small s"
  by (simp add: same_place_def small_def)

lemma parse_line_cases':
  assumes "small s" "parse_line line n s = Some s'"
  obtains (directive) bs where "directive line = Some bs" "append_bytes bs s = Some s'"
  | (code) v t where "directive line = None" "same_place s t" "encode_line v t = Some s'"
      "parse_tokens (libc_strpbrk line (asc ''['')) (case libc_strpbrk line (asc ''['') of Some d \<Rightarrow> drop d line | None \<Rightarrow> [])
         (libc_tokens (asc '' ,'' @ [9]) (Some (0, line))) line_start s = Some (v, t)"
proof (cases "directive line")
  case None
  with assms obtain v t where t: "parse_tokens (libc_strpbrk line (asc ''['')) (case libc_strpbrk line (asc ''['') of Some d \<Rightarrow> drop d line | None \<Rightarrow> [])
         (libc_tokens (asc '' ,'' @ [9]) (Some (0, line))) line_start s = Some (v, t)" "encode_line v t = Some s'"
    by (auto simp: parse_line_cases bind_eq_Some_conv)
  show thesis by (rule code [OF None parse_tokens_place [OF t(1)] t(2,1)])
next
  case (Some bs)
  then show thesis using assms directive by (simp add: parse_line_cases)
qed

lemma parse_line_step:
  assumes "small s" "parse_line line n s = Some s'"
  shows "small s' \<and> heap_tail s' = heap_tail s \<and> length (output_buf s') = length (output_buf s)"
  using assms
proof (cases rule: parse_line_cases')
  case (directive bs)
  then show ?thesis using small_append [OF directive(2) assms(1)] append_keeps [OF directive(2)] by simp
next
  case (code v t)
  then have "small t" using assms(1) by (simp add: same_place_small)
  then show ?thesis using encode_line_keeps [OF _ code(3)] code(2) by (simp add: same_place_def)
qed

lemma parse_line_same:
  assumes "small s" "small t" "heap_tail t = heap_tail s"
    and "parse_line line n s = Some s'" "parse_line line k t = Some t'"
  shows "current_position s' - current_position s = current_position t' - current_position t"
  using assms(1,4)
proof (cases rule: parse_line_cases')
  case (directive bs)
  then show ?thesis using assms(2,5) append_pos by (simp add: parse_line_cases)
next
  case 1: (code v s1)
  from assms(2,5) show ?thesis
  proof (cases rule: parse_line_cases')
    case 2: (code w t1)
    have "current_position s' - current_position s1 = current_position t' - current_position t1"
      by (rule encode_line_length [OF _ _ 1(3) 2(3) parse_tokens_same [OF 1(4) 2(4) same_but_imm_refl assms(3)]])
        (use 1(2) 2(2) assms(1,2) in \<open>simp_all add: same_place_small\<close>)
    then show ?thesis using 1(2) 2(2) by (simp add: same_place_def)
  qed (use 1(1) in simp)
qed

subsection \<open>Passes\<close>

lemma patch_word_length: "patch_word d i p out = Some out' \<Longrightarrow> length out' = length out"
  by (auto simp: patch_word_def split: if_splits)

lemma resolve_place: "resolve l i k s = Some s' \<Longrightarrow> same_place s s' \<and> symtab s' = symtab s \<and> num_symbols s' = num_symbols s"
proof (induction k arbitrary: i s)
  case (Suc k)
  show ?case
  proof (cases "libc_strncmp l (entry_name (unresolved s) i) (libc_strlen (entry_name (unresolved s) i)) = 0")
    case True
    with Suc.prems obtain o1 o2 where "patch_word (position (unresolved s ! i)) (position (unresolved s ! i)) (current_position s) (output_buf s) = Some o1"
      "patch_word (position (unresolved s ! i)) (position (unresolved s ! i) + 2) (current_position s) o1 = Some o2"
      "resolve l (i + 1) k (s\<lparr>output_buf := o2\<rparr>) = Some s'"
      by (auto simp: Let_def bind_eq_Some_conv)
    then show ?thesis using Suc.IH [of "i + 1" "s\<lparr>output_buf := o2\<rparr>"] by (simp add: same_place_def patch_word_length)
  next
    case False
    then show ?thesis using Suc.prems Suc.IH [of "i + 1" s] by (simp add: Let_def)
  qed
qed (simp add: same_place_def)

lemma add_symbol_place:
  assumes "add_symbol l s = Some s'"
  shows "same_place s s'" "num_symbols s' = Suc (num_symbols s)"
    "position (symtab s' ! num_symbols s) = current_position s"
  using assms by (auto simp: add_symbol_def Let_def bind_eq_Some_conv same_place_def split: if_splits dest!: resolve_place)

lemma pass_line_step:
  assumes "small s" "pass_line n l s = Some s'"
  shows "small s' \<and> heap_tail s' = heap_tail s"
  using assms parse_line_step [OF assms(1), of l n s'] add_symbol_place(1)
  by (auto simp: pass_line_def same_place_def small_def split: if_splits option.splits)

lemma pass_line_same:
  assumes "small s" "small t" "heap_tail t = heap_tail s" "current_position t = current_position s"
    and "pass_line 1 l s = Some s'" "pass_line 2 l t = Some t'"
  shows "current_position t' = current_position s'"
proof (cases "deref l \<noteq> 59 \<and> deref l \<noteq> 0 \<and> libc_strchr l 58 = None")
  case True
  then have "parse_line l 1 s = Some s'" "parse_line l 2 t = Some t'" using assms(5,6) by (simp_all add: pass_line_def)
  from parse_line_same [OF assms(1-3) this] assms(4) show ?thesis by simp
next
  case False
  then show ?thesis using assms(4-6) add_symbol_place(1)
    by (fastforce simp: pass_line_def same_place_def split: if_splits option.splits)
qed

lemma pass_lines_append: "pass_lines n (xs @ ys) s = pass_lines n xs s \<bind> pass_lines n ys"
  by (induction xs arbitrary: s) (auto split: bind_split)

lemma pass_lines_same:
  assumes "small s" "small t" "heap_tail t = heap_tail s" "current_position t = current_position s"
    and "pass_lines 1 ls s = Some s'" "pass_lines 2 ls t = Some t'"
  shows "current_position t' = current_position s'"
  using assms
proof (induction ls arbitrary: s t)
  case (Cons l ls)
  from Cons.prems(5,6) obtain s1 t1 where 1: "pass_line 1 l s = Some s1" "pass_lines 1 ls s1 = Some s'"
    "pass_line 2 l t = Some t1" "pass_lines 2 ls t1 = Some t'" by (auto simp: bind_eq_Some_conv)
  show ?case
    by (rule Cons.IH [OF _ _ _ _ 1(2,4)])
      (use pass_line_step [OF Cons.prems(1) 1(1)] pass_line_step [OF Cons.prems(2) 1(3)] Cons.prems(3)
        pass_line_same [OF Cons.prems(1-4) 1(1,3)] in auto)
qed simp

end
