(* ===== verification/Lass_Props.thy ===== *)
theory Lass_Props
  imports Lass "HOL-Library.Sublist"
begin

text \<open>
  What the assembler makes of whole source lines: the lookup of a mnemonic as a lookup among the table
  rows whose name it begins with, the operands of a line, and the bytes of selected instructions.
\<close>

section \<open>Strings of ordinary characters\<close>

definition plain :: "string \<Rightarrow> bool" where
  "plain s \<longleftrightarrow> CHR 0x00 \<notin> set s"

lemma plain_simps [simp]: "plain []" "plain (c # s) \<longleftrightarrow> c \<noteq> CHR 0x00 \<and> plain s" "plain (s @ t) \<longleftrightarrow> plain s \<and> plain t"
  by (auto simp: plain_def)

lemma asc_simps: "asc [] = []" "asc (c # s) = of_char c # asc s" "asc (s @ t) = asc s @ asc t"
  by (simp_all add: asc_def)

lemma unat_of_char: "unat (of_char c :: u8) = of_char c"
proof -
  have "(of_char c :: nat) < 2 ^ LENGTH(8)" by (simp add: nat_of_char_less_256)
  then have "unat (of_nat (of_char c) :: u8) = of_char c" by (simp add: unat_of_nat del: of_nat_of_char)
  then show ?thesis by (simp only: of_nat_of_char)
qed

lemma of_char_u8 [simp]: "(of_char c :: u8) = of_char d \<longleftrightarrow> c = d"
  by (metis of_char_eq_iff unat_of_char)

lemma of_char_u8_zero [simp]: "(of_char c :: u8) = 0 \<longleftrightarrow> c = CHR 0x00"
  using of_char_u8 [of c "CHR 0x00"] by simp

lemma nul_free_asc [simp]: "nul_free (asc s) \<longleftrightarrow> plain s"
  by (induction s) (auto simp: asc_simps)

lemma strcmp_asc:
  assumes "plain a" "plain b"
  shows "libc_strcmp (asc a) (asc b) = 0 \<longleftrightarrow> prefix a b"
proof -
  have "(\<exists>t. asc b = asc a @ t) \<longleftrightarrow> prefix a b"
  proof (induction a arbitrary: b)
    case (Cons c a)
    then show ?case by (cases b) (auto simp: asc_simps)
  qed (simp add: asc_simps)
  then show ?thesis using assms by (simp add: strcmp_prefix)
qed

section \<open>Rows of a mnemonic\<close>

lemma isa_make [simp]:
  "isa_name (isa.make n a b c d e f) = n" "isa_op1 (isa.make n a b c d e f) = a" "isa_op2 (isa.make n a b c d e f) = b"
  "primary (isa.make n a b c d e f) = c" "extension (isa.make n a b c d e f) = d"
  "secondary (isa.make n a b c d e f) = e" "isa_prefix (isa.make n a b c d e f) = f"
  by (simp_all add: isa.make_def)

text \<open>The rows not yet looked at stay untouched while the table is traversed.\<close>

lemma list_all_step: "list_all P xs = list_all P xs"
  by (rule refl)

lemma filter_step: "filter P xs = filter P xs"
  by (rule refl)

lemmas x86_rows = x86_1_def x86_2_def x86_3_def x86_4_def

lemma plain_names: "list_all (\<lambda>r. plain (isa_name r)) x86"
  unfolding x86_def list_all_append by (unfold x86_rows) (simp cong: list_all_step)

definition rows :: "string \<Rightarrow> isa list" where
  "rows m = filter (\<lambda>r. prefix (isa_name r) m) x86"

lemma find_filter: "find (\<lambda>x. P x \<and> Q x) xs = find Q (filter P xs)"
  by (induction xs) auto

lemma find_instruction_rows:
  assumes "plain m"
  shows "find_instruction (asc m) op1 op2 =
    (case find (match_first op1 op2) (rows m) of Some r \<Rightarrow> Some r | None \<Rightarrow> find (match_second op1 op2) (rows m))"
proof -
  have "filter (\<lambda>r. libc_strcmp (asc (isa_name r)) (asc m) = 0) x86 = rows m"
    unfolding rows_def by (rule filter_cong) (use plain_names assms in \<open>auto simp: strcmp_asc list_all_iff\<close>)
  then show ?thesis by (simp only: find_instruction_def find_filter)
qed

lemma rows_split: "rows m = filter (\<lambda>r. prefix (isa_name r) m) x86_1 @ filter (\<lambda>r. prefix (isa_name r) m) x86_2 @
    filter (\<lambda>r. prefix (isa_name r) m) x86_3 @ filter (\<lambda>r. prefix (isa_name r) m) x86_4"
  by (simp only: rows_def x86_def filter_append)

lemma rows_mov:
  "rows ''mov'' =
   [isa.make ''mov'' r8 rm8 0x8A 0x0 0x0 0x0, isa.make ''mov'' r32 rm32 0x8B 0x0 0x0 0x0,
    isa.make ''mov'' r32 rm32 0x8B 0x0 0x0 0x0, isa.make ''mov'' sreg rm32 0x8E 0x0 0x0 0x0,
    isa.make ''mov'' r8 imm8 0xB0 0xDEAD 0x0 0x0, isa.make ''mov'' r32 imm32 0xB8 0xDEAD 0x0 0x0,
    isa.make ''mov'' rm8 imm8 0xC6 0x0 0x0 0x0, isa.make ''mov'' rm32 imm32 0xC7 0x0 0x0 0x0,
    isa.make ''mov'' r32 crn 0x20 0x0 0x0 0x0F, isa.make ''mov'' r32 crn 0x20 0x0 0x0 0x0F,
    isa.make ''mov'' crn r32 0x22 0x0 0x0 0x0F, isa.make ''mov'' crn r32 0x22 0x0 0x0 0x0F]"
  by (subst rows_split, unfold x86_rows) (simp cong: filter_step)


lemma rows_call:
  "rows ''call'' = [isa.make ''call'' rel32 none 0xE8 0x0 0x0 0x0, isa.make ''call'' rm32 none 0xFF 0x2 0x0 0x0]"
  by (subst rows_split, unfold x86_rows) (simp cong: filter_step)

lemma rows_add:
  "rows ''add'' =
   [isa.make ''add'' rm32 imm8 0x83 0x2 0x0 0x0, isa.make ''add'' r8 rm8 0x2 0x0 0x0 0x0,
    isa.make ''add'' r32 rm32 0x3 0x0 0x0 0x0, isa.make ''add'' eax imm32 0x5 0x0 0x0 0x0,
    isa.make ''add'' rm8 imm8 0x80 0x0 0x0 0x0, isa.make ''add'' rm32 imm32 0x81 0x0 0x0 0x0,
    isa.make ''add'' rm8 imm8 0x82 0x0 0x0 0x0, isa.make ''add'' rm32 imm8 0x83 0x0 0x0 0x0]"
  by (subst rows_split, unfold x86_rows) (simp cong: filter_step)

section \<open>Lines of one and two operands\<close>

abbreviation blanks :: cstr where
  "blanks \<equiv> [32, 44, 9]"

lemma blanks_asc: "asc '' ,'' @ [9] = blanks"
  by (simp add: asc_simps)

text \<open>A word can stand as an operand: no separator, no bracket, not a comment.\<close>

definition word :: "cstr \<Rightarrow> bool" where
  "word w \<longleftrightarrow> w \<noteq> [] \<and> nul_free w \<and> set w \<inter> set blanks = {} \<and> 91 \<notin> set w \<and> deref w \<noteq> 59"

lemma split_at_word: "w \<noteq> [] \<Longrightarrow> set w \<inter> set d = {} \<Longrightarrow> split_at d w = [w]"
proof -
  assume w: "w \<noteq> []" "set w \<inter> set d = {}"
  then have "dropWhile (\<lambda>c. c \<in> set d) w = w" by (cases w) auto
  moreover have "takeWhile (\<lambda>c. c \<notin> set d) w = w" "dropWhile (\<lambda>c. c \<notin> set d) w = []"
    using w(2) by (auto simp: takeWhile_eq_all_conv dropWhile_eq_Nil_conv)
  ultimately show ?thesis by (subst split_at.simps) (simp add: Let_def)
qed

lemma split_at_append:
  assumes "w \<noteq> []" "set w \<inter> set d = {}" "c \<in> set d"
  shows "split_at d (w @ c # s) = w # split_at d s"
proof -
  have "dropWhile (\<lambda>c. c \<in> set d) (w @ c # s) = w @ c # s" using assms by (cases w) auto
  moreover have "takeWhile (\<lambda>c. c \<notin> set d) (w @ c # s) = w"
    using assms by (subst takeWhile_append2) auto
  moreover have "dropWhile (\<lambda>c. c \<notin> set d) (w @ c # s) = c # s"
    using assms by (subst dropWhile_append2) auto
  ultimately show ?thesis
    by (simp only: split_at.simps [of d "w @ c # s"] Let_def list.simps if_False list.sel)
qed

lemma split_at_delim: "c \<in> set d \<Longrightarrow> split_at d (c # s) = split_at d s"
  by (rule trans [OF split_at.simps [of d "c # s"]], rule sym, rule trans [OF split_at.simps [of d s]])
    (simp only: dropWhile.simps if_True)

lemma map_snd_eq: "map snd ts = w # ws \<Longrightarrow> \<exists>i us. ts = (i, w) # us \<and> map snd us = ws"
  by (cases ts) auto

lemma strpbrk_bracket:
  assumes "nul_free line" "91 \<notin> set line"
  shows "libc_strpbrk line (asc ''['') = None"
proof (cases line)
  case (Cons x l)
  then show ?thesis using assms strpbrk_takeWhile [of x l "asc ''[''"] by (simp add: asc_simps)
qed simp

definition mnemonic :: "cstr \<Rightarrow> bool" where
  "mnemonic m \<longleftrightarrow> word m \<and> libc_strcmp m (asc ''db'') \<noteq> 0 \<and> libc_strcmp m (asc ''dw'') \<noteq> 0 \<and> libc_strcmp m (asc ''dd'') \<noteq> 0"

lemma directive_mnemonic:
  assumes "nul_free line" "split_at blanks line = m # ws" "mnemonic m"
  shows "directive line = None"
proof -
  obtain pch ptr where t: "libc_strtok None blanks (Some (0, line)) = (Some pch, ptr)" using strtok_some by blast
  have "libc_tokens blanks (Some (0, line)) = pch # libc_tokens blanks ptr" by (subst libc_tokens.simps) (simp add: t)
  then have "snd pch = m" using strtok_tokens [OF assms(1), of blanks 0] assms(2) by simp
  then show ?thesis using assms(3) by (simp only: directive_def blanks_asc) (simp add: strtok_start t mnemonic_def Let_def)
qed

lemma parse_line_one:
  assumes "small s" "mnemonic m" "word a"
  shows "parse_line (m @ 32 # a) n s = do {
     (v, s) \<leftarrow> plain_operand a (line_start\<lparr>inst := Some (m @ heap_tail s), cnt := 1\<rparr>) s;
     encode_line (v\<lparr>cnt := cnt v + 1\<rparr>) s }"
proof -
  have m: "word m" using assms(2) by (simp add: mnemonic_def)
  have nf: "nul_free (m @ 32 # a)" "91 \<notin> set (m @ 32 # a)" using m assms(3) by (auto simp: word_def)
  have sp: "split_at blanks (m @ 32 # a) = [m, a]"
    using m assms(3) by (simp add: word_def split_at_append split_at_word)
  obtain i j where ts: "libc_tokens blanks (Some (0, m @ 32 # a)) = [(i, m), (j, a)]"
    using strtok_tokens [OF nf(1), of blanks 0] unfolding sp by (auto dest!: map_snd_eq)
  have d: "deref m \<noteq> 59" "deref a \<noteq> 59" using m assms(3) by (simp_all add: word_def)
  show ?thesis
    unfolding parse_line_cases [OF assms(1)] blanks_asc directive_mnemonic [OF nf(1) sp assms(2)] strpbrk_bracket [OF nf] ts
    using d by (simp add: line_start_def case_prod_unfold)
qed

lemma parse_line_two:
  assumes "small s" "mnemonic m" "word a" "word b"
  shows "parse_line (m @ 32 # a @ 44 # 32 # b) n s = do {
     (v, s) \<leftarrow> plain_operand a (line_start\<lparr>inst := Some (m @ heap_tail s), cnt := 1\<rparr>) s;
     (v, s) \<leftarrow> plain_operand b (v\<lparr>cnt := cnt v + 1\<rparr>) s;
     encode_line (v\<lparr>cnt := cnt v + 1\<rparr>) s }"
proof -
  let ?l = "m @ 32 # a @ 44 # 32 # b"
  have m: "word m" using assms(2) by (simp add: mnemonic_def)
  have nf: "nul_free ?l" "91 \<notin> set ?l" using m assms(3,4) by (auto simp: word_def)
  have sp: "split_at blanks ?l = [m, a, b]"
    using m assms(3,4) by (simp add: word_def split_at_append split_at_word split_at_delim)
  obtain i j k where ts: "libc_tokens blanks (Some (0, ?l)) = [(i, m), (j, a), (k, b)]"
    using strtok_tokens [OF nf(1), of blanks 0] unfolding sp by (auto dest!: map_snd_eq)
  have d: "deref m \<noteq> 59" "deref a \<noteq> 59" "deref b \<noteq> 59" using m assms(3,4) by (simp_all add: word_def)
  have c: "cnt v = 1" if "plain_operand x (w\<lparr>cnt := 1\<rparr>) t = Some (v, t')" for x v w t t'
    using that by (auto simp: plain_operand_def Let_def bind_eq_Some_conv split: if_splits)
  show ?thesis
    unfolding parse_line_cases [OF assms(1)] blanks_asc directive_mnemonic [OF nf(1) sp assms(2)] strpbrk_bracket [OF nf] ts
    using d by (simp add: line_start_def case_prod_unfold)
qed

subsection \<open>Operands\<close>

lemma plain_operand_class:
  assumes "classify a = c" "c \<noteq> - 1" "c AND (imm8 OR imm32) = 0"
  shows "cnt v = 1 \<Longrightarrow> plain_operand a v s = Some (v\<lparr>syn0 := c\<rparr>, s)"
    "cnt v = 2 \<Longrightarrow> plain_operand a v s = Some (v\<lparr>syn1 := c\<rparr>, s)"
  using assms by (simp_all add: plain_operand_def Let_def)

lemma plain_operand_imm8:
  assumes "classify a = imm8"
  shows "cnt v = 2 \<Longrightarrow> plain_operand a v s = Some (v\<lparr>imm := True, immediate := ucast (lass_atoi a), syn1 := imm8\<rparr>, s)"
  using assms by (simp add: plain_operand_def Let_def class_defs)

lemma plain_operand_label:
  assumes "classify a = - 1" "lookup_symbol (symtab s) a 0 (num_symbols s) = Some p" "cnt v = 1"
  shows "plain_operand a v s = Some (v\<lparr>imm := True, immediate := p + elf_offset s, syn0 := rel8\<rparr>, s)"
  using assms by (simp add: plain_operand_def Let_def find_symbol_def class_defs)

text \<open>The 32-bit registers in the order of their codes.\<close>

definition reg :: "nat \<Rightarrow> string" where
  "reg i = syn_name (registers ! i)"

lemma less_8: "i < (8 :: nat) \<longleftrightarrow> i \<in> {0, 1, 2, 3, 4, 5, 6, 7}"
  by auto

lemma lookup_asc:
  assumes "plain s" "list_all (\<lambda>r. plain (syn_name r)) tab"
  shows "lookup_name tab (asc s) = map_option syn_code (find (\<lambda>r. prefix (syn_name r) s) tab)"
proof -
  have "find (\<lambda>r. libc_strcmp (asc (syn_name r)) (asc s) = 0) tab = find (\<lambda>r. prefix (syn_name r) s) tab"
    by (rule find_cong) (use assms in \<open>auto simp: strcmp_asc list_all_iff\<close>)
  then show ?thesis by (simp add: lookup_name_def)
qed

lemma syn_make [simp]: "syn_name (syntax_row.make n c) = n" "syn_code (syntax_row.make n c) = c"
  by (simp_all add: syntax_row.make_def)

lemma lookup_registers: "plain s \<Longrightarrow>
    lookup_name registers (asc s) = map_option syn_code (find (\<lambda>r. prefix (syn_name r) s) registers)"
  by (rule lookup_asc) (simp_all add: registers_def)

lemma classify_register:
  assumes "plain s" "\<not> isdigit (deref (asc s))" "find (\<lambda>r. prefix (syn_name r) s) registers = Some r"
  shows "classify (asc s) = syn_code r OR r32"
  using assms by (simp add: classify_def lookup_registers)

lemma classify_reg: "i < 8 \<Longrightarrow> classify (asc (reg i)) = of_nat i OR r32"
proof -
  assume i: "i < 8"
  have "plain (reg i) \<and> \<not> isdigit (deref (asc (reg i))) \<and>
      find (\<lambda>r. prefix (syn_name r) (reg i)) registers = Some (syntax_row.make (reg i) (of_nat i))"
    using i unfolding less_8
    by (elim insertE emptyE) (simp_all add: reg_def registers_def code_defs asc_simps isdigit_def)
  then show ?thesis using classify_register [of "reg i" "syntax_row.make (reg i) (of_nat i)"] by simp
qed

lemma word_reg: "i < 8 \<Longrightarrow> word (asc (reg i))"
  unfolding less_8 by (elim insertE emptyE) (simp_all add: reg_def registers_def word_def asc_simps)

lemma mnemonics: "mnemonic (asc ''mov'')" "mnemonic (asc ''jmp'')" "mnemonic (asc ''call'')" "mnemonic (asc ''add'')" "mnemonic (asc ''adc'')"
  unfolding mnemonic_def word_def
  by (simp_all add: strcmp_asc) (simp_all add: asc_simps)

section \<open>Numbers\<close>

definition hexdigit :: "bool \<times> nat \<Rightarrow> u8" where
  "hexdigit = (\<lambda>(upper, d). if d < 10 then 48 + of_nat d else (if upper then 65 else 97) + of_nat (d - 10))"

lemma less_16: "d < (16 :: nat) \<longleftrightarrow> d \<in> {0, 1, 2, 3, 4, 5, 6, 7, 8, 9, 10, 11, 12, 13, 14, 15}"
  by (simp only: insert_iff empty_iff) presburger

lemma hexdigit_class:
  "d < 16 \<Longrightarrow> (isdigit (hexdigit (u, d)) \<longleftrightarrow> d < 10) \<and> (d < 10 \<longrightarrow> sint (hexdigit (u, d)) = 48 + int d) \<and>
    (\<not> d < 10 \<longrightarrow> tolower (hexdigit (u, d)) = 87 + int d)"
  unfolding less_16
  by (elim insertE emptyE; cases u) (simp_all add: hexdigit_def isdigit_def islower_def tolower_def)

lemma atoi_hexdigit: "d < 16 \<Longrightarrow> atoi_step base num (hexdigit (u, d)) = num * base + of_nat d"
  using hexdigit_class [of d u] by (auto simp: atoi_step_def ishex_def)

lemma hexdigit_plain: "d < 16 \<Longrightarrow> hexdigit (u, d) \<noteq> 0 \<and> hexdigit (u, d) \<noteq> 120 \<and> hexdigit (u, d) \<noteq> 45"
  unfolding less_16 by (elim insertE emptyE; cases u) (simp_all add: hexdigit_def)

definition value_of :: "nat \<Rightarrow> nat list \<Rightarrow> nat" where
  "value_of base xs = foldl (\<lambda>n d. n * base + d) 0 xs"

lemma foldl_atoi:
  assumes "\<forall>d\<in>set xs. snd d < 16"
  shows "foldl (atoi_step (of_nat base)) (of_nat n) (map hexdigit xs) = of_nat (foldl (\<lambda>n d. n * base + d) n (map snd xs))"
  using assms
proof (induction xs arbitrary: n)
  case (Cons d xs)
  obtain u k where d: "d = (u, k)" by force
  then show ?case using Cons.IH [of "n * base + k"] Cons.prems by (simp add: atoi_hexdigit)
qed simp

lemma digits_nul_free: "\<forall>d\<in>set xs. snd d < 16 \<Longrightarrow> nul_free (map hexdigit xs) \<and> 120 \<notin> set (map hexdigit xs) \<and> deref (map hexdigit xs) \<noteq> 45"
proof -
  assume xs: "\<forall>d\<in>set xs. snd d < 16"
  then have *: "c \<noteq> 0 \<and> c \<noteq> 120 \<and> c \<noteq> 45" if "c \<in> set (map hexdigit xs)" for c
    using that hexdigit_plain by fastforce
  then show ?thesis by (cases xs) (auto simp: nul_free_def)
qed

lemma atoi_decimal:
  assumes "\<forall>d\<in>set xs. d < 10"
  shows "lass_atoi (map (\<lambda>d. 48 + of_nat d) xs) = of_nat (value_of 10 xs)"
proof -
  let ?xs = "map (Pair False) xs"
  have m: "map (\<lambda>d. 48 + of_nat d) xs = map hexdigit ?xs" using assms by (simp add: hexdigit_def)
  have *: "\<forall>d\<in>set ?xs. snd d < 16" using assms by auto
  note n = digits_nul_free [OF *]
  have "libc_strpbrk (map hexdigit ?xs) (asc ''x'') = None"
  proof (cases "map hexdigit ?xs")
    case (Cons c l)
    then show ?thesis using n strpbrk_takeWhile [of c l "asc ''x''"] by (simp add: asc_simps)
  qed simp
  then show ?thesis
    unfolding m using n foldl_atoi [OF *, of 10 0] by (simp add: lass_atoi_def value_of_def comp_def)
qed

lemma atoi_hex:
  assumes "\<forall>d\<in>set xs. snd d < 16"
  shows "lass_atoi (asc ''0x'' @ map hexdigit xs) = of_nat (value_of 16 (map snd xs))"
  using digits_nul_free [OF assms] foldl_atoi [OF assms, of 16 0] by (simp add: lass_atoi_def value_of_def asc_simps)

section \<open>Properties\<close>

lemmas encode_simps = encoding_def prefix_bytes_def two_bytes_def one_bytes_def imm_bytes_def two_modrm_def le16_def
  MODRM_def class_defs mod_defs Let_def line_start_def

lemma match_simps:
  "match_first op1 op2 (isa.make n a b c d e f) \<longleftrightarrow>
    (if op1 AND sreg \<noteq> 0 then a = op1 \<and> (b = op2 \<or> b = none)
     else a AND op1 = a \<and> (b = op2 \<or> b = none) \<or> a = none \<and> b = none)"
  "match_second op1 op2 (isa.make n a b c d e f) \<longleftrightarrow>
    a AND op1 = a \<and> (b AND (if op2 AND (imm8 OR rel8) \<noteq> 0 then 0x6C0 else op2) \<noteq> 0 \<or> b = none)"
  by (simp_all add: match_first_def match_second_def)

lemma find_mov: "i < 8 \<Longrightarrow> j < 8 \<Longrightarrow>
    find_instruction (asc ''mov'') (of_nat i OR r32) (of_nat j OR r32) = Some (isa.make ''mov'' r32 rm32 0x8B 0x0 0x0 0x0)"
  unfolding less_8
  by (elim insertE emptyE) (simp_all add: find_instruction_rows rows_mov match_simps class_defs)

lemma mov_bytes: "i < 8 \<Longrightarrow> j < 8 \<Longrightarrow>
    encoding (isa.make ''mov'' r32 rm32 0x8B 0x0 0x0 0x0)
      (line_start\<lparr>inst := x, syn0 := of_nat i OR r32, syn1 := of_nat j OR r32, cnt := k\<rparr>) p e =
    [0x8B, 0xC0 + 8 * of_nat i + of_nat j]"
  unfolding less_8 by (elim insertE emptyE) (simp_all add: encode_simps)

lemma reg_class: "i < 8 \<Longrightarrow> (of_nat i OR r32) AND (imm8 OR imm32) = 0 \<and> of_nat i OR r32 \<noteq> (- 1 :: u32)"
  unfolding less_8 by (elim insertE emptyE) (simp_all add: class_defs)

definition lass0 :: lass where
  "lass0 = \<lparr>program_length = 0, current_position = 0, num_symbols = 0, unr_symbols = 0, output_buf = replicate 16 0,
     elf_output = [], elf_offset = 0, ORG = 0, symtab = replicate 2 \<lparr>sym_name = replicate 32 0, position = 0\<rparr>,
     unresolved = replicate 2 \<lparr>sym_name = replicate 32 0, position = 0\<rparr>, heap_tail = []\<rparr>"

lemma lass0_small: "small lass0" "heap_tail lass0 = []"
  by (simp_all add: lass0_def small_def)

lemma parse_mov:
  assumes "i < 8" "j < 8" "small s" "heap_tail s = []"
  shows "parse_line (asc (''mov '' @ reg i @ '', '' @ reg j)) n s = append_bytes [0x8B, 0xC0 + 8 * of_nat i + of_nat j] s"
proof -
  have l: "asc (''mov '' @ reg i @ '', '' @ reg j) = asc ''mov'' @ 32 # asc (reg i) @ 44 # 32 # asc (reg j)"
    by (simp add: asc_simps)
  note c = reg_class [OF assms(1)] reg_class [OF assms(2)]
  let ?v = "line_start\<lparr>inst := Some (asc ''mov''), syn0 := of_nat i OR r32, syn1 := of_nat j OR r32, cnt := 3\<rparr>"
  have "parse_line (asc (''mov '' @ reg i @ '', '' @ reg j)) n s = encode_line ?v s"
    unfolding l parse_line_two [OF assms(3) mnemonics(1) word_reg [OF assms(1)] word_reg [OF assms(2)]]
    using c by (simp add: plain_operand_class [OF classify_reg [OF assms(1)]] plain_operand_class [OF classify_reg [OF assms(2)]] assms(4))
      (simp add: line_start_def eval_nat_numeral)
  also have "\<dots> = append_bytes [0x8B, 0xC0 + 8 * of_nat i + of_nat j] s"
    by (simp add: encode_line_def find_mov [OF assms(1,2)] emit_append [OF assms(3)] mov_bytes [OF assms(1,2)])
  finally show ?thesis .
qed



text \<open>
  A move between 32-bit registers assembles to the two bytes of \<^verbatim>\<open>MOV r32, r/m32\<close>: opcode
  \<^verbatim>\<open>8B\<close> and a Mod/RM byte with mode 3, the destination in the register field and the source in the
  other, for all 64 pairs of registers.
\<close>

lemma mov_registers:
  assumes "i < 8" "j < 8" "small s" "heap_tail s = []"
  shows "parse_line (asc (''mov '' @ reg i @ '', '' @ reg j)) n s = append_bytes [0x8B, 0xC0 + 8 * of_nat i + of_nat j] s"
  using assms by (rule parse_mov)


lemma find_call: "find_instruction (asc ''call'') rel8 0 = None"
  by (simp add: find_instruction_rows rows_call match_simps class_defs)







text \<open>
  A call of a label is not assembled at all: the operand is classified as an 8-bit displacement, the
  table has the instruction with a 32-bit displacement only, and the fallback that widens operands
  looks at the second operand.  The line leaves the output and the position unchanged.
\<close>

lemma call_label_ignored:
  assumes "word label" "classify label = - 1" "lookup_symbol (symtab s) label 0 (num_symbols s) = Some p"
    and "small s" "heap_tail s = []"
  shows "parse_line (asc ''call '' @ label) n s = Some s"
proof -
  have l: "asc ''call '' @ label = asc ''call'' @ 32 # label" by (simp add: asc_simps)
  show ?thesis
    unfolding l parse_line_one [OF assms(4) mnemonics(3) assms(1)]
    by (simp add: plain_operand_label [OF assms(2,3)] assms(5) encode_line_def line_start_def find_call)
qed

text \<open>
  Adding a small constant to a 32-bit register assembles to the bytes \<^verbatim>\<open>83 /2 ib\<close>, which add the
  constant and the carry: the row the lookup takes carries the extension of \<^verbatim>\<open>adc\<close>.
\<close>

lemma add_imm8_is_adc:
  assumes "i < 8" "word d" "classify d = imm8" "small s" "heap_tail s = []"
  shows "parse_line (asc (''add '' @ reg i @ '', '') @ d) n s = append_bytes [0x83, 0xD0 + of_nat i, ucast (lass_atoi d)] s"
proof -
  have l: "asc (''add '' @ reg i @ '', '') @ d = asc ''add'' @ 32 # asc (reg i) @ 44 # 32 # d"
    by (simp add: asc_simps)
  let ?v = "line_start\<lparr>inst := Some (asc ''add''), syn0 := of_nat i OR r32, imm := True, immediate := ucast (lass_atoi d), syn1 := imm8, cnt := 3\<rparr>"
  let ?r = "isa.make ''add'' rm32 imm8 0x83 0x2 0x0 0x0"
  have f: "find_instruction (asc ''add'') (of_nat i OR r32) imm8 = Some ?r"
    using assms(1) unfolding less_8 by (elim insertE emptyE) (simp_all add: find_instruction_rows rows_add match_simps class_defs)
  have b: "encoding ?r ?v (current_position s) (elf_offset s) = [0x83, 0xD0 + of_nat i, ucast (lass_atoi d)]"
    using assms(1) unfolding less_8 by (elim insertE emptyE) (simp_all add: encode_simps ucast_ucast_u64)
  have "parse_line (asc (''add '' @ reg i @ '', '') @ d) n s = encode_line ?v s"
    unfolding l parse_line_two [OF assms(4) mnemonics(4) word_reg [OF assms(1)] assms(2)]
    using reg_class [OF assms(1)]
    by (simp add: plain_operand_class [OF classify_reg [OF assms(1)]] plain_operand_imm8 [OF assms(3)] assms(5))
      (simp add: line_start_def eval_nat_numeral)
  also have "\<dots> = append_bytes (encoding ?r ?v (current_position s) (elf_offset s)) s"
    by (simp add: encode_line_def f emit_append [OF assms(4)])
  finally show ?thesis unfolding b .
qed

text \<open>
  C14. \<^verbatim>\<open>lass_atoi\<close> reads back the decimal and, after \<^verbatim>\<open>0x\<close>, the hexadecimal notation of a number, with
  digits in either case, modulo the width of the result.
\<close>

theorem lass_atoi_correct:
  assumes "\<forall>d\<in>set xs. d < 10" "\<forall>d\<in>set hs. snd d < 16"
  shows "lass_atoi (map (\<lambda>d. 48 + of_nat d) xs) = of_nat (value_of 10 xs) \<and>
    lass_atoi (asc ''0x'' @ map hexdigit hs) = of_nat (value_of 16 (map snd hs))"
  using atoi_decimal [OF assms(1)] atoi_hex [OF assms(2)] by simp

theorem lass_atoi_correct_witness:
  "lass_atoi [49, 50, 51] = 123 \<and> lass_atoi (asc ''0xFf'') = 255"
  using lass_atoi_correct [of "[1, 2, 3]" "[(True, 15), (False, 15)]"]
  by (simp add: value_of_def hexdigit_def asc_simps)

text \<open>The sign is counted as a digit: the negative of a number is never read.\<close>

lemma lass_atoi_minus: "lass_atoi (asc ''-5'') = 95"
  by (simp add: lass_atoi_def asc_simps atoi_step_def isdigit_def islower_def tolower_def ishex_def)

text \<open>
  C5. The assembler is a sound two-pass assembler: when both passes start at the same position, the
  position the first pass records for a label is the position the second pass has reached when it comes
  to the label, whatever lines precede it and whatever the symbol tables hold.
\<close>

theorem two_pass_labels:
  assumes "small s" "small t" "heap_tail t = heap_tail s" "current_position t = current_position s"
    and "pass_lines 1 (ls @ [label @ 58 # rest]) s = Some s'" "pass_lines 2 ls t = Some t'"
    and "label \<noteq> []" "nul_free label" "deref label \<noteq> 59" "58 \<notin> set label"
  shows "position (symtab s' ! (num_symbols s' - 1)) = current_position t'"
proof -
  from assms(5) obtain s1 where 1: "pass_lines 1 ls s = Some s1" "pass_line 1 (label @ 58 # rest) s1 = Some s'"
    by (auto simp: pass_lines_append bind_eq_Some_conv)
  have c: "libc_strchr (label @ 58 # rest) 58 = Some (length label)"
    using assms(8,10) by (induction label) auto
  have "deref (label @ 58 # rest) = deref label" using assms(7) by (cases label) auto
  then have "add_symbol label s1 = Some s'"
    using 1(2) c assms(7-9) by (simp add: pass_line_def deref_zero)
  from add_symbol_place [OF this] pass_lines_same [OF assms(1-4) 1(1) assms(6)] show ?thesis by simp
qed

theorem two_pass_labels_witness:
  "\<exists>s' t'. pass_lines 1 ([asc ''mov eax, ecx''] @ [asc ''a'' @ 58 # []]) lass0 = Some s' \<and>
     pass_lines 2 [asc ''mov eax, ecx''] lass0 = Some t' \<and>
     position (symtab s' ! (num_symbols s' - 1)) = current_position t' \<and> current_position t' = 2"
proof -
  have l: "asc ''mov eax, ecx'' = asc (''mov '' @ reg 0 @ '', '' @ reg 1)" by (simp add: reg_def registers_def)
  have p: "pass_line n (asc ''mov eax, ecx'') lass0 = append_bytes [0x8B, 0xC1] lass0" for n
    using parse_mov [of 0 1 lass0 n, OF _ _ lass0_small] unfolding l [symmetric] by (simp add: pass_line_def asc_simps)
  obtain t' where t': "append_bytes [0x8B, 0xC1] lass0 = Some t'" "current_position t' = 2" "symtab t' = symtab lass0"
      "num_symbols t' = 0" "unr_symbols t' = 0"
    by (simp add: append_bytes_def Let_def lass0_def)
  obtain s' where s': "add_symbol (asc ''a'') t' = Some s'"
    using t'(3-5) by (simp add: add_symbol_def Let_def lass0_def)
  have 1: "pass_lines 1 ([asc ''mov eax, ecx''] @ [asc ''a'' @ 58 # []]) lass0 = Some s'"
    using s' by (simp add: p t'(1)) (simp add: pass_line_def asc_simps)
  have 2: "pass_lines 2 [asc ''mov eax, ecx''] lass0 = Some t'" by (simp add: p t'(1))
  show ?thesis
    using two_pass_labels [OF lass0_small(1) lass0_small(1) refl refl 1 2] 1 2 t'(2) by (simp add: asc_simps)
qed

end
