(* ===== verification/Spec2Isabelle.thy ===== *)
theory Spec2Isabelle
  imports Ext2_Props Elf Kstream X86 Lass_Props
begin

text \<open>
  Verification of the crunchy kernel, a 32-bit hobby kernel in C with its assembler \<^verbatim>\<open>lass\<close>.

  \<^bold>\<open>The program.\<close>  \<^verbatim>\<open>kernel/mem\<close> manages memory in three layers: \<^verbatim>\<open>mm.c\<close> hands out physical pages from two
  bitmaps, \<^verbatim>\<open>paging.c\<close> maps them into page directories, \<^verbatim>\<open>malloc.c\<close> grows the kernel heap page by page with both
  and hands out blocks.  \<^verbatim>\<open>kernel/lib\<close> has the string functions, the number conversions and \<^verbatim>\<open>printf\<close>, which writes
  to the text console \<^verbatim>\<open>drivers/vga.c\<close> and allocates its buffer from the heap.  \<^verbatim>\<open>arch/x86.c\<close> and \<^verbatim>\<open>arch/pic.c\<close> set up
  segments, interrupt gates and interrupt controllers.  \<^verbatim>\<open>drivers/ide.c\<close> queues disk requests, finishes them in its
  interrupt handler and caches blocks; \<^verbatim>\<open>fs/ext2.c\<close> and \<^verbatim>\<open>fs/ext2_debug.c\<close> read and write the file system through
  that cache.  \<^verbatim>\<open>user/lass.c\<close> is a two-pass assembler driven by the tables of \<^verbatim>\<open>user/opcodes.h\<close> and written
  against the user-space library \<^verbatim>\<open>libc/usr\<close>.

  \<^bold>\<open>The state.\<close>  Memory is one map from 32-bit addresses to bytes, and pointers are addresses in it: the kernel casts
  between integers and pointers everywhere, and several of its faults are about where a pointer leads.  The
  globals of a component are the fields of a record that extends the record of the component below it:
  \<open>machine\<close> (memory), \<open>mm_state\<close>, \<open>paging_state\<close>, \<open>heap_state\<close>, \<open>io_state\<close> (the log of port accesses and the
  answers of the devices still to come), \<open>vga_state\<close>, \<open>pic_state\<close>, \<open>ide_state\<close>, \<open>fs_state\<close>, \<open>cli_state\<close> (the
  nesting of interrupt disabling), \<open>elf_state\<close> (kernel symbols and the running program).  Operations are functions on any extension of their record,
  so a component runs unchanged inside the ones above.  Integers are words of their width.  \<open>None\<close> is
  an operation that does not return: an endless loop, a lock that is never released, a division by zero.  A function
  that ends without the value it promises returns \<open>indet\<close>, of which nothing is assumed.

  \<^bold>\<open>The theories.\<close>
  \<^item> \<open>Prelude\<close>, \<open>Memory\<close>: integers, counting loops, offsets; cells of 8, 16 and 32 bits (locale \<open>cells\<close>), \<^verbatim>\<open>P2V\<close>/\<^verbatim>\<open>V2P\<close>.
  \<^item> \<open>Kstring\<close>: \<^verbatim>\<open>lib/string.c\<close>.  What \<^verbatim>\<open>strcat\<close>, \<^verbatim>\<open>strcmp\<close>, \<^verbatim>\<open>strcpy\<close> and \<^verbatim>\<open>strtok\<close> compute on every C string.
  \<^item> \<open>Mm\<close>: \<^verbatim>\<open>mem/mm.c\<close>.  The bitmap contract (locale \<open>bitmap\<close>), the invariant \<open>mm_inv\<close>, and the allocator as
    operations on the set \<open>used_pages\<close>.
  \<^item> \<open>Paging\<close>: \<^verbatim>\<open>mem/paging.c\<close>.  Mapping and looking up, the invariant \<open>layout\<close>, and what the heap relies on
    (locale \<open>page_source\<close>).
  \<^item> \<open>Malloc\<close>: \<^verbatim>\<open>mem/malloc.c\<close>.  The chain as a list of blocks, the invariant \<open>heap_inv\<close>, the contract of an
    allocator (locale \<open>allocator\<close>), best fit, aligned allocation, initialisation.
  \<^item> \<open>Mem_More\<close>: the functions of these files that print or allocate on the way.
  \<^item> \<open>Opcodes\<close>, \<open>Libc\<close>, \<open>Lass\<close>, \<open>Lass_Props\<close>: \<^verbatim>\<open>user/opcodes.h\<close> row by row, the string functions the assembler
    uses, \<^verbatim>\<open>user/lass.c\<close>.  Both passes agree on every label position; a short jump arrives at its label.
  \<^item> \<open>Kstdlib\<close>, \<open>Kprintf\<close>, \<open>Diag\<close>: \<^verbatim>\<open>lib/stdlib.c\<close>, \<^verbatim>\<open>lib/printf.c\<close> with \<^verbatim>\<open>drivers/uart.c\<close>, the macros \<^verbatim>\<open>assert\<close> and
    \<^verbatim>\<open>panic\<close>.  Digits written and read back; text formatted; the endless loop on an unknown conversion.  \<open>Diag\<close> ties the
    heap to the printer: \<^verbatim>\<open>malloc\<close> with its messages printed by \<^verbatim>\<open>printf\<close> is \<open>malloc\<close>, and a full heap makes it hang.
  \<^item> \<open>Ports\<close>, \<open>X86\<close>, \<open>Pic\<close>, \<open>Vga\<close>, \<open>Rtc\<close>: port access, descriptor tables, interrupt controllers, console, clock.
  \<^item> \<open>Ide\<close>, \<open>Ide_Queue\<close>: \<^verbatim>\<open>drivers/ide.c\<close>.  The steps of the driver refine a first-in first-out queue (locale
    \<open>request_queue\<close>); what an interrupt in the middle of \<^verbatim>\<open>ide_rw\<close> does to a request; when the wait for the drive ends; what the controller is told; what a finished request leaves.
  \<^item> \<open>Ext2\<close>, \<open>Ext2_Props\<close>: the file system.  Finding an inode, the first free bit, reading a file.
  \<^item> \<open>Mutex\<close>: the locks of \<^verbatim>\<open>arch/sched.s\<close> and \<^verbatim>\<open>mutex.c\<close>.  The instructions of the
    two lock routines, one at a time: at most one processor is behind \<^verbatim>\<open>acquire\<close> in any interleaving.
  \<^item> \<open>Elf\<close>: \<^verbatim>\<open>elf.c\<close>, the kernel symbols, the dump and the loader.  The symbol found is the closest below the address.
  \<^item> \<open>Kstream\<close>: \<^verbatim>\<open>lib/stdio.c\<close>.  A write appends or changes nothing; seeking to \<open>-1\<close> leads in front of the buffer.

  \<^bold>\<open>Interfaces.\<close>  Locales state what a component promises to its clients and are interpreted on the model's
  definitions: \<open>cells\<close> on the loads and stores, \<open>bitmap\<close> on the bitmap operations for the page allocator,
  \<open>page_source\<close> on \<^verbatim>\<open>k_page_alloc\<close> and \<^verbatim>\<open>k_paging_map\<close> for the heap, \<open>allocator\<close> on \<^verbatim>\<open>malloc\<close> and \<^verbatim>\<open>free\<close>, and
  \<open>request_queue\<close> on the two parts of \<^verbatim>\<open>ide_rw\<close> and on \<^verbatim>\<open>ide_handler\<close>.

  \<^bold>\<open>Parameters.\<close>  Functions that print take the effect of printing as an argument; \<open>print\<close> of \<open>Diag\<close> is the kernel's.
  Theorems about them hold for every printer, for the kernel's, or for \<open>silent\<close>, with which a function that prints
  does not return.  \<open>lit\<close> gives the addresses of string constants.  \<open>io_in\<close> is what devices answer, in the order the
  answers are read; which register an answer belongs to is in the log of the accesses.  \<open>heap_tail\<close> of the assembler
  is what lies in memory behind the copy of a mnemonic, which has no terminator; it is the same for all lines.

  \<^bold>\<open>Bounds and fuel.\<close>  Loops over a fixed number of cells count down a natural number that starts at the bound of the
  source (1024 entries of a directory, 32 words of a bitmap).  Counting loops on words terminate by the distance to
  their bound.  Loops that may run for ever are partial functions with the value \<open>None\<close>, without fuel, and the
  properties say when they return.  The heap theorems ask that the request is below 1 GB and that the chain and the
  address range have room (\<open>fits\<close>): fewer than 512 blocks, half of what the table holds, since the search for a free
  block reads as many entries behind its last hit as there are blocks.  One property says what a full heap does.  The
  file theorem reaches to the 268 blocks of an inode and one indirect block.

  \<^bold>\<open>Not modelled.\<close>
  \<^item> \<^verbatim>\<open>ftoa\<close> and the floating-point conversions, \<^verbatim>\<open>make_elf\<close> of \<^verbatim>\<open>lass.c\<close>, which nothing calls, \<^verbatim>\<open>vga_test\<close>, which calls
    the console with constants, and the messages of the assembler.
  \<^item> Keyboard, timer, trap dispatch, system calls and the page-fault handler; the advanced interrupt controllers, the
    tables of the firmware and the start of further processors; the identification of the processor; the start-up
    sequence and the idle loop of \<^verbatim>\<open>kernel.c\<close>.  They mostly program devices or call the parts below in turn.
  \<^item> Assembly other than the locks: entry, exit and start-up sequences, and the instructions of \<^verbatim>\<open>x86.c\<close> that only load
    processor registers.
  \<^item> The stand-alone experiments \<^verbatim>\<open>list.c\<close>, \<^verbatim>\<open>lquad.c\<close>, \<^verbatim>\<open>pmm_test.c\<close>, \<^verbatim>\<open>user.c\<close>, the unused \<^verbatim>\<open>fs/vfs.c\<close> and \<^verbatim>\<open>drivers/vesa.c\<close>, and
    the functions of \<^verbatim>\<open>libc/usr\<close> the assembler does not use, which repeat those of \<^verbatim>\<open>kernel/lib\<close>.
  \<^item> Effects of other processors and of interrupts in the middle of an operation.  Two places go further: the lock
    routines are interleaved instruction by instruction, and interrupts of the disk come before, between and after
    the two parts of \<^verbatim>\<open>ide_rw\<close>.  Inside its first part, where the source takes no lock, they are not part of the
    refinement; the lemma \<open>ide_rw_race\<close> shows that a request can get lost there.
  \<^item> The effect of page tables on memory accesses: the address space is the one the kernel sees with its own directory.
\<close>

end
